(* ===== verification/Wallet_Prelude.thy ===== *)
theory Wallet_Prelude
  imports "HOL-Library.Word" "HOL-Library.Char_ord"
begin

text \<open>
  Shared vocabulary of the development: bytes and byte strings, C++ \<open>char\<close> values, the
  exceptions the modelled code throws (\<open>error\<close>), the result type in which a throwing
  function is written, and generic lemmas on lists, words and association lists that the
  component theories share.
\<close>

unbundle bit_operations_syntax

section \<open>Automation\<close>

named_theorems codec_simps \<open>evaluation of byte and character conversions\<close>
named_theorems result_simps \<open>splitting of fallible computations\<close>

section \<open>Bytes, characters and strings\<close>

type_synonym byte = "8 word"
type_synonym bytes = "8 word list"

text \<open>
  A C++ \<open>std::string\<close> is a list of 8-bit characters; \<open>char\<close> is a signed type on the
  platforms the wallet is built for, so a comparison of characters reads them with \<open>schar\<close>.
\<close>

definition byte_of_char :: "char \<Rightarrow> byte" where
  "byte_of_char c = of_nat (of_char c)"

definition char_of_byte :: "byte \<Rightarrow> char" where
  "char_of_byte b = char_of (unat b)"

definition schar :: "char \<Rightarrow> int" where
  "schar c = sint (byte_of_char c)"

lemma unat_byte_of_char [codec_simps]: "unat (byte_of_char c) = of_char c"
  by (simp add: byte_of_char_def unat_of_nat)

lemma char_of_byte_of_char [simp, codec_simps]: "char_of_byte (byte_of_char c) = c"
  by (simp add: char_of_byte_def unat_byte_of_char)

lemma byte_of_char_of_byte [simp, codec_simps]: "byte_of_char (char_of_byte b) = b"
proof -
  have "unat b < 256" using unsigned_less [of b] by simp
  then have "of_nat (of_char (char_of (unat b) :: char)) = b" by simp
  then show ?thesis by (simp add: byte_of_char_def char_of_byte_def)
qed

lemma inj_byte_of_char: "inj byte_of_char"
  by (metis injI char_of_byte_of_char)

text \<open>\<open>asBytes\<close> and \<open>asString\<close> of CommonData.h: reinterpretation, no re-encoding.\<close>

definition asBytes :: "string \<Rightarrow> bytes" where
  "asBytes s = map byte_of_char s"

definition asString :: "bytes \<Rightarrow> string" where
  "asString b = map char_of_byte b"

lemma asString_asBytes [simp, codec_simps]: "asString (asBytes s) = s"
  by (simp add: asString_def asBytes_def comp_def)

lemma asBytes_asString [simp, codec_simps]: "asBytes (asString b) = b"
  by (simp add: asString_def asBytes_def comp_def)

lemma length_asBytes [simp]: "length (asBytes s) = length s"
  by (simp add: asBytes_def)

lemma length_asString [simp]: "length (asString s) = length s"
  by (simp add: asString_def)

lemma asString_inject [simp]: "asString a = asString b \<longleftrightarrow> a = b"
  by (metis asBytes_asString)

lemma asBytes_inject [simp]: "asBytes a = asBytes b \<longleftrightarrow> a = b"
  by (metis asString_asBytes)

lemma asString_Nil [simp]: "asString [] = []" and asBytes_Nil [simp]: "asBytes [] = []"
  by (simp_all add: asString_def asBytes_def)

section \<open>Exceptions and fallible computations\<close>

text \<open>
  One constructor per exception class the modelled code throws. \<open>AssertFailed\<close> is a failing
  \<open>assert\<close>, \<open>OutOfRange\<close> a \<open>std::out_of_range\<close> (\<open>map::at\<close>) or an access the C++ leaves
  undefined; \<open>JsonError\<close> a value of the wrong type read from a JSON document,
  \<open>Diverges\<close> a loop that does not return.
\<close>

datatype error =
    BadHexCharacter | BadRLP | BadCast | OversizeRLP | UndersizeRLP | RLPException
  | OutOfRange | AssertFailed | PasswordUnknown | CryptoException | InvalidState
  | JsonError | NullDeref | Diverges

type_synonym 'a result = "error + 'a"

definition rbind :: "'a result \<Rightarrow> ('a \<Rightarrow> 'b result) \<Rightarrow> 'b result" where
  "rbind r f = (case r of Inl e \<Rightarrow> Inl e | Inr x \<Rightarrow> f x)"

lemma rbind_Inl [simp]: "rbind (Inl e) f = Inl e"
  and rbind_Inr [simp]: "rbind (Inr x) f = f x"
  by (simp_all add: rbind_def)

lemma rbind_eq_Inr [result_simps]:
  "rbind r f = Inr y \<longleftrightarrow> (\<exists>x. r = Inr x \<and> f x = Inr y)"
  by (cases r) auto

lemma rbind_eq_Inl [result_simps]:
  "rbind r f = Inl e \<longleftrightarrow> r = Inl e \<or> (\<exists>x. r = Inr x \<and> f x = Inl e)"
  by (cases r) auto

lemma rbind_assoc: "rbind (rbind r f) g = rbind r (\<lambda>x. rbind (f x) g)"
  by (cases r) auto

lemma rbind_Inr_right [simp]: "rbind r Inr = r"
  by (cases r) auto

definition require :: "bool \<Rightarrow> error \<Rightarrow> unit result" where
  "require b e = (if b then Inr () else Inl e)"

lemma require_eq_Inr [simp, result_simps]: "require b e = Inr u \<longleftrightarrow> b"
  by (simp add: require_def)

lemma require_True [simp]: "require True e = Inr ()" and require_False [simp]: "require False e = Inl e"
  by (simp_all add: require_def)

section \<open>Bytes as numbers\<close>

lemma unat_byte_lt [simp]: "unat (b :: byte) < 256"
  using unsigned_less [of b] by simp

lemma unat_byte_le [simp]: "unat (b :: byte) \<le> 255"
  using unat_byte_lt [of b] by linarith

lemma unat_byte_of_nat [simp]: "n < 256 \<Longrightarrow> unat (of_nat n :: byte) = n"
  by (simp add: unat_of_nat)

lemma unat_byte_of_nat_mod: "unat (of_nat n :: byte) = n mod 256"
  by (simp add: unat_of_nat)

lemma byte_eq_0_iff: "(b :: byte) = 0 \<longleftrightarrow> unat b = 0"
  by (simp add: unat_eq_0)

text \<open>Value of a big-endian digit string in an arbitrary base.\<close>

definition digits_val :: "nat \<Rightarrow> nat list \<Rightarrow> nat" where
  "digits_val b ds = foldl (\<lambda>v d. v * b + d) 0 ds"

lemma digits_val_Nil [simp]: "digits_val b [] = 0"
  by (simp add: digits_val_def)

lemma digits_val_snoc [simp]: "digits_val b (ds @ [d]) = digits_val b ds * b + d"
  by (simp add: digits_val_def)

lemma digits_val_append: "digits_val b (xs @ ys) = digits_val b xs * b ^ length ys + digits_val b ys"
proof (induction ys rule: rev_induct)
  case Nil
  then show ?case by simp
next
  case (snoc y ys)
  have "digits_val b (xs @ ys @ [y]) = digits_val b (xs @ ys) * b + y"
    by (metis append.assoc digits_val_snoc)
  then show ?case by (simp add: snoc.IH algebra_simps)
qed

lemma digits_val_Cons: "digits_val b (d # ds) = d * b ^ length ds + digits_val b ds"
  using digits_val_append [of b "[d]" ds] by (simp add: digits_val_def)

lemma digits_val_zeros [simp]: "digits_val b (replicate n 0 @ ds) = digits_val b ds"
  by (induction n) (simp_all add: digits_val_Cons)

lemma digits_val_bound: "\<forall>d\<in>set ds. d < b \<Longrightarrow> digits_val b ds < b ^ length ds"
proof (induction ds)
  case Nil
  then show ?case by simp
next
  case (Cons d ds)
  then have "digits_val b ds < b ^ length ds" and "Suc d \<le> b" by auto
  then have "digits_val b (d # ds) < Suc d * b ^ length ds" by (simp add: digits_val_Cons)
  also have "\<dots> \<le> b * b ^ length ds" using \<open>Suc d \<le> b\<close> by (rule mult_le_mono1)
  finally show ?case by simp
qed

lemma digits_val_inject:
  assumes "length xs = length ys" "\<forall>d\<in>set xs. d < b" "\<forall>d\<in>set ys. d < b"
    and "digits_val b xs = digits_val b ys"
  shows "xs = ys"
  using assms
proof (induction xs ys rule: list_induct2)
  case Nil
  then show ?case by simp
next
  case (Cons x xs y ys)
  have lx: "digits_val b xs < b ^ length ys" and ly: "digits_val b ys < b ^ length ys"
    using Cons digits_val_bound [of xs b] digits_val_bound [of ys b] by auto
  have eq: "x * b ^ length ys + digits_val b xs = y * b ^ length ys + digits_val b ys"
    using Cons.prems(3) Cons.hyps by (simp add: digits_val_Cons)
  have "0 < b ^ length ys" using lx by linarith
  then have "(x * b ^ length ys + digits_val b xs) div b ^ length ys = x"
    and "(y * b ^ length ys + digits_val b ys) div b ^ length ys = y"
    using lx ly by (simp_all add: div_mult_self3)
  with eq have "x = y" by simp
  with eq Cons show ?case by simp
qed

text \<open>
  A digit string is determined by its value once its leading zero is excluded: this is what
  makes a positional encoding invertible.
\<close>

lemma digits_val_pos:
  assumes "ds \<noteq> []" "hd ds \<noteq> 0" "1 < b"
  shows "b ^ (length ds - 1) \<le> digits_val b ds"
proof -
  obtain d ds' where "ds = d # ds'" using assms(1) by (cases ds) auto
  moreover have "1 * b ^ length ds' \<le> d * b ^ length ds'"
    using assms(2) \<open>ds = d # ds'\<close> by (intro mult_le_mono1) simp
  then have "b ^ length ds' \<le> d * b ^ length ds' + digits_val b ds'" by linarith
  ultimately show ?thesis by (simp add: digits_val_Cons)
qed

lemma digits_val_unique:
  assumes "1 < b" "\<forall>d\<in>set xs. d < b" "\<forall>d\<in>set ys. d < b"
    and "xs \<noteq> [] \<Longrightarrow> hd xs \<noteq> 0" "ys \<noteq> [] \<Longrightarrow> hd ys \<noteq> 0"
    and "digits_val b xs = digits_val b ys"
  shows "xs = ys"
proof -
  have len: "length us \<le> length vs"
    if "\<forall>d\<in>set vs. d < b" "us \<noteq> [] \<Longrightarrow> hd us \<noteq> 0" "digits_val b us = digits_val b vs" for us vs
  proof (cases "us = []")
    case False
    then have "b ^ (length us - 1) \<le> digits_val b vs"
      using digits_val_pos [of us b] that assms(1) by simp
    also have "\<dots> < b ^ length vs" using digits_val_bound that(1) by blast
    finally have "length us - 1 < length vs"
      using assms(1) by (simp only: power_strict_increasing_iff)
    then show ?thesis by linarith
  qed simp
  have "length xs = length ys" using len [of ys xs] len [of xs ys] assms by auto
  then show ?thesis using assms by (intro digits_val_inject [of xs ys b]) auto
qed

section \<open>Lists\<close>

lemma hd_dropWhile_neq: "dropWhile (\<lambda>x. x = a) xs \<noteq> [] \<Longrightarrow> hd (dropWhile (\<lambda>x. x = a) xs) \<noteq> a"
  using hd_dropWhile [of "\<lambda>x. x = a" xs] by simp

lemma takeWhile_eq_replicate: "takeWhile (\<lambda>x. x = a) xs = replicate (length (takeWhile (\<lambda>x. x = a) xs)) a"
  by (induction xs) auto

lemma split_leading: "xs = replicate (length (takeWhile (\<lambda>x. x = a) xs)) a @ dropWhile (\<lambda>x. x = a) xs"
  by (metis takeWhile_dropWhile_id takeWhile_eq_replicate)

lemma length_le_concat: "x \<in> set xs \<Longrightarrow> length (f x) \<le> length (concat (map f xs))"
  by (induction xs) auto

section \<open>Association lists with distinct keys\<close>

text \<open>
  An \<open>std::unordered_map\<close> is a list of pairs with distinct keys, in the (unspecified) order
  in which the map iterates. \<open>al_put\<close> is \<open>m[k] = v\<close>, \<open>al_del\<close> is \<open>m.erase(k)\<close>.
\<close>

fun al_put :: "'k \<Rightarrow> 'v \<Rightarrow> ('k \<times> 'v) list \<Rightarrow> ('k \<times> 'v) list" where
  "al_put k v [] = [(k, v)]"
| "al_put k v ((k', v') # m) = (if k' = k then (k, v) # m else (k', v') # al_put k v m)"

definition al_del :: "'k \<Rightarrow> ('k \<times> 'v) list \<Rightarrow> ('k \<times> 'v) list" where
  "al_del k m = filter (\<lambda>p. fst p \<noteq> k) m"

abbreviation al_wf :: "('k \<times> 'v) list \<Rightarrow> bool" where
  "al_wf m \<equiv> distinct (map fst m)"

lemma map_of_al_put [simp]: "map_of (al_put k v m) = (map_of m)(k \<mapsto> v)"
  by (induction k v m rule: al_put.induct) auto

lemma map_of_al_del [simp]: "map_of (al_del k m) = (map_of m)(k := None)"
  unfolding al_del_def by (induction m) auto

lemma set_keys_al_put [simp]: "fst ` set (al_put k v m) = insert k (fst ` set m)"
  by (induction k v m rule: al_put.induct) auto

lemma set_keys_al_del [simp]: "fst ` set (al_del k m) = fst ` set m - {k}"
  by (auto simp: al_del_def)

lemma al_wf_put [simp]: "al_wf m \<Longrightarrow> al_wf (al_put k v m)"
proof (induction k v m rule: al_put.induct)
  case (2 k v k' v' m)
  moreover have "fst ` set (al_put k v m) = insert k (fst ` set m)" by simp
  ultimately show ?case by (auto simp del: set_keys_al_put)
qed simp

lemma al_wf_del [simp]: "al_wf m \<Longrightarrow> al_wf (al_del k m)"
  unfolding al_del_def by (induction m) (auto simp: image_iff)

end
