(* ===== verification/Hex_Codec.thy ===== *)
theory Hex_Codec
  imports Wallet_Prelude
begin

text \<open>
  CommonData.h and CommonData.cpp of libdevcore: hexadecimal text, nibbles, big-endian integers
  and the small list utilities. \<open>fromHex\<close> reads its argument by index; here the index is the
  remaining suffix of the string, and the read past the end that the parity of the length rules
  out is the value \<open>Inl OutOfRange\<close>, proved unreachable.
\<close>

section \<open>Hexadecimal text\<close>

definition fromHexChar :: "char \<Rightarrow> int" where
  "fromHexChar c =
     (let i = schar c in
      if schar (CHR ''0'') \<le> i \<and> i \<le> schar (CHR ''9'') then i - schar (CHR ''0'')
      else if schar (CHR ''a'') \<le> i \<and> i \<le> schar (CHR ''f'') then i - schar (CHR ''a'') + 10
      else if schar (CHR ''A'') \<le> i \<and> i \<le> schar (CHR ''F'') then i - schar (CHR ''A'') + 10
      else - 1)"

definition isHex :: "string \<Rightarrow> bool" where
  "isHex s =
     (let it = (if take 2 s = ''0x'' then drop 2 s else s)
      in list_all (\<lambda>c. fromHexChar c \<noteq> - 1) it)"

definition hexdigits :: string where
  "hexdigits = ''0123456789abcdef''"

definition toHex_pair :: "byte \<Rightarrow> string" where
  "toHex_pair b =
     [hexdigits ! unat (drop_bit 4 b AND 0x0f), hexdigits ! unat (b AND 0x0f)]"

definition toHex_prefix :: "bytes \<Rightarrow> string \<Rightarrow> string" where
  "toHex_prefix data prefix = prefix @ concat (map toHex_pair data)"

definition toHex :: "bytes \<Rightarrow> string" where
  "toHex data = toHex_prefix data ''''"

definition toHexPrefixed :: "bytes \<Rightarrow> string" where
  "toHexPrefixed data = toHex_prefix data ''0x''"

datatype WhenError = DontThrow | Throw

fun fromHex_loop :: "WhenError \<Rightarrow> bytes \<Rightarrow> string \<Rightarrow> bytes result" where
  "fromHex_loop w ret [] = Inr ret"
| "fromHex_loop w ret [c] = Inl OutOfRange"
| "fromHex_loop w ret (c1 # c2 # cs) =
     (let h = fromHexChar c1; l = fromHexChar c2 in
      if h \<noteq> - 1 \<and> l \<noteq> - 1 then fromHex_loop w (ret @ [of_int (h * 16 + l)]) cs
      else if w = Throw then Inl BadHexCharacter
      else Inr [])"

definition fromHex_when :: "string \<Rightarrow> WhenError \<Rightarrow> bytes result" where
  "fromHex_when s w =
     (let st = (if length s \<ge> 2 \<and> s ! 0 = CHR ''0'' \<and> s ! 1 = CHR ''x'' then 2 else 0 :: nat) in
      if odd (length s) then
        (let h = fromHexChar (s ! st) in
         if h \<noteq> - 1 then fromHex_loop w [of_int h] (drop (Suc st) s)
         else if w = Throw then Inl BadHexCharacter
         else Inr [])
      else fromHex_loop w [] (drop st s))"

text \<open>The default argument of the declaration is \<open>WhenError::DontThrow\<close>.\<close>

definition fromHex :: "string \<Rightarrow> bytes" where
  "fromHex s = (case fromHex_when s DontThrow of Inr b \<Rightarrow> b | Inl _ \<Rightarrow> [])"

definition prettyEscapes :: "char \<rightharpoonup> char" where
  "prettyEscapes = map_of [(CHR 0x0D, CHR ''r''), (CHR 0x0A, CHR ''n''), (CHR 0x09, CHR ''t''), (CHR 0x0B, CHR ''v'')]"

definition escaped_char :: "bool \<Rightarrow> char \<Rightarrow> string" where
  "escaped_char all i =
     (if i = CHR 0x22 \<and> \<not> all then [CHR 0x5C, CHR 0x22]
      else if i = CHR 0x5C \<and> \<not> all then [CHR 0x5C, CHR 0x5C]
      else if prettyEscapes i \<noteq> None \<and> \<not> all then [CHR 0x5C, the (prettyEscapes i)]
      else if schar i < schar (CHR '' '') \<or> all then
        [CHR 0x5C, CHR ''x'', hexdigits ! (unat (byte_of_char i) div 16),
         hexdigits ! (unat (byte_of_char i) mod 16)]
      else [i])"

definition escaped :: "string \<Rightarrow> bool \<Rightarrow> string" where
  "escaped s all = [CHR 0x22] @ concat (map (escaped_char all) s) @ [CHR 0x22]"

definition asNibbles :: "bytes \<Rightarrow> bytes" where
  "asNibbles s = concat (map (\<lambda>i. [i div 16, i mod 16]) s)"

section \<open>Big-endian integers\<close>

fun toBigEndian_loop :: "nat \<Rightarrow> nat \<Rightarrow> bytes \<Rightarrow> bytes" where
  "toBigEndian_loop 0 v out = out"
| "toBigEndian_loop (Suc i) v out = toBigEndian_loop i (v div 256) (out[i := of_nat (v mod 256)])"

definition toBigEndian :: "nat \<Rightarrow> bytes \<Rightarrow> bytes" where
  "toBigEndian v out = toBigEndian_loop (length out) v out"

text \<open>\<open>fromBigEndian\<close> for the unbounded \<open>bigint\<close> and for a fixed-width unsigned type.\<close>

definition fromBigEndian_big :: "bytes \<Rightarrow> nat" where
  "fromBigEndian_big bs = foldl (\<lambda>ret i. push_bit 8 ret OR unat i) 0 bs"

definition fromBigEndian :: "bytes \<Rightarrow> 'w::len word" where
  "fromBigEndian bs = foldl (\<lambda>ret i. push_bit 8 ret OR ucast i) 0 bs"

function bytesRequired :: "nat \<Rightarrow> nat" where
  "bytesRequired i = (if i \<noteq> 0 then Suc (bytesRequired (i div 256)) else 0)"
  by pat_completeness auto
termination by (relation "measure id") auto

declare bytesRequired.simps [simp del]

definition toCompactBigEndian :: "nat \<Rightarrow> nat \<Rightarrow> bytes" where
  "toCompactBigEndian v m = toBigEndian v (replicate (max m (bytesRequired v)) 0)"

definition toCompactBigEndian_byte :: "byte \<Rightarrow> nat \<Rightarrow> bytes" where
  "toCompactBigEndian_byte v m = (if m \<noteq> 0 \<or> v \<noteq> 0 then [v] else [])"

definition toCompactHex :: "nat \<Rightarrow> nat \<Rightarrow> string" where
  "toCompactHex v m = toHex (toCompactBigEndian v m)"

definition toCompactHexPrefixed :: "nat \<Rightarrow> nat \<Rightarrow> string" where
  "toCompactHexPrefixed v m = toHexPrefixed (toCompactBigEndian v m)"

section \<open>Lists\<close>

fun commonPrefix :: "'a list \<Rightarrow> 'a list \<Rightarrow> nat" where
  "commonPrefix (t # ts) (u # us) = (if t \<noteq> u then 0 else Suc (commonPrefix ts us))"
| "commonPrefix _ _ = 0"

definition contains :: "'a list \<Rightarrow> 'a \<Rightarrow> bool" where
  "contains t v = (find (\<lambda>x. x = v) t \<noteq> None)"

definition isHash :: "nat \<Rightarrow> string \<Rightarrow> bool" where
  "isHash sz h =
     ((length h = sz * 2 \<or> (length h = sz * 2 + 2 \<and> take 2 h = ''0x'')) \<and> isHex h)"

definition toString32 :: "string \<Rightarrow> string" where
  "toString32 s = takeWhile (\<lambda>c. c \<noteq> CHR 0x00) (take 32 s)"

section \<open>Round trips of the hexadecimal codec\<close>

lemma and_0x0f: "(c :: byte) AND 0x0f = take_bit 4 c"
proof -
  have "mask 4 = (0x0f :: byte)" by (simp add: mask_eq_exp_minus_1)
  then show ?thesis by (simp only: take_bit_eq_mask)
qed

lemma nibble_unat:
  "unat (drop_bit 4 (b :: byte) AND 0x0f) = unat b div 16"
  "unat ((b :: byte) AND 0x0f) = unat b mod 16"
proof -
  have "unat b div 16 < 16" using unat_byte_lt [of b] by (simp add: less_mult_imp_div_less)
  then show "unat (drop_bit 4 b AND 0x0f) = unat b div 16"
    unfolding and_0x0f unsigned_take_bit_eq unsigned_drop_bit_eq
    by (simp add: take_bit_eq_mod drop_bit_eq_div)
  show "unat (b AND 0x0f) = unat b mod 16"
    unfolding and_0x0f unsigned_take_bit_eq by (simp add: take_bit_eq_mod)
qed

lemma fromHexChar_hexdigits: "n < 16 \<Longrightarrow> fromHexChar (hexdigits ! n) = int n"
proof -
  have "list_all (\<lambda>n. fromHexChar (hexdigits ! n) = int n) [0..<16]" by code_simp
  then show "n < 16 \<Longrightarrow> fromHexChar (hexdigits ! n) = int n" by (simp add: list_all_iff)
qed

lemma hexdigit_neq_x: "n < 16 \<Longrightarrow> hexdigits ! n \<noteq> CHR ''x''"
proof -
  have "list_all (\<lambda>n. hexdigits ! n \<noteq> CHR ''x'') [0..<16]" by code_simp
  then show "n < 16 \<Longrightarrow> hexdigits ! n \<noteq> CHR ''x''" by (simp add: list_all_iff)
qed

lemma toHex_pair_eq:
  "toHex_pair b = [hexdigits ! (unat b div 16), hexdigits ! (unat b mod 16)]"
  by (simp only: toHex_pair_def nibble_unat(1)) (simp only: nibble_unat(2))

lemma nibbles_less [simp]: "unat (b :: byte) div 16 < 16" "unat (b :: byte) mod 16 < 16"
  using unat_byte_lt [of b] by (simp_all add: less_mult_imp_div_less)

lemma of_int_nibbles: "(of_int (int (unat b div 16) * 16 + int (unat b mod 16)) :: byte) = b"
proof -
  have "int (unat b div 16) * 16 + int (unat b mod 16) = int (unat b)"
    by (simp only: zdiv_int zmod_int of_nat_numeral div_mult_mod_eq)
  then have "(of_int (int (unat b div 16) * 16 + int (unat b mod 16)) :: byte) = of_int (int (unat b))"
    by simp
  then show ?thesis by simp
qed

lemma fromHex_loop_toHex:
  "fromHex_loop w ret (concat (map toHex_pair bs)) = Inr (ret @ bs)"
  by (induction bs arbitrary: ret)
     (simp_all add: toHex_pair_eq fromHexChar_hexdigits of_int_nibbles [simplified])

lemma length_toHex [simp]: "length (toHex bs) = 2 * length bs"
  unfolding toHex_def toHex_prefix_def by (induction bs) (auto simp: toHex_pair_def)

lemma toHex_no_prefix: "length (toHex bs) \<ge> 2 \<Longrightarrow> toHex bs ! 1 \<noteq> CHR ''x''"
  by (cases bs) (auto simp: toHex_def toHex_prefix_def toHex_pair_eq hexdigit_neq_x)

lemma fromHex_toHex':
  "fromHex_when (toHex bs) w = Inr bs \<and> fromHex_when (toHexPrefixed bs) w = Inr bs"
proof
  have st: "(if length (toHex bs) \<ge> 2 \<and> toHex bs ! 0 = CHR ''0'' \<and> toHex bs ! 1 = CHR ''x''
      then 2 else 0 :: nat) = 0"
    using toHex_no_prefix by auto
  have "fromHex_loop w [] (toHex bs) = Inr bs"
    by (simp add: toHex_def toHex_prefix_def fromHex_loop_toHex)
  then show "fromHex_when (toHex bs) w = Inr bs"
    unfolding fromHex_when_def st Let_def by simp
  show "fromHex_when (toHexPrefixed bs) w = Inr bs"
    using fromHex_loop_toHex [of w "[]" bs] length_toHex [of bs]
    by (simp add: fromHex_when_def toHexPrefixed_def toHex_prefix_def toHex_def)
qed

text \<open>Decoding inverts encoding: for every byte sequence, \<open>fromHex\<close> of the text that
\<open>toHex\<close> writes, with or without the \<open>0x\<close> prefix, returns the bytes, in both error modes.\<close>

theorem fromHex_toHex:
  "fromHex_when (toHex bs) w = Inr bs \<and> fromHex_when (toHexPrefixed bs) w = Inr bs"
  by (rule fromHex_toHex')

lemma fromHex_loop_iff:
  "even (length cs) \<Longrightarrow>
   (\<exists>b. fromHex_loop Throw ret cs = Inr b) \<longleftrightarrow> list_all (\<lambda>c. fromHexChar c \<noteq> - 1) cs"
  by (induction Throw ret cs rule: fromHex_loop.induct) (auto simp: Let_def)

lemma fromHex_loop_errors:
  "even (length cs) \<Longrightarrow> fromHex_loop w ret cs = Inl e \<Longrightarrow> e = BadHexCharacter \<and> w = Throw"
  by (induction w ret cs rule: fromHex_loop.induct) (auto simp: Let_def split: if_splits)

lemma fromHex_when_cases:
  obtains (odd) p c cs where "s = p @ c # cs" "p = [] \<or> p = ''0x''" "take 2 s = ''0x'' \<longleftrightarrow> p = ''0x''"
      "even (length cs)"
      "\<And>w. fromHex_when s w = (if fromHexChar c \<noteq> - 1 then fromHex_loop w [of_int (fromHexChar c)] cs
          else if w = Throw then Inl BadHexCharacter else Inr [])"
  | (even) p cs where "s = p @ cs" "p = [] \<or> p = ''0x''" "take 2 s = ''0x'' \<longleftrightarrow> p = ''0x''"
      "even (length cs)" "\<And>w. fromHex_when s w = fromHex_loop w [] cs"
proof -
  have pre: "length s \<ge> 2 \<and> s ! 0 = CHR ''0'' \<and> s ! 1 = CHR ''x'' \<longleftrightarrow> take 2 s = ''0x''"
    by (cases s; cases "tl s") (auto simp: numeral_2_eq_2)
  define p where "p = (if take 2 s = ''0x'' then ''0x'' else '''')"
  have "p = take (length p) s" by (auto simp: p_def numeral_2_eq_2)
  then have sp: "s = p @ drop (length p) s" by (metis append_take_drop_id)
  have pp: "p = [] \<or> p = ''0x''" and tp: "take 2 s = ''0x'' \<longleftrightarrow> p = ''0x''"
    by (simp_all add: p_def)
  have lp: "even (length p)" and st: "(if take 2 s = ''0x'' then 2 else 0 :: nat) = length p"
    by (simp_all add: p_def)
  show thesis
  proof (cases "odd (length s)")
    case True
    have "odd (length (drop (length p) s))" using True lp by (metis sp even_add length_append)
    then obtain c cs where d: "drop (length p) s = c # cs" "even (length cs)"
      by (cases "drop (length p) s") auto
    have sd: "s = p @ c # cs" using sp d(1) by simp
    have "s ! length p = c" "drop (Suc (length p)) s = cs"
      by (subst sd, simp)+
    then have "fromHex_when s w = (if fromHexChar c \<noteq> - 1 then fromHex_loop w [of_int (fromHexChar c)] cs
          else if w = Throw then Inl BadHexCharacter else Inr [])" for w
      using True unfolding fromHex_when_def Let_def pre st by simp
    then show thesis
      by (rule odd [OF sd pp tp d(2)])
  next
    case False
    then have "fromHex_when s w = fromHex_loop w [] (drop (length p) s)" for w
      unfolding fromHex_when_def Let_def pre st by simp
    moreover have "even (length (drop (length p) s))" using False lp by simp
    ultimately show thesis
      using even [OF sp pp tp] by blast
  qed
qed

lemma isHex_prefix: "isHex s \<longleftrightarrow> list_all (\<lambda>c. fromHexChar c \<noteq> - 1) (if take 2 s = ''0x'' then drop 2 s else s)"
  by (simp add: isHex_def Let_def)

lemma fromHex_iff_isHex': "(\<exists>b. fromHex_when s Throw = Inr b) \<longleftrightarrow> isHex s"
proof (cases s rule: fromHex_when_cases)
  case (odd p c cs)
  then have "isHex s \<longleftrightarrow> list_all (\<lambda>c. fromHexChar c \<noteq> - 1) (c # cs)"
    unfolding isHex_prefix by auto
  with odd fromHex_loop_iff [of cs] show ?thesis by simp
next
  case (even p cs)
  then have "isHex s \<longleftrightarrow> list_all (\<lambda>c. fromHexChar c \<noteq> - 1) cs"
    unfolding isHex_prefix by auto
  with even fromHex_loop_iff [of cs] show ?thesis by simp
qed

text \<open>In throwing mode \<open>fromHex\<close> succeeds exactly on the strings that \<open>isHex\<close> accepts, odd
lengths and the \<open>0x\<close> prefix included.\<close>

theorem fromHex_iff_isHex: "(\<exists>b. fromHex_when s Throw = Inr b) \<longleftrightarrow> isHex s"
  by (rule fromHex_iff_isHex')

text \<open>\<open>fromHex\<close> never reads outside its argument, throws nothing but \<open>BadHexCharacter\<close>, and
in the non-throwing mode always returns.\<close>

theorem fromHex_errors:
  "fromHex_when s w = Inl e \<Longrightarrow> e = BadHexCharacter \<and> w = Throw"
  by (cases s rule: fromHex_when_cases)
     (auto dest: fromHex_loop_errors split: if_splits)

theorem fromHex_errors_witness:
  "fromHex_when ''0xg1'' Throw = Inl BadHexCharacter \<and> BadHexCharacter = BadHexCharacter \<and> Throw = Throw"
proof -
  have "fromHex_when ''0xg1'' Throw = Inl BadHexCharacter" by code_simp
  with fromHex_errors [OF this] show ?thesis by simp
qed

section \<open>Big-endian integers\<close>

lemma push_OR_byte: "push_bit 8 (r :: nat) OR unat (b :: byte) = r * 256 + unat b"
proof -
  have "push_bit 8 r AND unat b = 0"
    by (rule bit_eqI) (auto simp: bit_and_iff bit_push_bit_iff bit_unsigned_iff dest: bit_imp_le_length)
  then have "push_bit 8 r OR unat b = push_bit 8 r + unat b"
    by (rule disjunctive_add_eq_or [symmetric])
  then show ?thesis by (simp add: push_bit_eq_mult)
qed

lemma fromBigEndian_big_eq: "fromBigEndian_big bs = digits_val 256 (map unat bs)"
  unfolding fromBigEndian_big_def digits_val_def foldl_map push_OR_byte ..

lemma fromBigEndian_big_snoc: "fromBigEndian_big (bs @ [b]) = fromBigEndian_big bs * 256 + unat b"
  by (simp add: fromBigEndian_big_eq)

lemma push_OR_word: "push_bit 8 (r :: 'w::len word) OR ucast (b :: byte) = r * 256 + ucast b"
proof -
  have "push_bit 8 r AND ucast b = 0"
    by (rule bit_eqI) (auto simp: bit_and_iff bit_push_bit_iff bit_unsigned_iff dest: bit_imp_le_length)
  then have "push_bit 8 r OR ucast b = push_bit 8 r + ucast b"
    by (rule disjunctive_add_eq_or [symmetric])
  then show ?thesis by (simp add: push_bit_eq_mult)
qed

lemma fromBigEndian_word: "(fromBigEndian bs :: 'w::len word) = of_nat (fromBigEndian_big bs)"
proof (induction bs rule: rev_induct)
  case Nil
  then show ?case by (simp add: fromBigEndian_def fromBigEndian_big_def)
next
  case (snoc b bs)
  have "(fromBigEndian (bs @ [b]) :: 'w word) = fromBigEndian bs * 256 + ucast b"
    by (simp add: fromBigEndian_def push_OR_word)
  then show ?case by (simp add: snoc.IH fromBigEndian_big_snoc unsigned_ucast_eq)
qed

lemma toBigEndian_loop_eq:
  "i \<le> length out \<Longrightarrow> length (toBigEndian_loop i v out) = length out
     \<and> drop i (toBigEndian_loop i v out) = drop i out
     \<and> fromBigEndian_big (take i (toBigEndian_loop i v out)) = v mod 256 ^ i"
proof (induction i v out rule: toBigEndian_loop.induct)
  case (1 v out)
  then show ?case by (simp add: fromBigEndian_big_def)
next
  case (2 i v out)
  let ?o = "out[i := of_nat (v mod 256)]"
  let ?r = "toBigEndian_loop i (v div 256) ?o"
  from 2 have IH: "length ?r = length out" "drop i ?r = drop i ?o"
      "fromBigEndian_big (take i ?r) = (v div 256) mod 256 ^ i" by auto
  have ri: "?r ! i = of_nat (v mod 256)"
    using IH(1,2) 2 by (metis Cons_nth_drop_Suc Suc_le_lessD length_list_update list.inject nth_list_update_eq)
  have "take (Suc i) ?r = take i ?r @ [of_nat (v mod 256)]"
    using IH(1) 2(2) ri by (simp add: take_Suc_conv_app_nth)
  then have "fromBigEndian_big (take (Suc i) ?r) = (v div 256) mod 256 ^ i * 256 + v mod 256"
    by (simp add: fromBigEndian_big_snoc IH(3) unat_of_nat)
  also have "\<dots> = v mod 256 ^ Suc i"
    by (metis mod_mult2_eq mult.commute power_Suc add.commute)
  finally have val: "fromBigEndian_big (take (Suc i) ?r) = v mod 256 ^ Suc i" .
  have "drop (Suc i) ?r = drop (Suc i) out"
    using IH(2) by (metis drop_Suc drop_tl drop_update_cancel lessI tl_drop)
  with IH val show ?case by simp
qed

lemma length_toBigEndian [simp]: "length (toBigEndian v out) = length out"
  by (simp add: toBigEndian_def toBigEndian_loop_eq)

lemma fromBigEndian_toBigEndian: "fromBigEndian_big (toBigEndian v out) = v mod 256 ^ length out"
  unfolding toBigEndian_def
  by (metis le_refl take_all toBigEndian_loop_eq)

lemma bytesRequired_0 [simp]: "bytesRequired 0 = 0"
  by (simp add: bytesRequired.simps)

lemma bytesRequired_le_iff: "bytesRequired v \<le> n \<longleftrightarrow> v < 256 ^ n"
proof (induction v arbitrary: n rule: bytesRequired.induct)
  case (1 v)
  show ?case
  proof (cases "v = 0 \<or> n = 0")
    case True
    then show ?thesis by (auto simp: bytesRequired.simps [of v])
  next
    case False
    then obtain m where n: "n = Suc m" by (cases n) auto
    with False have "bytesRequired v \<le> n \<longleftrightarrow> bytesRequired (v div 256) \<le> m"
      by (simp add: bytesRequired.simps [of v])
    also have "\<dots> \<longleftrightarrow> v div 256 < 256 ^ m" using False by (simp add: "1.IH")
    also have "\<dots> \<longleftrightarrow> v < 256 ^ n" by (simp add: n div_less_iff_less_mult mult.commute)
    finally show ?thesis .
  qed
qed

text \<open>\<open>bytesRequired\<close> is the least number of bytes that can hold the value.\<close>

theorem bytesRequired_least: "bytesRequired v \<le> n \<longleftrightarrow> v < 256 ^ n"
  by (rule bytesRequired_le_iff)

lemma less_power_bytesRequired: "v < 256 ^ max m (bytesRequired v)"
proof -
  have "bytesRequired v \<le> max m (bytesRequired v)" by simp
  moreover have "k \<le> n \<Longrightarrow> v < 256 ^ k \<Longrightarrow> v < 256 ^ n" for k n :: nat
    by (meson less_le_trans one_le_numeral power_increasing)
  moreover have "v < 256 ^ bytesRequired v"
  proof (induction v rule: bytesRequired.induct)
    case (1 v)
    show ?case
    proof (cases "v = 0")
      case False
      with 1 have "v div 256 < 256 ^ bytesRequired (v div 256)" by simp
      with False show ?thesis
        by (simp add: bytesRequired.simps [of v] div_less_iff_less_mult mult.commute)
    qed simp
  qed
  ultimately show ?thesis by blast
qed

lemma toCompactBigEndian_roundtrip':
  "fromBigEndian_big (toCompactBigEndian v m) = v"
  "length (toCompactBigEndian v m) = max m (bytesRequired v)"
  using less_power_bytesRequired [of v m]
  by (simp_all add: toCompactBigEndian_def fromBigEndian_toBigEndian)

text \<open>A compact big-endian encoding reads back as its value, whatever the minimum length,
both as a \<open>bigint\<close> and (modulo the width) as a fixed-width unsigned integer.\<close>

theorem toCompactBigEndian_roundtrip:
  "fromBigEndian_big (toCompactBigEndian v m) = v
   \<and> (fromBigEndian (toCompactBigEndian v m) :: 'w::len word) = of_nat v
   \<and> length (toCompactBigEndian v m) = max m (bytesRequired v)"
  by (simp add: toCompactBigEndian_roundtrip' fromBigEndian_word)

end
