(* ===== verification/Rlp_Stream.thy ===== *)
theory Rlp_Stream
  imports Hex_Codec
begin

text \<open>
  RLPStream of libdevcore/RLP.h and RLP.cpp: the writer of the recursive length prefix format in
  which the key file is stored. The stream keeps its output and a stack of open lists, each with
  the number of items still missing and the position at which it began; appending the last item of
  a list inserts the list's header at that position, in place, and counts as one item of the
  enclosing list. \<open>size_t\<close> is 64 bits wide; sizes are natural numbers below \<open>2^64\<close>. The vector's
  back is the head of the model's stack.
\<close>

section \<open>Constants\<close>

definition c_rlpMaxLengthBytes :: nat where "c_rlpMaxLengthBytes = 8"
definition c_rlpDataImmLenStart :: nat where "c_rlpDataImmLenStart = 0x80"
definition c_rlpListStart :: nat where "c_rlpListStart = 0xc0"
definition c_rlpDataImmLenCount :: nat where
  "c_rlpDataImmLenCount = c_rlpListStart - c_rlpDataImmLenStart - c_rlpMaxLengthBytes"
definition c_rlpDataIndLenZero :: nat where
  "c_rlpDataIndLenZero = c_rlpDataImmLenStart + c_rlpDataImmLenCount - 1"
definition c_rlpListImmLenCount :: nat where
  "c_rlpListImmLenCount = 256 - c_rlpListStart - c_rlpMaxLengthBytes"
definition c_rlpListIndLenZero :: nat where
  "c_rlpListIndLenZero = c_rlpListStart + c_rlpListImmLenCount - 1"

lemmas rlp_consts = c_rlpMaxLengthBytes_def c_rlpDataImmLenStart_def c_rlpListStart_def
  c_rlpDataImmLenCount_def c_rlpDataIndLenZero_def c_rlpListImmLenCount_def c_rlpListIndLenZero_def

section \<open>The stream\<close>

record rlp_stream =
  m_out :: bytes
  m_listStack :: "(nat \<times> nat) list"

definition empty_stream :: rlp_stream where
  "empty_stream = \<lparr>m_out = [], m_listStack = []\<rparr>"

text \<open>\<open>for (; i; i >>= 8) *(b--) = (byte) i;\<close> on the output, and \<open>pushInt\<close>.\<close>

function write_back :: "bytes \<Rightarrow> nat \<Rightarrow> nat \<Rightarrow> bytes" where
  "write_back out b i = (if i \<noteq> 0 then write_back (out[b := of_nat i]) (b - 1) (i div 256) else out)"
  by pat_completeness auto
termination by (relation "measure (\<lambda>(out, b, i). i)") auto

declare write_back.simps [simp del]

definition pushInt :: "nat \<Rightarrow> nat \<Rightarrow> bytes \<Rightarrow> bytes" where
  "pushInt i br out =
     (let out = out @ replicate br 0 in write_back out (length out - 1) i)"

definition pushCount :: "nat \<Rightarrow> nat \<Rightarrow> bytes \<Rightarrow> bytes result" where
  "pushCount count base out =
     (let br = bytesRequired count in
      if br + base > 0xff then Inl RLPException
      else Inr (pushInt count br (out @ [of_nat (br + base)])))"

text \<open>Closing a list: make room for the header with \<open>resize\<close> and \<open>memmove\<close>, then write it.\<close>

definition memmove :: "bytes \<Rightarrow> nat \<Rightarrow> nat \<Rightarrow> nat \<Rightarrow> bytes" where
  "memmove buf dst src n = take dst buf @ take n (drop src buf) @ drop (dst + n) buf"

definition close_list :: "nat \<Rightarrow> bytes \<Rightarrow> bytes result" where
  "close_list p out =
     (let s = length out - p;
          brs = bytesRequired s;
          encodeSize = (if s < c_rlpListImmLenCount then 1 else 1 + brs);
          os = length out;
          out = out @ replicate encodeSize 0;
          out = memmove out (p + encodeSize) p (os - p)
      in if s < c_rlpListImmLenCount then Inr (out[p := of_nat (c_rlpListStart + s)])
         else if c_rlpListIndLenZero + brs \<le> 0xff then
           (let out = out[p := of_nat (c_rlpListIndLenZero + brs)]
            in Inr (write_back out (p + brs) s))
         else Inl RLPException)"

fun note_loop :: "(nat \<times> nat) list \<Rightarrow> nat \<Rightarrow> bytes \<Rightarrow> ((nat \<times> nat) list \<times> bytes) result" where
  "note_loop [] itemCount out = Inr ([], out)"
| "note_loop ((c, p) # stack) itemCount out =
     (if c < itemCount then Inl RLPException
      else if c - itemCount \<noteq> 0 then Inr ((c - itemCount, p) # stack, out)
      else rbind (close_list p out) (note_loop stack 1))"

definition noteAppended :: "nat \<Rightarrow> rlp_stream \<Rightarrow> rlp_stream result" where
  "noteAppended itemCount s =
     (if itemCount = 0 then Inr s
      else rbind (note_loop (m_listStack s) itemCount (m_out s))
        (\<lambda>(stack, out). Inr (s\<lparr>m_out := out, m_listStack := stack\<rparr>)))"

definition appendRaw :: "bytes \<Rightarrow> nat \<Rightarrow> rlp_stream \<Rightarrow> rlp_stream result" where
  "appendRaw raw itemCount s = noteAppended itemCount (s\<lparr>m_out := m_out s @ raw\<rparr>)"

definition appendList_raw :: "bytes \<Rightarrow> rlp_stream \<Rightarrow> rlp_stream result" where
  "appendList_raw raw s =
     rbind (if length raw < c_rlpListImmLenCount
            then Inr (m_out s @ [of_nat (length raw + c_rlpListStart)])
            else pushCount (length raw) c_rlpListIndLenZero (m_out s))
       (\<lambda>out. appendRaw raw 1 (s\<lparr>m_out := out\<rparr>))"

definition appendList :: "nat \<Rightarrow> rlp_stream \<Rightarrow> rlp_stream result" where
  "appendList items s =
     (if items \<noteq> 0 then Inr (s\<lparr>m_listStack := (items, length (m_out s)) # m_listStack s\<rparr>)
      else appendList_raw [] s)"

definition append_bytes :: "bytes \<Rightarrow> bool \<Rightarrow> rlp_stream \<Rightarrow> rlp_stream result" where
  "append_bytes str compact s =
     (let d = (if compact then dropWhile (\<lambda>b. b = 0) str else str) in
      rbind
        (if length d = 1 \<and> unat (hd d) < c_rlpDataImmLenStart
         then Inr (s\<lparr>m_out := m_out s @ [hd d]\<rparr>)
         else
           rbind (if length d < c_rlpDataImmLenCount
                  then Inr (m_out s @ [of_nat (length d + c_rlpDataImmLenStart)])
                  else pushCount (length d) c_rlpDataIndLenZero (m_out s))
             (\<lambda>out. appendRaw d 0 (s\<lparr>m_out := out\<rparr>)))
        (noteAppended 1))"

definition append_bigint :: "nat \<Rightarrow> rlp_stream \<Rightarrow> rlp_stream result" where
  "append_bigint i s =
     rbind
       (if i = 0 then Inr (m_out s @ [of_nat c_rlpDataImmLenStart])
        else if i < c_rlpDataImmLenStart then Inr (m_out s @ [of_nat i])
        else
          (let br = bytesRequired i in
           rbind (if br < c_rlpDataImmLenCount
                  then Inr (m_out s @ [of_nat (br + c_rlpDataImmLenStart)])
                  else
                    (let brbr = bytesRequired br in
                     if c_rlpDataIndLenZero + brbr > 0xff then Inl RLPException
                     else Inr (pushInt br brbr (m_out s @ [of_nat (c_rlpDataIndLenZero + brbr)]))))
             (\<lambda>out. Inr (pushInt i br out))))
       (\<lambda>out. noteAppended 1 (s\<lparr>m_out := out\<rparr>))"

definition stream_out :: "rlp_stream \<Rightarrow> bytes result" where
  "stream_out s = (if m_listStack s \<noteq> [] then Inl RLPException else Inr (m_out s))"

text \<open>\<open>clear\<close>, and \<open>swapOut\<close>, which exchanges the finished output for other bytes.\<close>

definition clear_stream :: "rlp_stream \<Rightarrow> rlp_stream" where
  "clear_stream s = s\<lparr>m_out := [], m_listStack := []\<rparr>"

definition swapOut :: "bytes \<Rightarrow> rlp_stream \<Rightarrow> (rlp_stream \<times> bytes) result" where
  "swapOut dest s =
     (if m_listStack s \<noteq> [] then Inl RLPException else Inr (s\<lparr>m_out := dest\<rparr>, m_out s))"

text \<open>
  \<open>append\<close> of nested containers (\<open>appendVector\<close> and its kin): a list header with the number of
  elements, then the elements. \<open>rlp_item\<close> is the value such calls describe.
\<close>

datatype rlp_item = Data bytes | RList "rlp_item list"

fun append_item :: "rlp_item \<Rightarrow> rlp_stream \<Rightarrow> rlp_stream result"
  and append_items :: "rlp_item list \<Rightarrow> rlp_stream \<Rightarrow> rlp_stream result" where
  "append_item (Data d) s = append_bytes d False s"
| "append_item (RList xs) s = rbind (appendList (length xs) s) (append_items xs)"
| "append_items [] s = Inr s"
| "append_items (x # xs) s = rbind (append_item x s) (append_items xs)"

section \<open>The format\<close>

text \<open>The reference encoding, and the size below which every length fits the header.\<close>

definition rlp_header :: "nat \<Rightarrow> nat \<Rightarrow> bytes" where
  "rlp_header start n =
     (if n < 56 then [of_nat (start + n)]
      else of_nat (start + 55 + bytesRequired n) # toCompactBigEndian n 0)"

fun rlp_enc :: "rlp_item \<Rightarrow> bytes" where
  "rlp_enc (Data d) =
     (if length d = 1 \<and> unat (hd d) < 0x80 then d else rlp_header 0x80 (length d) @ d)"
| "rlp_enc (RList xs) =
     (let body = concat (map rlp_enc xs) in rlp_header 0xc0 (length body) @ body)"

definition fits64 :: "bytes \<Rightarrow> bool" where
  "fits64 b \<longleftrightarrow> length b < 256 ^ 8"

section \<open>The header written backwards is the big-endian length\<close>

lemma write_back_0 [simp]: "write_back out b 0 = out"
  by (simp add: write_back.simps)

lemma fromBigEndian_inject:
  "length xs = length ys \<Longrightarrow> fromBigEndian_big xs = fromBigEndian_big ys \<Longrightarrow> xs = ys"
proof -
  assume "length xs = length ys" "fromBigEndian_big xs = fromBigEndian_big ys"
  then have "map unat xs = map unat ys"
    by (intro digits_val_inject [where b = 256]) (auto simp: fromBigEndian_big_eq)
  moreover have "inj (unat :: byte \<Rightarrow> nat)" by (simp add: inj_def word_unat_eq_iff)
  ultimately show "xs = ys" by (simp add: inj_map_eq_map)
qed

lemma compact_div: "i \<noteq> 0 \<Longrightarrow> toCompactBigEndian i 0 = toCompactBigEndian (i div 256) 0 @ [of_nat i]"
  by (rule fromBigEndian_inject)
     (simp_all add: toCompactBigEndian_roundtrip' fromBigEndian_big_snoc unat_of_nat bytesRequired.simps [of i])

lemma write_back_eq:
  "length mid = bytesRequired i \<Longrightarrow> i \<noteq> 0 \<Longrightarrow>
   write_back (pre @ mid @ post) (length pre + bytesRequired i - 1) i
     = pre @ toCompactBigEndian i 0 @ post"
proof (induction i arbitrary: mid post rule: bytesRequired.induct)
  case (1 i)
  then have br: "bytesRequired i = Suc (bytesRequired (i div 256))"
    by (simp add: bytesRequired.simps [of i])
  with "1.prems" obtain mid' m where mid: "mid = mid' @ [m]" "length mid' = bytesRequired (i div 256)"
    by (cases mid rule: rev_cases) auto
  have "(pre @ mid @ post)[length pre + bytesRequired i - 1 := of_nat i] = pre @ mid' @ (of_nat i # post)"
    using mid br by (simp add: list_update_append)
  then have "write_back (pre @ mid @ post) (length pre + bytesRequired i - 1) i
      = write_back (pre @ mid' @ (of_nat i # post)) (length pre + bytesRequired (i div 256) - 1) (i div 256)"
    using "1.prems" br by (subst write_back.simps) simp
  also have "\<dots> = pre @ toCompactBigEndian (i div 256) 0 @ (of_nat i # post)"
  proof (cases "i div 256 = 0")
    case True
    then have "mid' = []" using mid by simp
    moreover have "length (toCompactBigEndian 0 0) = 0" by (simp add: toCompactBigEndian_roundtrip')
    ultimately show ?thesis unfolding True by simp
  next
    case False
    then show ?thesis using "1.IH" "1.prems" mid by simp
  qed
  also have "\<dots> = pre @ toCompactBigEndian i 0 @ post"
    using "1.prems" by (simp add: compact_div [of i])
  finally show ?case .
qed

lemma length_compact [simp]: "length (toCompactBigEndian n 0) = bytesRequired n"
  by (simp add: toCompactBigEndian_roundtrip')

lemma bytesRequired_pos: "n \<noteq> 0 \<Longrightarrow> 0 < bytesRequired n"
  by (simp add: bytesRequired.simps [of n])

lemma toCompactBigEndian_0 [simp]: "toCompactBigEndian 0 0 = []"
  by (simp add: toCompactBigEndian_def toBigEndian_def)

lemma pushInt_eq: "pushInt i (bytesRequired i) out = out @ toCompactBigEndian i 0"
proof (cases "i = 0")
  case True
  then show ?thesis by (simp add: pushInt_def)
next
  case False
  then show ?thesis
    using write_back_eq [of "replicate (bytesRequired i) 0" i out "[]"]
    by (simp add: pushInt_def Let_def)
qed

lemma fits64_bytesRequired: "fits64 b \<Longrightarrow> bytesRequired (length b) \<le> 8"
  by (simp add: fits64_def bytesRequired_le_iff)

lemma fits64_append: "fits64 (a @ b) \<Longrightarrow> fits64 a \<and> fits64 b"
  by (simp add: fits64_def)

lemma pushCount_eq:
  "fits64 d \<Longrightarrow> 56 \<le> length d \<Longrightarrow> base \<le> 247 \<Longrightarrow>
   pushCount (length d) base out = Inr (out @ of_nat (base + bytesRequired (length d))
      # toCompactBigEndian (length d) 0)"
  using fits64_bytesRequired [of d] by (simp add: pushCount_def pushInt_eq add.commute)

lemma close_list_eq:
  assumes "fits64 body"
  shows "close_list (length pre) (pre @ body) = Inr (pre @ rlp_header 0xc0 (length body) @ body)"
proof -
  let ?s = "length body"
  have mv: "memmove ((pre @ body) @ replicate e 0) (length pre + e) (length pre) ?s
      = pre @ take e (body @ replicate e 0) @ body" for e
    by (simp add: memmove_def)
  show ?thesis
  proof (cases "?s < 56")
    case True
    then have "(pre @ take 1 (body @ [0]) @ body)[length pre := of_nat (0xc0 + ?s)]
        = pre @ of_nat (0xc0 + ?s) # body"
      by (cases body) (simp_all add: list_update_append)
    then show ?thesis using True mv [of 1]
      by (simp add: close_list_def rlp_consts rlp_header_def Let_def)
  next
    case False
    let ?brs = "bytesRequired ?s"
    have "length (take (Suc ?brs) (body @ replicate (Suc ?brs) 0)) = Suc ?brs" by simp
    then obtain x xs where sp: "take (Suc ?brs) (body @ replicate (Suc ?brs) 0) = x # xs" "length xs = ?brs"
      by (meson length_Suc_conv)
    have "(pre @ (x # xs) @ body)[length pre := of_nat (247 + ?brs)] = pre @ (of_nat (247 + ?brs) # xs) @ body"
      by (simp add: list_update_append)
    moreover have "write_back ((pre @ [of_nat (247 + ?brs)]) @ xs @ body) (length (pre @ [of_nat (247 + ?brs) :: byte]) + ?brs - 1) ?s
        = (pre @ [of_nat (247 + ?brs)]) @ toCompactBigEndian ?s 0 @ body"
      using False sp(2) by (intro write_back_eq) auto
    ultimately show ?thesis
      using False mv [of "Suc ?brs"] sp(1) fits64_bytesRequired [OF assms]
      by (simp add: close_list_def rlp_consts rlp_header_def Let_def)
  qed
qed

lemma append_items_Nil [simp]: "append_items [] = Inr"
  by (rule ext) simp

section \<open>Appending an item\<close>

text \<open>
  \<open>complete b s\<close>: the stream after the bytes \<open>b\<close> of one complete item, with the lists that this
  item completes closed.
\<close>

definition complete :: "bytes \<Rightarrow> rlp_stream \<Rightarrow> rlp_stream result" where
  "complete b s = noteAppended 1 (s\<lparr>m_out := m_out s @ b\<rparr>)"

lemma note_0 [simp]: "noteAppended 0 s = Inr s"
  by (simp add: noteAppended_def)

lemma unat_lt_128: "unat (b :: byte) < 128 \<Longrightarrow> (of_nat (unat b) :: byte) = b"
  by simp

lemma append_bytes_eq:
  "fits64 d \<Longrightarrow> append_bytes d False s = complete (rlp_enc (Data d)) s"
proof (cases "length d = 1 \<and> unat (hd d) < 128")
  case True
  then obtain x where "d = [x]" by (auto simp: length_Suc_conv)
  then show ?thesis using True by (simp add: append_bytes_def complete_def rlp_consts)
next
  case False
  assume "fits64 d"
  with False show ?thesis
    by (auto simp: append_bytes_def complete_def appendRaw_def rlp_consts rlp_header_def
        pushCount_eq add.commute)
qed

lemma appendList_raw_eq:
  "fits64 raw \<Longrightarrow> appendList_raw raw s = complete (rlp_header 0xc0 (length raw) @ raw) s"
  by (auto simp: appendList_raw_def complete_def appendRaw_def rlp_consts rlp_header_def
        pushCount_eq add.commute)

lemma append_bigint_eq:
  assumes "i < 256 ^ 55"
  shows "append_bigint i s = complete (rlp_enc (Data (toCompactBigEndian i 0))) s"
proof -
  have br: "bytesRequired i \<le> 55" using assms by (simp only: bytesRequired_le_iff)
  show ?thesis
  proof (cases "i < 128")
    case True
    have "bytesRequired i = (if i = 0 then 0 else 1)" using True
      by (simp add: bytesRequired.simps [of i])
    moreover have "i \<noteq> 0 \<Longrightarrow> toCompactBigEndian i 0 = [of_nat i]"
      using True by (simp add: compact_div)
    ultimately show ?thesis using True
      by (auto simp: append_bigint_def complete_def rlp_consts rlp_header_def)
  next
    case False
    have "\<not> (bytesRequired i = 1 \<and> unat (hd (toCompactBigEndian i 0)) < 128)"
    proof
      assume a: "bytesRequired i = 1 \<and> unat (hd (toCompactBigEndian i 0)) < 128"
      then obtain x where x: "toCompactBigEndian i 0 = [x]"
        by (metis length_compact length_0_conv length_Suc_conv One_nat_def)
      then have "i = unat x"
        using toCompactBigEndian_roundtrip'(1) [of i 0] by (simp add: fromBigEndian_big_eq digits_val_def)
      with a x False show False by simp
    qed
    then show ?thesis using False br
      by (auto simp: append_bigint_def complete_def rlp_consts rlp_header_def pushInt_eq add.commute)
  qed
qed

lemma note_loop_step:
  "1 < c \<Longrightarrow> noteAppended 1 (s\<lparr>m_listStack := (c, p) # st\<rparr>) = Inr (s\<lparr>m_listStack := (c - 1, p) # st\<rparr>)"
  by (simp add: noteAppended_def)

lemma note_loop_close:
  "fits64 body \<Longrightarrow>
   noteAppended 1 (s\<lparr>m_out := pre @ body, m_listStack := (1, length pre) # st\<rparr>)
     = complete (rlp_header 0xc0 (length body) @ body) (s\<lparr>m_out := pre, m_listStack := st\<rparr>)"
  by (simp add: noteAppended_def complete_def close_list_eq)

text \<open>
  The items of an open list: as long as more items are missing only the counter changes, the last
  one closes the list.
\<close>

lemma append_items_eq:
  assumes "\<And>x s. x \<in> set xs \<Longrightarrow> append_item x s = complete (rlp_enc x) s"
    and "xs \<noteq> []" "fits64 (body @ concat (map rlp_enc xs))"
  shows "append_items xs (s\<lparr>m_out := pre @ body, m_listStack := (length xs, length pre) # st\<rparr>)
    = (let b = body @ concat (map rlp_enc xs)
       in complete (rlp_header 0xc0 (length b) @ b) (s\<lparr>m_out := pre, m_listStack := st\<rparr>))"
  using assms
proof (induction xs arbitrary: body)
  case (Cons x xs)
  let ?s = "s\<lparr>m_out := pre @ body, m_listStack := (length (x # xs), length pre) # st\<rparr>"
  have first: "append_item x ?s = complete (rlp_enc x) ?s" by (rule Cons.prems(1)) simp
  show ?case
  proof (cases "xs = []")
    case True
    then have "append_items (x # xs) ?s = complete (rlp_enc x) ?s" using first by simp
    also have "\<dots> = noteAppended 1 (s\<lparr>m_out := pre @ (body @ rlp_enc x), m_listStack := (1, length pre) # st\<rparr>)"
      using True by (cases s) (simp add: complete_def)
    also have "\<dots> = complete (rlp_header 0xc0 (length (body @ rlp_enc x)) @ body @ rlp_enc x)
        (s\<lparr>m_out := pre, m_listStack := st\<rparr>)"
      using Cons.prems(3) True by (subst note_loop_close) simp_all
    finally show ?thesis using True by (simp only: Let_def list.map concat.simps append_Nil2)
  next
    case False
    have "complete (rlp_enc x) ?s
        = Inr (s\<lparr>m_out := pre @ (body @ rlp_enc x), m_listStack := (length xs, length pre) # st\<rparr>)"
      using False note_loop_step [where c = "length (x # xs)" and s = "s\<lparr>m_out := pre @ body @ rlp_enc x\<rparr>"
          and p = "length pre" and st = st]
      by (cases s) (simp add: complete_def)
    moreover have "fits64 ((body @ rlp_enc x) @ concat (map rlp_enc xs))" using Cons.prems(3) by simp
    ultimately show ?thesis
      using Cons.IH [of "body @ rlp_enc x"] Cons.prems(1) False first by (simp add: Let_def)
  qed
qed simp


lemma append_item_complete:
  "fits64 (rlp_enc t) \<Longrightarrow> append_item t s = complete (rlp_enc t) s"
proof (induction t arbitrary: s)
  case (Data d)
  have "length d \<le> length (rlp_enc (Data d))" by simp
  with Data have "fits64 d" by (simp add: fits64_def)
  then show ?case by (simp add: append_bytes_eq del: rlp_enc.simps)
next
  case (RList xs)
  let ?b = "concat (map rlp_enc xs)"
  have fit: "fits64 ?b"
    using RList.prems fits64_append [of "rlp_header 0xc0 (length ?b)" ?b]
    by (simp only: rlp_enc.simps Let_def)
  have sub: "fits64 (rlp_enc x)" if "x \<in> set xs" for x
    using fit length_le_concat [OF that, of rlp_enc] unfolding fits64_def by linarith
  show ?case
  proof (cases "xs = []")
    case True
    then show ?thesis using appendList_raw_eq [of "[]" s] by (simp add: appendList_def fits64_def)
  next
    case False
    have "append_items xs (s\<lparr>m_out := m_out s @ [], m_listStack := (length xs, length (m_out s)) # m_listStack s\<rparr>)
      = (let b = [] @ ?b in complete (rlp_header 0xc0 (length b) @ b)
          (s\<lparr>m_out := m_out s, m_listStack := m_listStack s\<rparr>))"
      using RList.IH sub False fit by (intro append_items_eq) auto
    moreover have "s\<lparr>m_out := m_out s @ [], m_listStack := x # m_listStack s\<rparr> = s\<lparr>m_listStack := x # m_listStack s\<rparr>"
      and "s\<lparr>m_out := m_out s, m_listStack := m_listStack s\<rparr> = s" for x
      by simp_all
    ultimately show ?thesis using False by (simp only: append_item.simps appendList_def rlp_enc.simps Let_def
          append_Nil length_0_conv if_False if_True rbind_Inr not_False_eq_True simp_thms)
  qed
qed

section \<open>The writer implements the format\<close>

text \<open>C30: the streaming writer refines the format: appending any nested value to a fresh stream
  through \<open>append\<close> and \<open>appendList\<close>, whose lists are closed in place by inserting headers into the
  output, leaves no list open and produces exactly the recursive length-prefix encoding.\<close>

theorem append_item_writes_rlp:
  "fits64 (rlp_enc t) \<Longrightarrow> rbind (append_item t empty_stream) stream_out = Inr (rlp_enc t)"
  by (simp add: append_item_complete complete_def noteAppended_def empty_stream_def stream_out_def)

theorem append_item_writes_rlp_witness:
  "rbind (append_item (RList [Data [0x61], RList [], Data [0x80, 1]]) empty_stream) stream_out
     = Inr [0xc5, 0x61, 0xc0, 0x82, 0x80, 1]"
  using append_item_writes_rlp [of "RList [Data [0x61], RList [], Data [0x80, 1]]"]
  by (simp add: fits64_def rlp_header_def)

lemma append_items_partial:
  assumes "\<And>x s. x \<in> set xs \<Longrightarrow> append_item x s = complete (rlp_enc x) s" "length xs < c"
  shows "append_items xs \<lparr>m_out = a, m_listStack = (c, p) # st\<rparr>
    = Inr \<lparr>m_out = a @ concat (map rlp_enc xs), m_listStack = (c - length xs, p) # st\<rparr>"
  using assms
proof (induction xs arbitrary: a c)
  case (Cons x xs)
  then have "append_item x \<lparr>m_out = a, m_listStack = (c, p) # st\<rparr>
      = Inr \<lparr>m_out = a @ rlp_enc x, m_listStack = (c - 1, p) # st\<rparr>"
    by (simp add: complete_def noteAppended_def)
  moreover have "append_items xs \<lparr>m_out = a @ rlp_enc x, m_listStack = (c - 1, p) # st\<rparr>
      = Inr \<lparr>m_out = (a @ rlp_enc x) @ concat (map rlp_enc xs), m_listStack = (c - 1 - length xs, p) # st\<rparr>"
    using Cons.prems by (intro Cons.IH) auto
  ultimately show ?case by simp
qed simp

lemma fits64_items: "fits64 (rlp_enc (RList xs)) \<Longrightarrow> x \<in> set xs \<Longrightarrow> fits64 (rlp_enc x)"
  using length_le_concat [of x xs rlp_enc] by (simp add: fits64_def Let_def)

text \<open>The stream refuses to hand out an incomplete encoding: after a list of \<open>n\<close> items has been
  opened and fewer than \<open>n\<close> items appended, \<open>out()\<close> throws; with exactly \<open>n\<close> it returns the
  encoding of the list.\<close>

theorem appendList_out:
  assumes "fits64 (rlp_enc (RList xs))" "n \<noteq> 0" "length xs \<le> n"
  shows "rbind (rbind (appendList n empty_stream) (append_items xs)) stream_out
    = (if length xs = n then Inr (rlp_enc (RList xs)) else Inl RLPException)"
proof (cases "length xs = n")
  case True
  then have "rbind (appendList n empty_stream) (append_items xs) = complete (rlp_enc (RList xs)) empty_stream"
    using append_item_complete [OF assms(1), of empty_stream] by simp
  then show ?thesis using True
    by (simp add: complete_def noteAppended_def empty_stream_def stream_out_def del: rlp_enc.simps)
next
  case False
  then have "append_items xs \<lparr>m_out = [], m_listStack = [(n, 0)]\<rparr>
      = Inr \<lparr>m_out = [] @ concat (map rlp_enc xs), m_listStack = [(n - length xs, 0)]\<rparr>"
    using assms append_item_complete fits64_items by (intro append_items_partial) auto
  then show ?thesis using False assms(2)
    by (simp add: appendList_def empty_stream_def stream_out_def)
qed

theorem appendList_out_witness:
  "rbind (rbind (appendList 3 empty_stream) (append_items [Data [0x61], RList []])) stream_out
     = Inl RLPException"
  using appendList_out [of "[Data [0x61], RList []]" 3] by (simp add: fits64_def rlp_header_def)

end
