(* ===== verification/Rlp_Reader.thy ===== *)
theory Rlp_Reader
  imports Rlp_Stream
begin

text \<open>
  RLP of libdevcore/RLP.h and RLP.cpp: the reader of the recursive length prefix format. An item is
  a view (\<open>bytesConstRef\<close>) of the bytes that hold it; the fields are read from the bytes on each
  call. A view is modelled by the bytes it covers; only the iterator compares views by address, so
  it keeps the position of its current view in the parent's data. \<open>size_t\<close> values are natural
  numbers (\<open>length\<close> rejects the lengths for which its sums would wrap).
\<close>

section \<open>Views\<close>

text \<open>\<open>vector_ref::cropped\<close>: out of bounds gives the empty view.\<close>

definition cropped :: "bytes \<Rightarrow> nat \<Rightarrow> nat \<Rightarrow> bytes" where
  "cropped d b n =
     (if b \<le> length d \<and> n \<le> length d \<and> b + n \<le> length d then take n (drop b d) else [])"

definition cropped_from :: "bytes \<Rightarrow> nat \<Rightarrow> bytes" where
  "cropped_from d b = (if b \<le> length d then drop b d else [])"

section \<open>Flags and tests\<close>

definition AllowNonCanon :: nat where "AllowNonCanon = 1"
definition ThrowOnFail :: nat where "ThrowOnFail = 4"
definition FailIfTooBig :: nat where "FailIfTooBig = 8"
definition FailIfTooSmall :: nat where "FailIfTooSmall = 16"
definition Strict :: nat where "Strict = (ThrowOnFail OR FailIfTooBig)"
definition VeryStrict :: nat where "VeryStrict = (ThrowOnFail OR FailIfTooBig OR FailIfTooSmall)"
definition LaissezFaire :: nat where "LaissezFaire = AllowNonCanon"

definition flag :: "nat \<Rightarrow> nat \<Rightarrow> bool" where
  "flag fs f \<longleftrightarrow> fs AND f \<noteq> 0"

definition isNull :: "bytes \<Rightarrow> bool" where
  "isNull d \<longleftrightarrow> length d = 0"

definition isEmpty :: "bytes \<Rightarrow> bool" where
  "isEmpty d \<longleftrightarrow> \<not> isNull d \<and> (unat (d ! 0) = c_rlpDataImmLenStart \<or> unat (d ! 0) = c_rlpListStart)"

definition isData :: "bytes \<Rightarrow> bool" where
  "isData d \<longleftrightarrow> \<not> isNull d \<and> unat (d ! 0) < c_rlpListStart"

definition isList :: "bytes \<Rightarrow> bool" where
  "isList d \<longleftrightarrow> \<not> isNull d \<and> unat (d ! 0) \<ge> c_rlpListStart"

definition isSingleByte :: "bytes \<Rightarrow> bool" where
  "isSingleByte d \<longleftrightarrow> \<not> isNull d \<and> unat (d ! 0) < c_rlpDataImmLenStart"

definition requireGood :: "bytes \<Rightarrow> unit result" where
  "requireGood d =
     (if isNull d then Inl BadRLP
      else if unat (d ! 0) \<noteq> c_rlpDataImmLenStart + 1 then Inr ()
      else if length d < 2 then Inl BadRLP
      else if unat (d ! 1) < c_rlpDataImmLenStart then Inl BadRLP
      else Inr ())"

definition isInt :: "bytes \<Rightarrow> bool result" where
  "isInt d =
     (if isNull d then Inr False
      else rbind (requireGood d) (\<lambda>_.
        let n = unat (d ! 0) in
        if n < c_rlpDataImmLenStart then Inr (n \<noteq> 0)
        else if n = c_rlpDataImmLenStart then Inr True
        else if n \<le> c_rlpDataIndLenZero then
          (if length d \<le> 1 then Inl BadRLP else Inr (d ! 1 \<noteq> 0))
        else if n < c_rlpListStart then
          (if length d \<le> 1 + n - c_rlpDataIndLenZero then Inl BadRLP
           else Inr (d ! (1 + n - c_rlpDataIndLenZero) \<noteq> 0))
        else Inr False))"

section \<open>Lengths\<close>

definition lengthSize :: "bytes \<Rightarrow> nat" where
  "lengthSize d =
     (if isData d \<and> unat (d ! 0) > c_rlpDataIndLenZero then unat (d ! 0) - c_rlpDataIndLenZero
      else if isList d \<and> unat (d ! 0) > c_rlpListIndLenZero then unat (d ! 0) - c_rlpListIndLenZero
      else 0)"

text \<open>
  The two branches of \<open>length\<close> that read an explicit length: \<open>ls\<close> big-endian bytes, without
  leading zero, of a value that would not have fitted the short form.
\<close>

definition read_length :: "nat \<Rightarrow> nat \<Rightarrow> bytes \<Rightarrow> nat result" where
  "read_length ls limit d =
     (if length d \<le> ls then Inl BadRLP
      else if length d > 1 \<and> d ! 1 = 0 then Inl BadRLP
      else if ls > 8 then Inl UndersizeRLP
      else if d ! 1 = 0 then Inl BadRLP
      else
        (let ret = fromBigEndian_big (map (\<lambda>i. d ! (i + 1)) [0..<ls]) in
         if ret < limit then Inl BadRLP
         else if ret \<ge> 2 ^ 64 - 1 - 0x100 then Inl UndersizeRLP
         else Inr ret))"

definition rlp_length :: "bytes \<Rightarrow> nat result" where
  "rlp_length d =
     (if isNull d then Inr 0
      else rbind (requireGood d) (\<lambda>_.
        let n = unat (d ! 0) in
        if n < c_rlpDataImmLenStart then Inr 1
        else if n \<le> c_rlpDataIndLenZero then Inr (n - c_rlpDataImmLenStart)
        else if n < c_rlpListStart then
          read_length (n - c_rlpDataIndLenZero)
            (c_rlpListStart - c_rlpDataImmLenStart - c_rlpMaxLengthBytes) d
        else if n \<le> c_rlpListIndLenZero then Inr (n - c_rlpListStart)
        else read_length (n - c_rlpListIndLenZero) (0x100 - c_rlpListStart - c_rlpMaxLengthBytes) d))"

definition payloadOffset :: "bytes \<Rightarrow> nat" where
  "payloadOffset d = (if isSingleByte d then 0 else 1 + lengthSize d)"

definition payload :: "bytes \<Rightarrow> bytes result" where
  "payload d = rbind (rlp_length d) (\<lambda>l.
     if l > length d then Inl BadRLP else Inr (cropped d (payloadOffset d) l))"

definition actualSize :: "bytes \<Rightarrow> nat result" where
  "actualSize d =
     (if isNull d then Inr 0
      else if isSingleByte d then Inr 1
      else if isData d \<or> isList d then rbind (rlp_length d) (\<lambda>l. Inr (payloadOffset d + l))
      else Inr 0)"

section \<open>The object and its constructor\<close>

record rlp =
  m_data :: bytes
  m_lastIndex :: nat
  m_lastEnd :: nat
  m_lastItem :: bytes

definition rlp_of :: "bytes \<Rightarrow> rlp" where
  "rlp_of d = \<lparr>m_data = d, m_lastIndex = 2 ^ 64 - 1, m_lastEnd = 0, m_lastItem = []\<rparr>"

definition RLP_data :: "bytes \<Rightarrow> nat \<Rightarrow> bytes result" where
  "RLP_data d s =
     rbind
       (if flag s FailIfTooBig
        then rbind (actualSize d) (\<lambda>a.
          if a < length d then (if flag s ThrowOnFail then Inl OversizeRLP else Inr []) else Inr d)
        else Inr d)
       (\<lambda>m.
         if flag s FailIfTooSmall
         then rbind (actualSize m) (\<lambda>a.
           if a > length d then (if flag s ThrowOnFail then Inl UndersizeRLP else Inr []) else Inr m)
         else Inr m)"

definition RLP :: "bytes \<Rightarrow> nat \<Rightarrow> rlp result" where
  "RLP d s = rbind (RLP_data d s) (\<lambda>m. Inr (rlp_of m))"

definition sizeAsEncoded :: "bytes \<Rightarrow> nat result" where
  "sizeAsEncoded d = rbind (RLP_data d (ThrowOnFail OR FailIfTooSmall)) actualSize"

lemmas flag_defs = flag_def AllowNonCanon_def ThrowOnFail_def FailIfTooBig_def FailIfTooSmall_def
  Strict_def VeryStrict_def LaissezFaire_def

lemmas rlp_tests = isNull_def isEmpty_def isData_def isList_def isSingleByte_def

lemma isSingleByte_size: "isSingleByte d \<Longrightarrow> 0 < length d"
  by (simp add: isSingleByte_def isNull_def)

text \<open>Reading the size of an item makes progress, and never past the end of the bytes.\<close>

lemma sizeAsEncoded_iff:
  "sizeAsEncoded d = Inr k \<longleftrightarrow> actualSize d = Inr k \<and> k \<le> length d"
  by (cases "actualSize d") (auto simp: sizeAsEncoded_def RLP_data_def flag_defs)

lemma actualSize_pos: "actualSize d = Inr k \<Longrightarrow> d \<noteq> [] \<Longrightarrow> 0 < k"
  by (auto simp: actualSize_def rlp_tests payloadOffset_def not_less result_simps split: if_splits)

section \<open>Iterating over a list\<close>

function items_loop :: "bytes \<Rightarrow> nat \<Rightarrow> nat result" where
  "items_loop d i =
     (if length d = 0 then Inr i
      else case sizeAsEncoded d of Inl e \<Rightarrow> Inl e | Inr k \<Rightarrow> items_loop (cropped_from d k) (i + 1))"
  by pat_completeness auto
termination
  by (relation "measure (\<lambda>(d, i). length d)")
     (auto simp: cropped_from_def sizeAsEncoded_iff dest: actualSize_pos)

declare items_loop.simps [simp del]

definition rlp_items :: "bytes \<Rightarrow> nat result" where
  "rlp_items d = (if isList d then rbind (payload d) (\<lambda>p. items_loop p 0) else Inr 0)"

definition itemCount :: "bytes \<Rightarrow> nat result" where
  "itemCount d = (if isList d then rlp_items d else Inr 0)"

definition itemCountStrict :: "bytes \<Rightarrow> nat result" where
  "itemCountStrict d = (if \<not> isList d then Inl BadCast else rlp_items d)"

definition rlp_size :: "bytes \<Rightarrow> nat result" where
  "rlp_size d = (if isData d then rlp_length d else Inr 0)"

definition sizeStrict :: "bytes \<Rightarrow> nat result" where
  "sizeStrict d = (if \<not> isData d then Inl BadCast else rlp_length d)"

text \<open>
  The iterator: \<open>it_pos\<close> is the address of \<open>m_currentItem\<close> relative to the parent's data (\<open>None\<close> for
  the null view), \<open>it_count\<close> its size.
\<close>

record rlp_iterator =
  m_remaining :: nat
  it_pos :: "nat option"
  it_count :: nat

definition it_view :: "bytes \<Rightarrow> nat option \<Rightarrow> nat \<Rightarrow> bytes" where
  "it_view d p n = (case p of None \<Rightarrow> [] | Some q \<Rightarrow> take n (drop q d))"

definition it_begin :: "bytes \<Rightarrow> rlp_iterator result" where
  "it_begin d =
     (if isList d then
        rbind (payload d) (\<lambda>pl.
        rbind (sizeAsEncoded pl) (\<lambda>k.
          let null = (case rlp_length d of Inl e \<Rightarrow> True | Inr l \<Rightarrow> payloadOffset d + l > length d) in
          Inr \<lparr>m_remaining = length pl - k,
               it_pos = (if null then None else Some (payloadOffset d)), it_count = k\<rparr>))
      else Inr \<lparr>m_remaining = 0, it_pos = (if d = [] then None else Some (length d)), it_count = 0\<rparr>)"

definition it_end :: "bytes \<Rightarrow> rlp_iterator" where
  "it_end d = \<lparr>m_remaining = 0, it_pos = (if d = [] then None else Some (length d)), it_count = 0\<rparr>"

definition it_incr :: "bytes \<Rightarrow> rlp_iterator \<Rightarrow> rlp_iterator result" where
  "it_incr d it =
     (let next = map_option (\<lambda>q. q + it_count it) (it_pos it) in
      if m_remaining it \<noteq> 0 then
        rbind (sizeAsEncoded (it_view d next (m_remaining it))) (\<lambda>k.
          Inr \<lparr>m_remaining = m_remaining it - min (m_remaining it) k, it_pos = next, it_count = k\<rparr>)
      else Inr (it\<lparr>it_pos := next, it_count := 0\<rparr>))"

definition it_eq :: "rlp_iterator \<Rightarrow> rlp_iterator \<Rightarrow> bool" where
  "it_eq a b \<longleftrightarrow> it_pos a = it_pos b \<and> it_count a = it_count b"

definition it_deref :: "bytes \<Rightarrow> rlp_iterator \<Rightarrow> bytes result" where
  "it_deref d it = RLP_data (it_view d (it_pos it) (it_count it)) VeryStrict"

text \<open>
  \<open>for (auto const& i: *this) body(i)\<close>, collecting the values of the body. The loop does not return
  when the iterator misses the end, as for a list followed by further bytes: \<open>fuel\<close> bounds it.
\<close>

fun it_loop :: "nat \<Rightarrow> bytes \<Rightarrow> (bytes \<Rightarrow> 'a result) \<Rightarrow> rlp_iterator \<Rightarrow> 'a list result" where
  "it_loop 0 d body it = Inl Diverges"
| "it_loop (Suc fuel) d body it =
     (if it_eq it (it_end d) then Inr []
      else rbind (it_deref d it) (\<lambda>i. rbind (body i) (\<lambda>v.
           rbind (it_incr d it) (\<lambda>it'. rbind (it_loop fuel d body it') (\<lambda>vs. Inr (v # vs))))))"

definition for_each :: "bytes \<Rightarrow> (bytes \<Rightarrow> 'a result) \<Rightarrow> 'a list result" where
  "for_each d body = rbind (it_begin d) (it_loop (length d + 2) d body)"

section \<open>Indexing a list\<close>

text \<open>
  The subscript operator, whose cache remembers the item read last. The cache is updated even when
  the access throws, so the new object is returned beside the outcome. For a null payload
  \<open>sizeAsEncoded\<close> returns 0.
\<close>

function index_loop :: "bytes \<Rightarrow> nat \<Rightarrow> rlp \<Rightarrow> rlp \<times> unit result" where
  "index_loop p i r =
     (if m_lastIndex r < i \<and> length (m_lastItem r) \<noteq> 0 then
        (let it = cropped_from p (m_lastEnd r) in
         case sizeAsEncoded it of
           Inl e \<Rightarrow> (r\<lparr>m_lastItem := it\<rparr>, Inl e)
         | Inr k \<Rightarrow>
             (let it' = cropped it 0 k in
              index_loop p i (r\<lparr>m_lastItem := it', m_lastEnd := m_lastEnd r + length it',
                                m_lastIndex := m_lastIndex r + 1\<rparr>)))
      else (r, Inr ()))"
  by pat_completeness auto
termination by (relation "measure (\<lambda>(p, i, r). i - m_lastIndex r)") auto

declare index_loop.simps [simp del]

definition index_restart :: "nat \<Rightarrow> rlp \<Rightarrow> rlp \<times> unit result" where
  "index_restart i r =
     (if i < m_lastIndex r then
        (case rbind (payload (m_data r)) sizeAsEncoded of
           Inl e \<Rightarrow> (r, Inl e)
         | Inr k \<Rightarrow>
             (case payload (m_data r) of
                Inl e \<Rightarrow> (r\<lparr>m_lastEnd := k\<rparr>, Inl e)
              | Inr p \<Rightarrow> (r\<lparr>m_lastEnd := k, m_lastItem := cropped p 0 k, m_lastIndex := 0\<rparr>, Inr ())))
      else (r, Inr ()))"

definition rlp_index :: "rlp \<Rightarrow> nat \<Rightarrow> rlp \<times> rlp result" where
  "rlp_index r i =
     (case index_restart i r of
        (r, Inl e) \<Rightarrow> (r, Inl e)
      | (r, Inr _) \<Rightarrow>
          (case (if m_lastIndex r < i \<and> length (m_lastItem r) \<noteq> 0 then payload (m_data r) else Inr []) of
             Inl e \<Rightarrow> (r, Inl e)
           | Inr p \<Rightarrow>
               (case index_loop p i r of
                  (r, Inl e) \<Rightarrow> (r, Inl e)
                | (r, Inr _) \<Rightarrow> (r, RLP (m_lastItem r) (ThrowOnFail OR FailIfTooSmall)))))"

section \<open>Conversions\<close>

definition throw_or :: "nat \<Rightarrow> 'a \<Rightarrow> 'a result" where
  "throw_or flags dflt = (if flag flags ThrowOnFail then Inl BadCast else Inr dflt)"

definition toBytes :: "nat \<Rightarrow> bytes \<Rightarrow> bytes result" where
  "toBytes flags d =
     (if \<not> isData d then throw_or flags []
      else rbind (payload d) (\<lambda>p. rbind (rlp_length d) (\<lambda>l.
        if l > length p then Inl OutOfRange else Inr (take l p))))"

definition toBytesConstRef :: "nat \<Rightarrow> bytes \<Rightarrow> bytes result" where
  "toBytesConstRef flags d =
     (if \<not> isData d then throw_or flags []
      else rbind (payload d) (\<lambda>p. rbind (rlp_length d) (\<lambda>l. Inr (cropped p 0 l))))"

definition toString :: "nat \<Rightarrow> bytes \<Rightarrow> string result" where
  "toString flags d =
     (if \<not> isData d then throw_or flags ''''
      else rbind (payload d) (\<lambda>p. rbind (rlp_length d) (\<lambda>l. Inr (asString (cropped p 0 l)))))"

definition toStringStrict :: "bytes \<Rightarrow> string result" where
  "toStringStrict d = toString Strict d"

text \<open>\<open>toInt\<close>, for a type of \<open>maxSize\<close> bytes whose values are read by \<open>from\<close>.\<close>

definition toInt_with :: "nat \<Rightarrow> (bytes \<Rightarrow> 'n) \<Rightarrow> 'n \<Rightarrow> nat \<Rightarrow> bytes \<Rightarrow> 'n result" where
  "toInt_with maxSize from zero flags d =
     rbind (requireGood d) (\<lambda>_.
     rbind (isInt d) (\<lambda>int.
       if (\<not> int \<and> \<not> flag flags AllowNonCanon) \<or> isList d \<or> isNull d then throw_or flags zero
       else rbind (payload d) (\<lambda>p.
         if length p > maxSize \<and> flag flags FailIfTooBig then throw_or flags zero
         else Inr (from p))))"

definition toInt :: "nat \<Rightarrow> bytes \<Rightarrow> 'w::len word result" where
  "toInt = toInt_with (LENGTH('w) div 8) fromBigEndian 0"

definition toInt_big :: "nat \<Rightarrow> bytes \<Rightarrow> nat result" where
  "toInt_big = toInt_with (2 ^ 32 - 1) fromBigEndian_big 0"

definition toPositiveInt64 :: "nat \<Rightarrow> bytes \<Rightarrow> 64 word result" where
  "toPositiveInt64 flags d =
     rbind (toInt flags d) (\<lambda>i.
       if flag flags ThrowOnFail \<and> sint (i :: 64 word) < 0 then Inl BadCast else Inr i)"

text \<open>\<open>toHash\<close>: a fixed hash of \<open>n\<close> bytes, the payload aligned to its right end.\<close>

definition toHash :: "nat \<Rightarrow> nat \<Rightarrow> bytes \<Rightarrow> bytes result" where
  "toHash n flags d =
     rbind (requireGood d) (\<lambda>_.
     rbind (payload d) (\<lambda>p.
       let l = length p in
       if \<not> isData d \<or> (l > n \<and> flag flags FailIfTooBig) \<or> (l < n \<and> flag flags FailIfTooSmall)
       then throw_or flags (replicate n 0)
       else (let s = min n l in Inr (replicate (n - s) 0 @ take s p))))"

text \<open>The container conversions, for a converter \<open>conv\<close> of the elements.\<close>

definition toList :: "nat \<Rightarrow> bytes \<Rightarrow> bytes list result" where
  "toList flags d = (if \<not> isList d then throw_or flags [] else for_each d Inr)"

definition toVector :: "(nat \<Rightarrow> bytes \<Rightarrow> 'a result) \<Rightarrow> nat \<Rightarrow> bytes \<Rightarrow> 'a list result" where
  "toVector conv flags d =
     (if isList d then rbind (itemCount d) (\<lambda>_. for_each d (conv flags)) else throw_or flags [])"

definition toSet :: "(nat \<Rightarrow> bytes \<Rightarrow> 'a result) \<Rightarrow> nat \<Rightarrow> bytes \<Rightarrow> 'a set result" where
  "toSet conv flags d =
     (if isList d then rbind (for_each d (conv flags)) (\<lambda>vs. Inr (set vs)) else throw_or flags {})"

definition toPair ::
  "(nat \<Rightarrow> bytes \<Rightarrow> 'a result) \<Rightarrow> (nat \<Rightarrow> bytes \<Rightarrow> 'b result) \<Rightarrow> 'a \<times> 'b \<Rightarrow> nat \<Rightarrow> bytes \<Rightarrow> ('a \<times> 'b) result" where
  "toPair conv1 conv2 dflt flags d =
     rbind (itemCountStrict d) (\<lambda>n.
       if n \<noteq> 2 then throw_or flags dflt
       else
         (case rlp_index (rlp_of d) 0 of
            (r, a) \<Rightarrow> rbind a (\<lambda>a. rbind (conv1 flags (m_data a)) (\<lambda>a.
              rbind (snd (rlp_index r 1)) (\<lambda>b. rbind (conv2 flags (m_data b)) (\<lambda>b. Inr (a, b)))))))"

fun toArray_loop :: "(nat \<Rightarrow> bytes \<Rightarrow> 'a result) \<Rightarrow> nat \<Rightarrow> nat list \<Rightarrow> rlp \<Rightarrow> 'a list result" where
  "toArray_loop conv flags [] r = Inr []"
| "toArray_loop conv flags (i # is) r =
     (case rlp_index r i of
        (r, a) \<Rightarrow> rbind a (\<lambda>a. rbind (conv flags (m_data a)) (\<lambda>v.
          rbind (toArray_loop conv flags is r) (\<lambda>vs. Inr (v # vs)))))"

definition toArray :: "(nat \<Rightarrow> bytes \<Rightarrow> 'a result) \<Rightarrow> nat \<Rightarrow> 'a \<Rightarrow> nat \<Rightarrow> bytes \<Rightarrow> 'a list result" where
  "toArray conv n dflt flags d =
     rbind (itemCountStrict d) (\<lambda>c.
       if c \<noteq> n then throw_or flags (replicate n dflt) else toArray_loop conv flags [0..<n] (rlp_of d))"

section \<open>Reading what the writer wrote\<close>

text \<open>
  The size below which an encoding is readable: the largest lengths are refused by \<open>length\<close>.
\<close>

definition readable :: "rlp_item \<Rightarrow> bool" where
  "readable t \<longleftrightarrow> length (rlp_enc t) < 2 ^ 64 - 0x200"

lemma readable_fits64: "readable t \<Longrightarrow> fits64 (rlp_enc t)"
  by (simp add: readable_def fits64_def)

text \<open>The short and the long header, read from the front of any bytes.\<close>

lemma map_nth_prefix: "map (\<lambda>i. (x # xs @ ys) ! (i + 1)) [0..<length xs] = xs"
  by (rule nth_equalityI) (simp_all add: nth_append)

lemma compact_hd: "n \<noteq> 0 \<Longrightarrow> hd (toCompactBigEndian n 0) \<noteq> 0"
proof
  assume n: "n \<noteq> 0" "hd (toCompactBigEndian n 0) = 0"
  obtain x xs where c: "toCompactBigEndian n 0 = x # xs"
    using n(1) bytesRequired_pos [of n] length_compact [of n] by (cases "toCompactBigEndian n 0") auto
  have "n = fromBigEndian_big (x # xs)" using toCompactBigEndian_roundtrip'(1) [of n 0] c by simp
  then have "n = digits_val 256 (map unat xs)"
    using n(2) c by (simp add: fromBigEndian_big_eq digits_val_Cons)
  then have "n < 256 ^ length xs"
    using digits_val_bound [of "map unat xs" 256] by simp
  then have "bytesRequired n \<le> length xs" by (simp only: bytesRequired_le_iff)
  moreover have "bytesRequired n = Suc (length xs)" using c length_compact [of n] by simp
  ultimately show False by simp
qed

lemma read_length_eq:
  assumes "limit = 56" "56 \<le> n" "n < 2 ^ 64 - 0x101"
  shows "read_length (bytesRequired n) limit (x # toCompactBigEndian n 0 @ rest) = Inr n"
proof -
  let ?c = "toCompactBigEndian n 0"
  have "bytesRequired n \<le> 8" using assms by (simp add: bytesRequired_le_iff)
  moreover have ne: "?c \<noteq> []" using assms bytesRequired_pos [of n] length_compact [of n]
    by (metis length_greater_0_conv not_numeral_le_zero)
  moreover have "hd ?c \<noteq> 0"
    using assms by (intro compact_hd) simp
  moreover have "map (\<lambda>i. (x # ?c @ rest) ! (i + 1)) [0..<bytesRequired n] = ?c"
    using map_nth_prefix [of x ?c rest] by simp
  moreover obtain y ys where c: "?c = y # ys" using ne by (cases ?c) auto
  moreover have "bytesRequired n = Suc (length ys)" using c length_compact [of n] by simp
  moreover have "fromBigEndian_big (y # ys) = n" using c toCompactBigEndian_roundtrip'(1) [of n 0] by simp
  ultimately show ?thesis using assms
    by (simp add: read_length_def nth_append Let_def del: upt_Suc map_eq_conv)
qed

text \<open>The four fields of an encoded item, followed by any bytes.\<close>

fun item_payload :: "rlp_item \<Rightarrow> bytes" where
  "item_payload (Data d) = d"
| "item_payload (RList xs) = concat (map rlp_enc xs)"

lemma unat_of_nat_byte: "n < 256 \<Longrightarrow> unat (word_of_nat n :: byte) = n"
  by simp

lemma enc_header:
  assumes "readable t"
  obtains (single) x where "t = Data [x]" "rlp_enc t = [x]" "unat x < 128"
  | (short_data) x where "\<exists>d. t = Data d" "unat x = 0x80 + length (item_payload t)" "length (item_payload t) < 56"
      "rlp_enc t = x # item_payload t" "\<not> (length (item_payload t) = 1 \<and> unat (hd (item_payload t)) < 128)"
  | (long_data) x where "\<exists>d. t = Data d" "unat x = 0xb7 + bytesRequired (length (item_payload t))"
      "56 \<le> length (item_payload t)" "rlp_enc t = x # toCompactBigEndian (length (item_payload t)) 0 @ item_payload t"
  | (short_list) x where "\<exists>xs. t = RList xs" "unat x = 0xc0 + length (item_payload t)" "length (item_payload t) < 56"
      "rlp_enc t = x # item_payload t"
  | (long_list) x where "\<exists>xs. t = RList xs" "unat x = 0xf7 + bytesRequired (length (item_payload t))"
      "56 \<le> length (item_payload t)" "rlp_enc t = x # toCompactBigEndian (length (item_payload t)) 0 @ item_payload t"
proof -
  have len: "bytesRequired (length (item_payload t)) \<le> 8"
    using assms by (cases t) (auto simp: readable_def bytesRequired_le_iff Let_def split: if_splits)
  show thesis
  proof (cases t)
    case (Data d)
    show thesis
    proof (cases "length d = 1 \<and> unat (hd d) < 128")
      case True
      then obtain x where "d = [x]" by (auto simp: length_Suc_conv)
      with True Data show thesis by (intro single) auto
    next
      case False
      show thesis
      proof (cases "length d < 56")
        case True
        with False Data show thesis by (intro short_data [of "of_nat (0x80 + length d)"]) (auto simp: rlp_header_def unat_of_nat_byte simp del: of_nat_add)
      next
        case long: False
        with False Data len show thesis
          by (intro long_data [of "of_nat (0xb7 + bytesRequired (length d))"]) (auto simp: rlp_header_def unat_of_nat_byte simp del: of_nat_add)
      qed
    qed
  next
    case (RList xs)
    show thesis
    proof (cases "length (item_payload t) < 56")
      case True
      with RList show thesis
        by (intro short_list [of "of_nat (0xc0 + length (item_payload t))"]) (auto simp: rlp_header_def Let_def unat_of_nat_byte simp del: of_nat_add)
    next
      case False
      with RList len show thesis
        by (intro long_list [of "of_nat (0xf7 + bytesRequired (length (item_payload t)))"])
           (auto simp: rlp_header_def Let_def unat_of_nat_byte simp del: of_nat_add)
    qed
  qed
qed

lemma readable_payload: "readable t \<Longrightarrow> length (item_payload t) < 2 ^ 64 - 0x200"
  by (cases t) (auto simp: readable_def Let_def split: if_splits)

lemma enc_fields:
  assumes "readable t"
  shows "rlp_length (rlp_enc t @ rest) = Inr (length (item_payload t))"
    and "payloadOffset (rlp_enc t @ rest) + length (item_payload t) = length (rlp_enc t)"
    and "drop (payloadOffset (rlp_enc t @ rest)) (rlp_enc t) = item_payload t"
    and "isList (rlp_enc t @ rest) \<longleftrightarrow> (\<exists>xs. t = RList xs)"
    and "isData (rlp_enc t @ rest) \<longleftrightarrow> (\<exists>d. t = Data d)"
    and "rlp_enc t \<noteq> [] \<and> rlp_enc t @ rest \<noteq> []"
    and "requireGood (rlp_enc t @ rest) = Inr ()"
proof -
  let ?d = "rlp_enc t @ rest" and ?p = "item_payload t"
  have small: "bytesRequired (length ?p) \<le> 8" "length ?p < 2 ^ 64 - 0x101"
    using readable_payload [OF assms] by (auto simp: bytesRequired_le_iff)
  have pos: "0 < bytesRequired (length ?p)" if "56 \<le> length ?p"
    using that by (intro bytesRequired_pos) auto
  note d = rlp_length_def payloadOffset_def lengthSize_def requireGood_def rlp_tests rlp_consts
  from assms have "rlp_length ?d = Inr (length ?p) \<and> payloadOffset ?d + length ?p = length (rlp_enc t) \<and>
      drop (payloadOffset ?d) (rlp_enc t) = ?p \<and> (isList ?d \<longleftrightarrow> (\<exists>xs. t = RList xs)) \<and>
      (isData ?d \<longleftrightarrow> (\<exists>d. t = Data d)) \<and> rlp_enc t \<noteq> [] \<and> requireGood ?d = Inr ()"
  proof (cases rule: enc_header)
    case (single x)
    then show ?thesis by (simp add: d)
  next
    case (short_data x)
    moreover have "unat x = 129 \<Longrightarrow> ?p \<noteq> [] \<and> 128 \<le> unat (hd ?p)" using short_data by auto
    ultimately show ?thesis by (auto simp: d hd_conv_nth nth_append)
  next
    case (long_data x)
    then show ?thesis using small pos by (auto simp: d read_length_eq)
  next
    case (short_list x)
    then show ?thesis by (auto simp: d)
  next
    case (long_list x)
    then show ?thesis using small pos by (auto simp: d read_length_eq)
  qed
  then show "rlp_length ?d = Inr (length ?p)" "payloadOffset ?d + length ?p = length (rlp_enc t)"
    "drop (payloadOffset ?d) (rlp_enc t) = ?p" "isList ?d \<longleftrightarrow> (\<exists>xs. t = RList xs)"
    "isData ?d \<longleftrightarrow> (\<exists>d. t = Data d)" "rlp_enc t \<noteq> [] \<and> ?d \<noteq> []" "requireGood ?d = Inr ()"
    by simp_all
qed

lemma payload_enc: "readable t \<Longrightarrow> payload (rlp_enc t @ rest) = Inr (item_payload t)"
  using enc_fields [of t rest]
  by (auto simp: payload_def cropped_def)

lemma payload_enc' [simp]: "readable t \<Longrightarrow> payload (rlp_enc t) = Inr (item_payload t)"
  using payload_enc [of t "[]"] by simp

lemma actualSize_enc: "readable t \<Longrightarrow> actualSize (rlp_enc t @ rest) = Inr (length (rlp_enc t))"
proof -
  assume r: "readable t"
  note f = enc_fields [OF r, of rest]
  show ?thesis
  proof (cases "isSingleByte (rlp_enc t @ rest)")
    case True
    then have "rlp_length (rlp_enc t @ rest) = Inr 1"
      using f(7) by (simp add: rlp_length_def isSingleByte_def)
    then have "length (item_payload t) = 1" using f(1) by simp
    then have "length (rlp_enc t) = 1" using f(2) True by (simp add: payloadOffset_def)
    then show ?thesis using True by (simp add: actualSize_def isSingleByte_def)
  next
    case False
    have "isData (rlp_enc t @ rest) \<or> isList (rlp_enc t @ rest)" using f(4,5) by (cases t) auto
    then show ?thesis using False f(1,2,6) by (simp add: actualSize_def isNull_def)
  qed
qed

lemma sizeAsEncoded_enc: "readable t \<Longrightarrow> sizeAsEncoded (rlp_enc t @ rest) = Inr (length (rlp_enc t))"
  by (simp add: sizeAsEncoded_iff actualSize_enc)

lemma sizeAsEncoded_Nil [simp]: "sizeAsEncoded [] = Inr 0"
  by (simp add: sizeAsEncoded_iff actualSize_def isNull_def)

lemma RLP_data_enc: "readable t \<Longrightarrow> RLP_data (rlp_enc t) s = Inr (rlp_enc t)"
  using actualSize_enc [of t "[]"] by (simp add: RLP_data_def)

lemma RLP_enc: "readable t \<Longrightarrow> RLP (rlp_enc t) s = Inr (rlp_of (rlp_enc t))"
  by (simp add: RLP_def RLP_data_enc)

lemma RLP_Nil: "RLP [] s = Inr (rlp_of [])"
  by (simp add: RLP_def RLP_data_def actualSize_def isNull_def)

lemma isList_enc [simp]: "readable t \<Longrightarrow> isList (rlp_enc t) \<longleftrightarrow> (\<exists>xs. t = RList xs)"
  and isData_enc [simp]: "readable t \<Longrightarrow> isData (rlp_enc t) \<longleftrightarrow> (\<exists>d. t = Data d)"
  and length_enc [simp]: "readable t \<Longrightarrow> rlp_length (rlp_enc t) = Inr (length (item_payload t))"
  and requireGood_enc [simp]: "readable t \<Longrightarrow> requireGood (rlp_enc t) = Inr ()"
  using enc_fields [of t "[]"] by simp_all

text \<open>A data item reads back: from the encoding of a byte string every conversion to bytes
  returns the string, and one to a list refuses it.\<close>

theorem read_data:
  assumes "readable (Data d)"
  shows "toBytes flags (rlp_enc (Data d)) = Inr d \<and> toBytesConstRef flags (rlp_enc (Data d)) = Inr d
    \<and> toString flags (rlp_enc (Data d)) = Inr (asString d) \<and> toList Strict (rlp_enc (Data d)) = Inl BadCast"
  using assms
  by (simp_all add: toBytes_def toBytesConstRef_def toString_def toList_def cropped_def throw_or_def
      flag_defs del: rlp_enc.simps)

theorem read_data_witness:
  "toBytes 0 (rlp_enc (Data [0x80, 1])) = Inr [0x80, 1] \<and> toList Strict [0x82, 0x80, 1] = Inl BadCast"
  using read_data [of "[0x80, 1]" 0] by (simp add: readable_def rlp_header_def)

section \<open>Items of a list\<close>

lemma readable_items: "readable (RList xs) \<Longrightarrow> x \<in> set xs \<Longrightarrow> readable x"
  using length_le_concat [of x xs rlp_enc] by (simp add: readable_def Let_def)

lemma enc_not_Nil: "readable t \<Longrightarrow> rlp_enc t \<noteq> []"
  using enc_fields(6) by blast

lemma items_loop_eq: "list_all readable xs \<Longrightarrow> items_loop (concat (map rlp_enc xs)) i = Inr (i + length xs)"
proof (induction xs arbitrary: i)
  case Nil
  then show ?case by (simp add: items_loop.simps)
next
  case (Cons x xs)
  then show ?case
    using enc_not_Nil [of x]
    by (subst items_loop.simps) (simp add: sizeAsEncoded_enc cropped_from_def del: rlp_enc.simps)
qed

lemma itemCount_enc: "readable (RList xs) \<Longrightarrow> itemCount (rlp_enc (RList xs)) = Inr (length xs)"
  using readable_items [of xs]
  by (simp add: itemCount_def rlp_items_def items_loop_eq list_all_iff del: rlp_enc.simps)

text \<open>
  The iterator at the beginning of the items \<open>ys\<close>: its view is the first of them, or the empty view
  at the end, and the rest remains.
\<close>

definition it_at :: "bytes \<Rightarrow> rlp_item list \<Rightarrow> rlp_iterator" where
  "it_at d ys =
     (let all = length (concat (map rlp_enc ys)); cur = (case ys of [] \<Rightarrow> 0 | y # _ \<Rightarrow> length (rlp_enc y))
      in \<lparr>m_remaining = all - cur, it_pos = Some (length d - all), it_count = cur\<rparr>)"

lemma it_at_Nil: "d \<noteq> [] \<Longrightarrow> it_eq (it_at d []) (it_end d)"
  by (simp add: it_at_def it_eq_def it_end_def)

lemma it_at_step:
  assumes "list_all readable (y # ys)" "d = pre @ concat (map rlp_enc (y # ys))"
  shows "\<not> it_eq (it_at d (y # ys)) (it_end d)" "it_deref d (it_at d (y # ys)) = Inr (rlp_enc y)"
    "it_incr d (it_at d (y # ys)) = Inr (it_at d ys)"
proof -
  let ?e = "rlp_enc y" and ?r = "concat (map rlp_enc ys)"
  have d: "d = pre @ ?e @ ?r" and y: "readable y" and ys: "list_all readable ys"
    using assms by simp_all
  have ne: "?e \<noteq> []" using y by (rule enc_not_Nil)
  show "\<not> it_eq (it_at d (y # ys)) (it_end d)"
    using ne by (simp add: it_at_def it_eq_def it_end_def Let_def del: rlp_enc.simps)
  show "it_deref d (it_at d (y # ys)) = Inr ?e"
    using y by (simp add: it_deref_def it_at_def it_view_def d RLP_data_enc del: rlp_enc.simps)
  show "it_incr d (it_at d (y # ys)) = Inr (it_at d ys)"
  proof (cases ys)
    case Nil
    then show ?thesis by (simp add: it_incr_def it_at_def d del: rlp_enc.simps)
  next
    case (Cons z zs)
    with ys have z: "readable z" by simp
    have "take (length ?r) (drop (length pre + length ?e) d) = ?r" by (simp add: d)
    moreover have "?r \<noteq> []" using Cons z enc_not_Nil [of z] by simp
    ultimately show ?thesis using Cons z
      by (simp add: it_incr_def it_at_def it_view_def sizeAsEncoded_enc d min_def del: rlp_enc.simps)
  qed
qed

lemma it_loop_eq:
  assumes "list_all readable ys" "d = pre @ concat (map rlp_enc ys)" "d \<noteq> []" "length ys < fuel"
  shows "it_loop fuel d body (it_at d ys)
    = foldr (\<lambda>y r. rbind (body (rlp_enc y)) (\<lambda>v. rbind r (\<lambda>vs. Inr (v # vs)))) ys (Inr [])"
  using assms
proof (induction ys arbitrary: pre fuel)
  case Nil
  then obtain f where "fuel = Suc f" by (cases fuel) auto
  with Nil show ?case by (simp add: it_at_Nil)
next
  case (Cons y ys)
  then obtain f where f: "fuel = Suc f" "length ys < f" by (cases fuel) auto
  have "it_loop f d body (it_at d ys)
      = foldr (\<lambda>y r. rbind (body (rlp_enc y)) (\<lambda>v. rbind r (\<lambda>vs. Inr (v # vs)))) ys (Inr [])"
    using Cons.prems f(2) by (intro Cons.IH [where pre = "pre @ rlp_enc y"]) auto
  with it_at_step [OF Cons.prems(1,2)] f(1) show ?case by (simp del: rlp_enc.simps)
qed

lemma length_items: "list_all readable xs \<Longrightarrow> length xs \<le> length (concat (map rlp_enc xs))"
proof (induction xs)
  case (Cons x xs)
  then have "1 \<le> length (rlp_enc x)" using enc_not_Nil [of x] by (cases "rlp_enc x") auto
  with Cons show ?case by simp
qed simp

lemma it_begin_eq:
  assumes "readable (RList xs)"
  shows "it_begin (rlp_enc (RList xs)) = Inr (it_at (rlp_enc (RList xs)) xs)"
proof -
  let ?d = "rlp_enc (RList xs)" and ?b = "concat (map rlp_enc xs)"
  note f = enc_fields [OF assms, of "[]", simplified]
  have off: "payloadOffset ?d = length ?d - length ?b" "length ?b \<le> length ?d"
    using f(2) by simp_all
  have s: "sizeAsEncoded ?b = Inr (case xs of [] \<Rightarrow> 0 | y # _ \<Rightarrow> length (rlp_enc y))"
    using readable_items [OF assms]
    by (cases xs) (simp_all add: sizeAsEncoded_enc del: rlp_enc.simps)
  show ?thesis
    using assms off s by (simp add: it_begin_def it_at_def Let_def del: rlp_enc.simps)
qed

lemma for_each_eq:
  assumes "readable (RList xs)"
  shows "for_each (rlp_enc (RList xs)) body
    = foldr (\<lambda>y r. rbind (body (rlp_enc y)) (\<lambda>v. rbind r (\<lambda>vs. Inr (v # vs)))) xs (Inr [])"
proof -
  let ?d = "rlp_enc (RList xs)"
  have r: "list_all readable xs" using readable_items [OF assms] by (simp add: list_all_iff)
  have "?d = rlp_header 0xc0 (length (concat (map rlp_enc xs))) @ concat (map rlp_enc xs)" by (simp add: Let_def)
  moreover have "length xs < length ?d + 2" using length_items [OF r] by (simp add: Let_def)
  ultimately have "it_loop (length ?d + 2) ?d body (it_at ?d xs)
      = foldr (\<lambda>y r. rbind (body (rlp_enc y)) (\<lambda>v. rbind r (\<lambda>vs. Inr (v # vs)))) xs (Inr [])"
    using it_loop_eq [OF r] enc_not_Nil [OF assms] by blast
  then show ?thesis by (simp add: for_each_def it_begin_eq [OF assms] del: rlp_enc.simps)
qed

text \<open>C31: a list reads back: iterating over the encoding of a list terminates and visits exactly the
  encodings of its items in order, \<open>itemCount\<close> is their number and \<open>toBytes\<close> refuses it.\<close>

theorem read_list:
  assumes "readable (RList xs)"
  shows "toList flags (rlp_enc (RList xs)) = Inr (map rlp_enc xs)
    \<and> itemCount (rlp_enc (RList xs)) = Inr (length xs)
    \<and> toBytes Strict (rlp_enc (RList xs)) = Inl BadCast"
proof (intro conjI)
  have "foldr (\<lambda>y r. rbind (Inr (rlp_enc y)) (\<lambda>v. rbind r (\<lambda>vs. Inr (v # vs)))) ys (Inr [])
      = (Inr (map rlp_enc ys) :: bytes list result)" for ys
    by (induction ys) (simp_all del: rlp_enc.simps)
  then show "toList flags (rlp_enc (RList xs)) = Inr (map rlp_enc xs)"
    using assms by (simp only: toList_def isList_enc for_each_eq) simp
  show "itemCount (rlp_enc (RList xs)) = Inr (length xs)" using assms by (rule itemCount_enc)
  show "toBytes Strict (rlp_enc (RList xs)) = Inl BadCast"
    using assms by (simp add: toBytes_def throw_or_def flag_defs del: rlp_enc.simps)
qed

theorem read_list_witness:
  "toList Strict (rlp_enc (RList [Data [1], RList []])) = Inr [[1], [0xc0]]"
  using read_list [of "[Data [1], RList []]" Strict] by (simp add: readable_def rlp_header_def)

section \<open>The index cache\<close>

text \<open>
  What the cache holds for the encoding of the list \<open>xs\<close>: nothing yet, or the item at
  \<open>m_lastIndex\<close> (the empty view one past the last) and the offset behind it.
\<close>

definition item_view :: "rlp_item list \<Rightarrow> nat \<Rightarrow> bytes" where
  "item_view xs i = (if i < length xs then rlp_enc (xs ! i) else [])"

definition cache_ok :: "rlp_item list \<Rightarrow> rlp \<Rightarrow> bool" where
  "cache_ok xs r \<longleftrightarrow> m_data r = rlp_enc (RList xs) \<and>
     (m_lastIndex r = 2 ^ 64 - 1 \<or>
      m_lastIndex r \<le> length xs \<and> m_lastItem r = item_view xs (m_lastIndex r) \<and>
      m_lastEnd r = length (concat (map rlp_enc (take (Suc (m_lastIndex r)) xs))))"

lemma drop_items: "drop (length (concat (map rlp_enc (take k xs)))) (concat (map rlp_enc xs))
    = concat (map rlp_enc (drop k xs))"
proof -
  have "concat (map rlp_enc xs) = concat (map rlp_enc (take k xs)) @ concat (map rlp_enc (drop k xs))"
    by (metis append_take_drop_id concat_append map_append)
  then show ?thesis by simp
qed

lemma length_items_le: "length (concat (map rlp_enc (take k xs))) \<le> length (concat (map rlp_enc xs))"
proof -
  have "concat (map rlp_enc xs) = concat (map rlp_enc (take k xs)) @ concat (map rlp_enc (drop k xs))"
    by (metis append_take_drop_id concat_append map_append)
  then show ?thesis by simp
qed

lemma size_item_view:
  assumes "readable (RList xs)"
  shows "sizeAsEncoded (concat (map rlp_enc (drop k xs))) = Inr (length (item_view xs k))"
    and "take (length (item_view xs k)) (concat (map rlp_enc (drop k xs))) = item_view xs k"
    and "length (item_view xs k) \<le> length (concat (map rlp_enc (drop k xs)))"
proof -
  have "sizeAsEncoded (concat (map rlp_enc (drop k xs))) = Inr (length (item_view xs k)) \<and>
      take (length (item_view xs k)) (concat (map rlp_enc (drop k xs))) = item_view xs k \<and>
      length (item_view xs k) \<le> length (concat (map rlp_enc (drop k xs)))"
  proof (cases "k < length xs")
    case True
    then have d: "drop k xs = xs ! k # drop (Suc k) xs" by (simp add: Cons_nth_drop_Suc)
    have "readable (xs ! k)" using True by (intro readable_items [OF assms]) simp
    then show ?thesis using True d by (simp add: item_view_def sizeAsEncoded_enc del: rlp_enc.simps)
  qed (simp add: item_view_def)
  then show "sizeAsEncoded (concat (map rlp_enc (drop k xs))) = Inr (length (item_view xs k))"
    and "take (length (item_view xs k)) (concat (map rlp_enc (drop k xs))) = item_view xs k"
    and "length (item_view xs k) \<le> length (concat (map rlp_enc (drop k xs)))" by simp_all
qed

lemma index_loop_ok:
  assumes "readable (RList xs)" "cache_ok xs r" "m_lastIndex r \<le> i" "m_lastIndex r \<noteq> 2 ^ 64 - 1"
    "length xs < 2 ^ 64 - 1"
  shows "\<exists>r'. index_loop (concat (map rlp_enc xs)) i r = (r', Inr ()) \<and> cache_ok xs r' \<and>
    m_lastItem r' = item_view xs i"
  using assms(2-4)
proof (induction "i - m_lastIndex r" arbitrary: r rule: less_induct)
  case less
  let ?j = "m_lastIndex r" and ?all = "concat (map rlp_enc xs)"
  have ok: "?j \<le> length xs" "m_lastItem r = item_view xs ?j"
    "m_lastEnd r = length (concat (map rlp_enc (take (Suc ?j) xs)))" "m_data r = rlp_enc (RList xs)"
    using less.prems(1,3) by (auto simp: cache_ok_def)
  show ?case
  proof (cases "?j < i \<and> item_view xs ?j \<noteq> []")
    case False
    then have "item_view xs ?j = item_view xs i"
      using less.prems(2) ok(1) readable_items [OF assms(1)] enc_not_Nil
      by (cases "?j = i") (auto simp: item_view_def split: if_splits)
    then show ?thesis using False less.prems(1) ok(2) by (subst index_loop.simps) auto
  next
    case True
    then have j: "?j < length xs" by (auto simp: item_view_def split: if_splits)
    let ?it = "item_view xs (Suc ?j)"
    let ?r = "r\<lparr>m_lastItem := ?it, m_lastEnd := m_lastEnd r + length ?it, m_lastIndex := ?j + 1\<rparr>"
    note s = size_item_view [OF assms(1), of "Suc ?j"]
    have "cropped_from ?all (m_lastEnd r) = concat (map rlp_enc (drop (Suc ?j) xs))"
      using length_items_le [of "Suc ?j" xs] by (simp add: cropped_from_def ok(3) drop_items)
    then have step: "index_loop ?all i r = index_loop ?all i ?r"
      using True s ok(2) by (subst index_loop.simps) (simp add: cropped_def Let_def)
    have "concat (map rlp_enc (take (Suc (Suc ?j)) xs)) = concat (map rlp_enc (take (Suc ?j) xs)) @ ?it"
      using j by (cases "Suc ?j < length xs") (simp_all add: item_view_def take_Suc_conv_app_nth del: rlp_enc.simps)
    then have "cache_ok xs ?r"
      using j ok(3,4) by (simp add: cache_ok_def del: rlp_enc.simps)
    then have "\<exists>r'. index_loop ?all i ?r = (r', Inr ()) \<and> cache_ok xs r' \<and> m_lastItem r' = item_view xs i"
      using True j assms(5) by (intro less.hyps) auto
    then show ?thesis using step by simp
  qed
qed

lemma index_restart_ok:
  assumes "readable (RList xs)" "cache_ok xs r" "i < 2 ^ 64 - 1"
  shows "\<exists>r'. index_restart i r = (r', Inr ()) \<and> cache_ok xs r' \<and> m_lastIndex r' \<le> i \<and>
    m_lastIndex r' \<noteq> 2 ^ 64 - 1"
proof (cases "i < m_lastIndex r")
  case False
  then show ?thesis using assms by (auto simp: index_restart_def)
next
  case True
  have d: "m_data r = rlp_enc (RList xs)" using assms(2) by (simp add: cache_ok_def)
  note s = size_item_view [OF assms(1), of 0, unfolded drop_0]
  have "concat (map rlp_enc (take (Suc 0) xs)) = item_view xs 0"
    by (cases xs) (simp_all add: item_view_def)
  then have "cache_ok xs (r\<lparr>m_lastEnd := length (item_view xs 0), m_lastItem := item_view xs 0, m_lastIndex := 0\<rparr>)"
    using d by (simp add: cache_ok_def)
  then show ?thesis using True assms(1) d s
    by (auto simp: index_restart_def cropped_def simp del: rlp_enc.simps)
qed

lemma rlp_index_ok:
  assumes "readable (RList xs)" "cache_ok xs r" "i < 2 ^ 64 - 1"
  shows "\<exists>r'. rlp_index r i = (r', Inr (rlp_of (item_view xs i))) \<and> cache_ok xs r'"
proof -
  have r: "list_all readable xs" using readable_items [OF assms(1)] by (simp add: list_all_iff)
  have len: "length xs < 2 ^ 64 - 1"
    using length_items [OF r] readable_payload [OF assms(1)] by simp
  obtain r1 where r1: "index_restart i r = (r1, Inr ())" "cache_ok xs r1" "m_lastIndex r1 \<le> i"
    "m_lastIndex r1 \<noteq> 2 ^ 64 - 1"
    using index_restart_ok [OF assms] by blast
  obtain r2 where r2: "index_loop (concat (map rlp_enc xs)) i r1 = (r2, Inr ())" "cache_ok xs r2"
    "m_lastItem r2 = item_view xs i"
    using index_loop_ok [OF assms(1) r1(2-4) len] by blast
  have "payload (m_data r1) = Inr (concat (map rlp_enc xs))"
    using r1(2) assms(1) by (simp add: cache_ok_def del: rlp_enc.simps)
  moreover have "\<not> (m_lastIndex r1 < i \<and> length (m_lastItem r1) \<noteq> 0) \<Longrightarrow> index_loop p i r1 = (r1, Inr ())" for p
    by (subst index_loop.simps) auto
  moreover have "RLP (item_view xs i) (ThrowOnFail OR FailIfTooSmall) = Inr (rlp_of (item_view xs i))"
    using r by (cases "i < length xs") (simp_all add: item_view_def RLP_enc RLP_Nil list_all_length)
  ultimately show ?thesis using r1(1) r2
    by (cases "m_lastIndex r1 < i \<and> length (m_lastItem r1) \<noteq> 0") (auto simp: rlp_index_def RLP_Nil)
qed

text \<open>Any sequence of subscripts applied to one object.\<close>

fun rlp_indices :: "rlp \<Rightarrow> nat list \<Rightarrow> bytes result list" where
  "rlp_indices r [] = []"
| "rlp_indices r (i # is) =
     (case rlp_index r i of (r', v) \<Rightarrow> rbind v (\<lambda>v. Inr (m_data v)) # rlp_indices r' is)"

text \<open>C32: the subscript cache is transparent: whatever indices are read from one object before, in
  whatever order, \<open>operator[]\<close> returns the item at that index, and the null item beyond the last.\<close>

theorem index_cache_transparent:
  assumes "readable (RList xs)" "\<forall>i\<in>set is. i < 2 ^ 64 - 1"
  shows "rlp_indices (rlp_of (rlp_enc (RList xs))) is
    = map (\<lambda>i. Inr (if i < length xs then rlp_enc (xs ! i) else [])) is"
proof -
  have "rlp_indices r is = map (\<lambda>i. Inr (item_view xs i)) is" if "cache_ok xs r" for r
    using that assms(2)
  proof (induction "is" arbitrary: r)
    case (Cons i "is")
    then obtain r' where "rlp_index r i = (r', Inr (rlp_of (item_view xs i)))" "cache_ok xs r'"
      using rlp_index_ok [OF assms(1)] by force
    with Cons show ?case by (simp add: rlp_of_def)
  qed simp
  then show ?thesis by (simp add: cache_ok_def rlp_of_def item_view_def)
qed

theorem index_cache_transparent_witness:
  "rlp_indices (rlp_of [0xc2, 1, 2]) [1, 0, 5, 1] = [Inr [2], Inr [1], Inr [], Inr [2]]"
  using index_cache_transparent [of "[Data [1], Data [2]]" "[1, 0, 5, 1]"]
  by (simp add: readable_def rlp_header_def)

section \<open>Integers, hashes and pairs\<close>

lemma isInt_enc:
  assumes "readable (Data d)"
  shows "isInt (rlp_enc (Data d)) = Inr (d = [] \<or> hd d \<noteq> 0)"
proof -
  note g = requireGood_enc [OF assms]
  have small: "bytesRequired (length d) \<le> 8" and pos: "56 \<le> length d \<Longrightarrow> 0 < bytesRequired (length d)"
    using readable_payload [OF assms] bytesRequired_pos [of "length d"]
    by (auto simp: bytesRequired_le_iff intro: bytesRequired_pos)
  have "\<not> isNull (rlp_enc (Data d))" using enc_not_Nil [OF assms] by (simp add: isNull_def)
  then have "isInt (rlp_enc (Data d)) = (let n = unat (rlp_enc (Data d) ! 0) in
        if n < 0x80 then Inr (n \<noteq> 0)
        else if n = 0x80 then Inr True
        else if n \<le> 0xb7 then
          (if length (rlp_enc (Data d)) \<le> 1 then Inl BadRLP else Inr (rlp_enc (Data d) ! 1 \<noteq> 0))
        else if n < 0xc0 then
          (if length (rlp_enc (Data d)) \<le> 1 + n - 0xb7 then Inl BadRLP
           else Inr (rlp_enc (Data d) ! (1 + n - 0xb7) \<noteq> 0))
        else Inr False)"
    using g unfolding isInt_def Let_def by (simp add: rlp_consts del: rlp_enc.simps)
  also have "\<dots> = Inr (d = [] \<or> hd d \<noteq> 0)"
    using assms
  proof (cases rule: enc_header)
    case (single x)
    then show ?thesis by (simp add: Let_def unat_eq_0 del: rlp_enc.simps)
  next
    case (short_data x)
    then show ?thesis by (cases d) (auto simp: Let_def simp del: rlp_enc.simps)
  next
    case (long_data x)
    have "(x # toCompactBigEndian (length d) 0 @ d) ! (1 + bytesRequired (length d)) = d ! 0"
      by (simp add: nth_append)
    with long_data small pos show ?thesis by (cases d) (auto simp: Let_def simp del: rlp_enc.simps)
  qed auto
  finally show ?thesis .
qed

lemma toInt_with_enc:
  assumes "readable (Data d)" "d = [] \<or> hd d \<noteq> 0" "length d \<le> maxSize"
  shows "toInt_with maxSize from zero flags (rlp_enc (Data d)) = Inr (from d)"
  using assms enc_not_Nil [OF assms(1)]
  by (simp add: toInt_with_def isInt_enc isNull_def del: rlp_enc.simps)

text \<open>Integers and hashes read back from what \<open>append\<close> writes for them: an unsigned integer of any
  width, a \<open>bigint\<close>, and a hash of the size asked for, under any flags.\<close>

theorem read_int_hash:
  assumes "i < 256 ^ k" "k \<le> 55" "length h < 2 ^ 63"
  shows "rbind (rbind (append_bigint i empty_stream) stream_out) (toInt_big flags) = Inr i
    \<and> (k = LENGTH('w::len) div 8 \<longrightarrow>
        rbind (rbind (append_bigint i empty_stream) stream_out) (toInt flags) = Inr (of_nat i :: 'w word))
    \<and> rbind (rbind (append_bytes h False empty_stream) stream_out) (toHash (length h) flags) = Inr h"
proof -
  let ?c = "toCompactBigEndian i 0"
  have br: "bytesRequired i \<le> k" using assms(1) by (simp only: bytesRequired_le_iff)
  then have "length (rlp_enc (Data ?c)) \<le> 100" using assms(2) by (simp add: rlp_header_def)
  then have rd: "readable (Data ?c)" by (simp add: readable_def del: rlp_enc.simps)
  have i55: "i < 256 ^ 55" using br assms(2) bytesRequired_le_iff [of i 55] by linarith
  have w: "rbind (append_bigint i empty_stream) stream_out = Inr (rlp_enc (Data ?c))"
    by (simp add: append_bigint_eq [OF i55] complete_def noteAppended_def empty_stream_def stream_out_def
        del: rlp_enc.simps)
  have hd: "?c = [] \<or> hd ?c \<noteq> 0" using compact_hd [of i] by (cases "i = 0") auto
  have "length h < 256 ^ 8" using assms(3) by simp
  then have brh: "bytesRequired (length h) \<le> 8" by (simp only: bytesRequired_le_iff)
  then have rh: "readable (Data h)" using assms(3)
    by (auto simp: readable_def rlp_header_def)
  have wh: "rbind (append_bytes h False empty_stream) stream_out = Inr (rlp_enc (Data h))"
    using readable_payload [OF rh]
    by (simp add: append_bytes_eq fits64_def complete_def noteAppended_def empty_stream_def
        stream_out_def del: rlp_enc.simps)
  have "toHash (length h) flags (rlp_enc (Data h)) = Inr h"
    using rh by (simp add: toHash_def del: rlp_enc.simps)
  moreover have "toInt_big flags (rlp_enc (Data ?c)) = Inr i"
    using br assms(2) unfolding toInt_big_def
    by (subst toInt_with_enc [OF rd hd]) (simp_all add: toCompactBigEndian_roundtrip')
  moreover have "toInt flags (rlp_enc (Data ?c)) = Inr (of_nat i :: 'w word)" if "k = LENGTH('w) div 8"
    using br that unfolding toInt_def
    by (subst toInt_with_enc [OF rd hd]) (simp_all add: fromBigEndian_word toCompactBigEndian_roundtrip')
  ultimately show ?thesis using w wh by simp
qed

theorem read_int_hash_witness:
  "rbind (rbind (append_bigint 300 empty_stream) stream_out) (toInt Strict) = Inr (300 :: 64 word)"
  using read_int_hash [of 300 8 "[]" Strict, where 'w = 64] by simp

lemma toPair_enc:
  assumes "readable (RList [a, b])"
  shows "toPair conv1 conv2 dflt flags (rlp_enc (RList [a, b]))
    = rbind (conv1 flags (rlp_enc a)) (\<lambda>x. rbind (conv2 flags (rlp_enc b)) (\<lambda>y. Inr (x, y)))"
proof -
  let ?r = "rlp_of (rlp_enc (RList [a, b]))"
  have "cache_ok [a, b] ?r" by (simp add: cache_ok_def rlp_of_def)
  then obtain r where r: "rlp_index ?r 0 = (r, Inr (rlp_of (item_view [a, b] 0)))" "cache_ok [a, b] r"
    using rlp_index_ok [OF assms, of ?r 0] by auto
  then obtain r' where r': "rlp_index r 1 = (r', Inr (rlp_of (item_view [a, b] 1)))"
    using rlp_index_ok [OF assms r(2), of 1] by auto
  have "itemCountStrict (rlp_enc (RList [a, b])) = Inr 2"
    using itemCount_enc [OF assms] assms by (simp add: itemCount_def itemCountStrict_def del: rlp_enc.simps)
  then show ?thesis using r(1) r'
    by (simp add: toPair_def item_view_def rlp_of_def del: rlp_enc.simps One_nat_def)
qed

section \<open>A list with trailing bytes\<close>

definition it_from :: "nat \<Rightarrow> rlp_item list \<Rightarrow> rlp_iterator" where
  "it_from p ys =
     (let all = length (concat (map rlp_enc ys)); cur = (case ys of [] \<Rightarrow> 0 | y # _ \<Rightarrow> length (rlp_enc y))
      in \<lparr>m_remaining = all - cur, it_pos = Some p, it_count = cur\<rparr>)"

lemma it_incr_from:
  assumes "list_all readable (y # ys)" "d = pre @ concat (map rlp_enc (y # ys)) @ rest"
  shows "it_incr d (it_from (length pre) (y # ys)) = Inr (it_from (length pre + length (rlp_enc y)) ys)"
proof (cases ys)
  case Nil
  then show ?thesis by (simp add: it_incr_def it_from_def del: rlp_enc.simps)
next
  case (Cons z zs)
  let ?r = "concat (map rlp_enc ys)"
  have z: "readable z" using assms(1) Cons by simp
  have "take (length ?r) (drop (length pre + length (rlp_enc y)) d) = ?r" by (simp add: assms(2))
  moreover have "?r \<noteq> []" using Cons z enc_not_Nil [of z] by simp
  ultimately show ?thesis using Cons z
    by (simp add: it_incr_def it_from_def it_view_def sizeAsEncoded_enc min_def Let_def del: rlp_enc.simps)
qed

lemma it_loop_from:
  assumes "list_all readable ys" "d = pre @ concat (map rlp_enc ys) @ rest" "rest \<noteq> []"
  shows "it_loop fuel d Inr (it_from (length pre) ys) = Inl Diverges"
  using assms
proof (induction fuel arbitrary: pre ys)
  case (Suc fuel)
  show ?case
  proof (cases ys)
    case Nil
    let ?it = "it_from (length pre) []"
    have "\<not> it_eq ?it (it_end d)" "it_deref d ?it = Inr []" "it_incr d ?it = Inr ?it"
      using Suc.prems Nil
      by (auto simp: it_eq_def it_end_def it_from_def it_deref_def it_view_def it_incr_def
          RLP_data_def actualSize_def isNull_def)
    moreover have "it_loop fuel d Inr ?it = Inl Diverges"
      using Suc.prems Nil by (intro Suc.IH) auto
    ultimately show ?thesis using Nil by simp
  next
    case (Cons y zs)
    then have y: "readable y" using Suc.prems by simp
    have "it_loop fuel d Inr (it_from (length (pre @ rlp_enc y)) zs) = Inl Diverges"
      using Suc.prems Cons by (intro Suc.IH) auto
    moreover have "it_incr d (it_from (length pre) ys) = Inr (it_from (length (pre @ rlp_enc y)) zs)"
      using it_incr_from [of y zs d pre rest] Suc.prems Cons by simp
    moreover have "\<not> it_eq (it_from (length pre) ys) (it_end d)"
      using Suc.prems(2,3) enc_not_Nil [OF y] Cons
      by (auto simp: it_eq_def it_end_def it_from_def Let_def simp del: rlp_enc.simps)
    moreover have "it_deref d (it_from (length pre) ys) = Inr (rlp_enc y)"
      using Suc.prems(2) Cons y
      by (simp add: it_deref_def it_from_def it_view_def RLP_data_enc Let_def del: rlp_enc.simps)
    ultimately show ?thesis by simp
  qed
qed simp

text \<open>C33: an item that is followed by further bytes (which the constructor admits without
  \<open>FailIfTooBig\<close>) has the right \<open>itemCount\<close>, but a range-for over it never reaches the end
  iterator: no number of steps is enough for the loop to return.\<close>

theorem trailing_bytes_diverge:
  assumes "readable (RList xs)" "rest \<noteq> []"
  shows "RLP_data (rlp_enc (RList xs) @ rest) LaissezFaire = Inr (rlp_enc (RList xs) @ rest)
    \<and> itemCount (rlp_enc (RList xs) @ rest) = Inr (length xs)
    \<and> rbind (it_begin (rlp_enc (RList xs) @ rest)) (it_loop fuel (rlp_enc (RList xs) @ rest) Inr) = Inl Diverges"
proof (intro conjI)
  let ?d = "rlp_enc (RList xs) @ rest" and ?b = "concat (map rlp_enc xs)"
  have r: "list_all readable xs" using readable_items [OF assms(1)] by (simp add: list_all_iff)
  note f = enc_fields [OF assms(1), of rest]
  have p: "payload ?d = Inr ?b" using payload_enc [OF assms(1), of rest] by simp
  show "RLP_data ?d LaissezFaire = Inr ?d" by (simp add: RLP_data_def flag_defs)
  show "itemCount ?d = Inr (length xs)"
    using f(4) p r by (simp add: itemCount_def rlp_items_def items_loop_eq del: rlp_enc.simps)
  obtain h where d: "?d = h @ ?b @ rest" and h: "payloadOffset ?d = length h"
    using f(2,3) append_take_drop_id [of "payloadOffset ?d" "rlp_enc (RList xs)"]
    by (metis append.assoc append_take_drop_id item_payload.simps(2) length_append add_right_cancel)
  have s: "sizeAsEncoded ?b = Inr (case xs of [] \<Rightarrow> 0 | y # _ \<Rightarrow> length (rlp_enc y))"
    using r by (cases xs) (simp_all add: sizeAsEncoded_enc del: rlp_enc.simps)
  have "it_begin ?d = Inr (it_from (length h) xs)"
    using f(1,2,4) p s h by (simp add: it_begin_def it_from_def Let_def del: rlp_enc.simps)
  then show "rbind (it_begin ?d) (it_loop fuel ?d Inr) = Inl Diverges"
    using it_loop_from [OF r d assms(2)] by simp
qed

theorem trailing_bytes_diverge_witness:
  "rbind (it_begin [0xc1, 7, 9]) (it_loop 1000 [0xc1, 7, 9] Inr) = Inl Diverges"
  using trailing_bytes_diverge [of "[Data [7]]" "[9]" 1000] by (simp add: readable_def rlp_header_def)

end
