(* ===== verification/Ripemd160.thy ===== *)
theory Ripemd160
  imports Wallet_Prelude
begin

text \<open>
  The RIPEMD-160 hash of libdevcrypto/Hash.cpp: the ten step macros, the 160 unrolled steps of
  \<open>MDcompress\<close> (one table of macro arguments per block of sixteen lines: the five variables, by
  position, then the message word and the rotation), \<open>MDfinish\<close> with its padding, and \<open>ripemd160\<close>.
  The variables aa, bb, cc, dd, ee of a line are the elements of a list of length five.
\<close>

type_synonym word32 = "32 word"
type_synonym step_args = "nat \<times> nat \<times> nat \<times> nat \<times> nat \<times> nat \<times> nat"

section \<open>The compression function\<close>

definition BYTES_TO_DWORD :: "bytes \<Rightarrow> word32" where
  "BYTES_TO_DWORD s =
     (push_bit 24 (ucast (s ! 3)) OR push_bit 16 (ucast (s ! 2)) OR push_bit 8 (ucast (s ! 1)) OR ucast (s ! 0))"

definition ROL :: "word32 \<Rightarrow> nat \<Rightarrow> word32" where
  "ROL x n = (push_bit n x OR drop_bit (32 - n) x)"

definition rmd_F :: "word32 \<Rightarrow> word32 \<Rightarrow> word32 \<Rightarrow> word32" where
  "rmd_F x y z = (x XOR y XOR z)"
definition rmd_G :: "word32 \<Rightarrow> word32 \<Rightarrow> word32 \<Rightarrow> word32" where
  "rmd_G x y z = ((x AND y) OR (NOT x AND z))"
definition rmd_H :: "word32 \<Rightarrow> word32 \<Rightarrow> word32 \<Rightarrow> word32" where
  "rmd_H x y z = ((x OR NOT y) XOR z)"
definition rmd_I :: "word32 \<Rightarrow> word32 \<Rightarrow> word32 \<Rightarrow> word32" where
  "rmd_I x y z = ((x AND z) OR (y AND NOT z))"
definition rmd_J :: "word32 \<Rightarrow> word32 \<Rightarrow> word32 \<Rightarrow> word32" where
  "rmd_J x y z = (x XOR (y OR NOT z))"

text \<open>The common body of the ten step macros.\<close>

definition rmd_op :: "(word32 \<Rightarrow> word32 \<Rightarrow> word32 \<Rightarrow> word32) \<Rightarrow> word32 \<Rightarrow> word32 list \<Rightarrow> step_args \<Rightarrow> word32 list \<Rightarrow> word32 list" where
  "rmd_op f k X args v =
     (case args of (a, b, c, d, e, i, s) \<Rightarrow>
       let v = v[a := v ! a + (f (v ! b) (v ! c) (v ! d) + X ! i + k)];
           v = v[a := ROL (v ! a) s + v ! e];
           v = v[c := ROL (v ! c) 10]
       in v)"

definition FF where "FF = rmd_op rmd_F 0"
definition GG where "GG = rmd_op rmd_G 0x5a827999"
definition HH where "HH = rmd_op rmd_H 0x6ed9eba1"
definition II where "II = rmd_op rmd_I 0x8f1bbcdc"
definition JJ where "JJ = rmd_op rmd_J 0xa953fd4e"
definition FFF where "FFF = rmd_op rmd_F 0"
definition GGG where "GGG = rmd_op rmd_G 0x7a6d76e9"
definition HHH where "HHH = rmd_op rmd_H 0x6d703ef3"
definition III where "III = rmd_op rmd_I 0x5c4dd124"
definition JJJ where "JJJ = rmd_op rmd_J 0x50a28be6"

definition MDinit :: "word32 list" where
  "MDinit = [0x67452301, 0xefcdab89, 0x98badcfe, 0x10325476, 0xc3d2e1f0]"

definition round1 :: "step_args list" where
  "round1 =
    [(0,1,2,3,4, 0,11), (4,0,1,2,3, 1,14), (3,4,0,1,2, 2,15), (2,3,4,0,1, 3,12),
     (1,2,3,4,0, 4,5), (0,1,2,3,4, 5,8), (4,0,1,2,3, 6,7), (3,4,0,1,2, 7,9),
     (2,3,4,0,1, 8,11), (1,2,3,4,0, 9,13), (0,1,2,3,4, 10,14), (4,0,1,2,3, 11,15),
     (3,4,0,1,2, 12,6), (2,3,4,0,1, 13,7), (1,2,3,4,0, 14,9), (0,1,2,3,4, 15,8)]"

definition round2 :: "step_args list" where
  "round2 =
    [(4,0,1,2,3, 7,7), (3,4,0,1,2, 4,6), (2,3,4,0,1, 13,8), (1,2,3,4,0, 1,13),
     (0,1,2,3,4, 10,11), (4,0,1,2,3, 6,9), (3,4,0,1,2, 15,7), (2,3,4,0,1, 3,15),
     (1,2,3,4,0, 12,7), (0,1,2,3,4, 0,12), (4,0,1,2,3, 9,15), (3,4,0,1,2, 5,9),
     (2,3,4,0,1, 2,11), (1,2,3,4,0, 14,7), (0,1,2,3,4, 11,13), (4,0,1,2,3, 8,12)]"

definition round3 :: "step_args list" where
  "round3 =
    [(3,4,0,1,2, 3,11), (2,3,4,0,1, 10,13), (1,2,3,4,0, 14,6), (0,1,2,3,4, 4,7),
     (4,0,1,2,3, 9,14), (3,4,0,1,2, 15,9), (2,3,4,0,1, 8,13), (1,2,3,4,0, 1,15),
     (0,1,2,3,4, 2,14), (4,0,1,2,3, 7,8), (3,4,0,1,2, 0,13), (2,3,4,0,1, 6,6),
     (1,2,3,4,0, 13,5), (0,1,2,3,4, 11,12), (4,0,1,2,3, 5,7), (3,4,0,1,2, 12,5)]"

definition round4 :: "step_args list" where
  "round4 =
    [(2,3,4,0,1, 1,11), (1,2,3,4,0, 9,12), (0,1,2,3,4, 11,14), (4,0,1,2,3, 10,15),
     (3,4,0,1,2, 0,14), (2,3,4,0,1, 8,15), (1,2,3,4,0, 12,9), (0,1,2,3,4, 4,8),
     (4,0,1,2,3, 13,9), (3,4,0,1,2, 3,14), (2,3,4,0,1, 7,5), (1,2,3,4,0, 15,6),
     (0,1,2,3,4, 14,8), (4,0,1,2,3, 5,6), (3,4,0,1,2, 6,5), (2,3,4,0,1, 2,12)]"

definition round5 :: "step_args list" where
  "round5 =
    [(1,2,3,4,0, 4,9), (0,1,2,3,4, 0,15), (4,0,1,2,3, 5,5), (3,4,0,1,2, 9,11),
     (2,3,4,0,1, 7,6), (1,2,3,4,0, 12,8), (0,1,2,3,4, 2,13), (4,0,1,2,3, 10,12),
     (3,4,0,1,2, 14,5), (2,3,4,0,1, 1,12), (1,2,3,4,0, 3,13), (0,1,2,3,4, 8,14),
     (4,0,1,2,3, 11,11), (3,4,0,1,2, 6,8), (2,3,4,0,1, 15,5), (1,2,3,4,0, 13,6)]"

definition parallel1 :: "step_args list" where
  "parallel1 =
    [(0,1,2,3,4, 5,8), (4,0,1,2,3, 14,9), (3,4,0,1,2, 7,9), (2,3,4,0,1, 0,11),
     (1,2,3,4,0, 9,13), (0,1,2,3,4, 2,15), (4,0,1,2,3, 11,15), (3,4,0,1,2, 4,5),
     (2,3,4,0,1, 13,7), (1,2,3,4,0, 6,7), (0,1,2,3,4, 15,8), (4,0,1,2,3, 8,11),
     (3,4,0,1,2, 1,14), (2,3,4,0,1, 10,14), (1,2,3,4,0, 3,12), (0,1,2,3,4, 12,6)]"

definition parallel2 :: "step_args list" where
  "parallel2 =
    [(4,0,1,2,3, 6,9), (3,4,0,1,2, 11,13), (2,3,4,0,1, 3,15), (1,2,3,4,0, 7,7),
     (0,1,2,3,4, 0,12), (4,0,1,2,3, 13,8), (3,4,0,1,2, 5,9), (2,3,4,0,1, 10,11),
     (1,2,3,4,0, 14,7), (0,1,2,3,4, 15,7), (4,0,1,2,3, 8,12), (3,4,0,1,2, 12,7),
     (2,3,4,0,1, 4,6), (1,2,3,4,0, 9,15), (0,1,2,3,4, 1,13), (4,0,1,2,3, 2,11)]"

definition parallel3 :: "step_args list" where
  "parallel3 =
    [(3,4,0,1,2, 15,9), (2,3,4,0,1, 5,7), (1,2,3,4,0, 1,15), (0,1,2,3,4, 3,11),
     (4,0,1,2,3, 7,8), (3,4,0,1,2, 14,6), (2,3,4,0,1, 6,6), (1,2,3,4,0, 9,14),
     (0,1,2,3,4, 11,12), (4,0,1,2,3, 8,13), (3,4,0,1,2, 12,5), (2,3,4,0,1, 2,14),
     (1,2,3,4,0, 10,13), (0,1,2,3,4, 0,13), (4,0,1,2,3, 4,7), (3,4,0,1,2, 13,5)]"

definition parallel4 :: "step_args list" where
  "parallel4 =
    [(2,3,4,0,1, 8,15), (1,2,3,4,0, 6,5), (0,1,2,3,4, 4,8), (4,0,1,2,3, 1,11),
     (3,4,0,1,2, 3,14), (2,3,4,0,1, 11,14), (1,2,3,4,0, 15,6), (0,1,2,3,4, 0,14),
     (4,0,1,2,3, 5,6), (3,4,0,1,2, 12,9), (2,3,4,0,1, 2,12), (1,2,3,4,0, 13,9),
     (0,1,2,3,4, 9,12), (4,0,1,2,3, 7,5), (3,4,0,1,2, 10,15), (2,3,4,0,1, 14,8)]"

definition parallel5 :: "step_args list" where
  "parallel5 =
    [(1,2,3,4,0, 12,8), (0,1,2,3,4, 15,5), (4,0,1,2,3, 10,12), (3,4,0,1,2, 4,9),
     (2,3,4,0,1, 1,12), (1,2,3,4,0, 5,5), (0,1,2,3,4, 8,14), (4,0,1,2,3, 7,6),
     (3,4,0,1,2, 6,8), (2,3,4,0,1, 2,13), (1,2,3,4,0, 13,6), (0,1,2,3,4, 14,5),
     (4,0,1,2,3, 0,15), (3,4,0,1,2, 3,13), (2,3,4,0,1, 9,11), (1,2,3,4,0, 11,11)]"

definition run_round :: "(word32 list \<Rightarrow> step_args \<Rightarrow> word32 list \<Rightarrow> word32 list) \<Rightarrow> word32 list \<Rightarrow> step_args list \<Rightarrow> word32 list \<Rightarrow> word32 list" where
  "run_round m X table v = foldl (\<lambda>v args. m X args v) v table"

definition MDcompress :: "word32 list \<Rightarrow> word32 list \<Rightarrow> word32 list" where
  "MDcompress buf X =
     (let l = run_round JJ X round5 (run_round II X round4 (run_round HH X round3
                (run_round GG X round2 (run_round FF X round1 buf))));
          r = run_round FFF X parallel5 (run_round GGG X parallel4 (run_round HHH X parallel3
                (run_round III X parallel2 (run_round JJJ X parallel1 buf))));
          ddd = r ! 3 + (l ! 2 + buf ! 1)
      in [ddd, buf ! 2 + l ! 3 + r ! 4, buf ! 3 + l ! 4 + r ! 0, buf ! 4 + l ! 0 + r ! 1, buf ! 0 + l ! 1 + r ! 2])"

section \<open>Padding and the hash\<close>

definition MDfinish_words :: "bytes \<Rightarrow> word32 \<Rightarrow> word32 list" where
  "MDfinish_words str lswlen =
     foldl (\<lambda>X i. X[i div 4 := X ! (i div 4) XOR push_bit (8 * (i mod 4)) (ucast (str ! i))])
       (replicate 16 0) [0..<unat (lswlen AND 63)]"

definition MDfinish :: "word32 list \<Rightarrow> bytes \<Rightarrow> word32 \<Rightarrow> word32 \<Rightarrow> word32 list" where
  "MDfinish buf str lswlen mswlen =
     (let X = MDfinish_words str lswlen;
          k = unat (drop_bit 2 lswlen AND 15);
          X = X[k := X ! k XOR push_bit (8 * unat (lswlen AND 3) + 7) 1];
          (buf, X) = (if unat (lswlen AND 63) > 55 then (MDcompress buf X, replicate 16 0) else (buf, X));
          X = X[14 := push_bit 3 lswlen, 15 := drop_bit 29 lswlen OR push_bit 3 mswlen]
      in MDcompress buf X)"

function rmd_chunks :: "nat \<Rightarrow> word32 list \<Rightarrow> bytes \<Rightarrow> word32 list \<times> bytes" where
  "rmd_chunks remaining buf message =
     (if remaining \<ge> 64 then
        rmd_chunks (remaining - 64)
          (MDcompress buf (map (\<lambda>i. BYTES_TO_DWORD (drop (4 * i) message)) [0..<16])) (drop 64 message)
      else (buf, message))"
  by pat_completeness auto
termination by (relation "measure (\<lambda>(r, b, m). r)") auto

declare rmd_chunks.simps [simp del]

definition ripemd160 :: "bytes \<Rightarrow> bytes" where
  "ripemd160 input =
     (let (buf, message) = rmd_chunks (length input mod 2 ^ 32) MDinit input;
          buf = MDfinish buf message (of_nat (length input)) 0
      in concat (map (\<lambda>i. [ucast (buf ! i), ucast (drop_bit 8 (buf ! i)), ucast (drop_bit 16 (buf ! i)),
                           ucast (drop_bit 24 (buf ! i))]) [0, 1, 2, 3, 4]))"

section \<open>The published description\<close>

text \<open>
  One step on the chaining variables A to E; the order of the message words is given by a permutation
  \<open>rho\<close> applied once more in every round, on the parallel line after the affine permutation
  \<open>9 i + 5\<close>; the rotation depends on the round and the message word.
\<close>

type_synonym chain = "word32 \<times> word32 \<times> word32 \<times> word32 \<times> word32"

definition spec_step :: "(word32 \<Rightarrow> word32 \<Rightarrow> word32 \<Rightarrow> word32) \<Rightarrow> word32 \<Rightarrow> word32 \<Rightarrow> nat \<Rightarrow> chain \<Rightarrow> chain" where
  "spec_step f k x s t =
     (case t of (A, B, C, D, E) \<Rightarrow> (E, word_rotl s (A + f B C D + x + k) + E, B, word_rotl 10 C, D))"

definition spec_rho :: "nat \<Rightarrow> nat" where
  "spec_rho i = [7, 4, 13, 1, 10, 6, 15, 3, 12, 0, 9, 5, 2, 14, 11, 8] ! i"

definition spec_word :: "nat \<Rightarrow> nat" where
  "spec_word j = (spec_rho ^^ (j div 16)) (j mod 16)"

definition spec_word' :: "nat \<Rightarrow> nat" where
  "spec_word' j = (spec_rho ^^ (j div 16)) ((9 * (j mod 16) + 5) mod 16)"

definition spec_rot :: "nat \<Rightarrow> nat \<Rightarrow> nat" where
  "spec_rot rnd i =
     [[11, 14, 15, 12,  5,  8,  7,  9, 11, 13, 14, 15,  6,  7,  9,  8],
      [12, 13, 11, 15,  6,  9,  9,  7, 12, 15, 11, 13,  7,  8,  7,  7],
      [13, 15, 14, 11,  7,  7,  6,  8, 13, 14, 13, 12,  5,  5,  6,  9],
      [14, 11, 12, 14,  8,  6,  5,  5, 15, 12, 15, 14,  9,  9,  8,  6],
      [15, 12, 13, 13,  9,  5,  8,  6, 14, 11, 12, 11,  8,  6,  5,  5]] ! rnd ! i"

definition spec_fs where "spec_fs = [rmd_F, rmd_G, rmd_H, rmd_I, rmd_J]"
definition spec_ks :: "word32 list" where "spec_ks = [0, 0x5a827999, 0x6ed9eba1, 0x8f1bbcdc, 0xa953fd4e]"
definition spec_ks' :: "word32 list" where "spec_ks' = [0x50a28be6, 0x5c4dd124, 0x6d703ef3, 0x7a6d76e9, 0]"

definition spec_left :: "word32 list \<Rightarrow> chain \<Rightarrow> chain" where
  "spec_left X t = foldl (\<lambda>t j. spec_step (spec_fs ! (j div 16)) (spec_ks ! (j div 16))
     (X ! spec_word j) (spec_rot (j div 16) (spec_word j)) t) t [0..<80]"

definition spec_right :: "word32 list \<Rightarrow> chain \<Rightarrow> chain" where
  "spec_right X t = foldl (\<lambda>t j. spec_step (spec_fs ! (4 - j div 16)) (spec_ks' ! (j div 16))
     (X ! spec_word' j) (spec_rot (j div 16) (spec_word' j)) t) t [0..<80]"

definition spec_compress :: "word32 list \<Rightarrow> word32 list \<Rightarrow> word32 list" where
  "spec_compress h X =
     (let t = (h ! 0, h ! 1, h ! 2, h ! 3, h ! 4)
      in case (spec_left X t, spec_right X t) of
        ((A, B, C, D, E), (A', B', C', D', E')) \<Rightarrow>
          [h ! 1 + C + D', h ! 2 + D + E', h ! 3 + E + A', h ! 4 + A + B', h ! 0 + B + C'])"

section \<open>The unrolled steps are the published rounds\<close>

lemma ROL_eq: "0 < s \<Longrightarrow> s < 32 \<Longrightarrow> ROL x s = word_rotl s x"
proof (rule bit_word_eqI)
  fix n assume s: "0 < s" "s < 32" and n: "n < LENGTH(32)"
  have "(n + 32 - s) mod 32 = (if s \<le> n then n - s else 32 + n - s)"
    using s n by (auto simp: mod_if)
  moreover have "s \<le> n \<Longrightarrow> \<not> bit x (32 + n - s)"
    using s n bit_imp_le_length [of x "32 + n - s"] by auto
  ultimately show "bit (ROL x s) n = bit (word_rotl s x) n"
    using s n by (auto simp: ROL_def bit_word_rotl_iff bit_simps)
qed

definition rot_args :: "nat \<Rightarrow> nat \<Rightarrow> nat \<Rightarrow> step_args" where
  "rot_args p i s = (p mod 5, (p + 1) mod 5, (p + 2) mod 5, (p + 3) mod 5, (p + 4) mod 5, i, s)"

definition rot_vars :: "nat \<Rightarrow> word32 list \<Rightarrow> chain" where
  "rot_vars p v = (v ! (p mod 5), v ! ((p + 1) mod 5), v ! ((p + 2) mod 5), v ! ((p + 3) mod 5), v ! ((p + 4) mod 5))"

lemma op_rot:
  assumes "length v = 5" "0 < s" "s < 32"
  shows "rot_vars (p + 4) (rmd_op f k X (rot_args p i s) v) = spec_step f k (X ! i) s (rot_vars p v)
    \<and> length (rmd_op f k X (rot_args p i s) v) = 5"
proof -
  obtain a b c d e where v: "v = [a, b, c, d, e]" using assms(1) by (auto simp: length_Suc_conv numeral_eq_Suc)
  have q: "rot_vars (q + 4) (rmd_op f k X (rot_args q i s) v) = spec_step f k (X ! i) s (rot_vars q v)
    \<and> length (rmd_op f k X (rot_args q i s) v) = 5" if "q \<in> {0, 1, 2, 3, 4}" for q
    using that assms(2,3)
    by (elim insertE; simp add: v rmd_op_def rot_args_def rot_vars_def spec_step_def ROL_eq Let_def add.assoc)
  have "p mod 5 \<in> {0, 1, 2, 3, 4}" using mod_less_divisor [of 5 p] by auto
  moreover have "rot_args p i s = rot_args (p mod 5) i s" "rot_vars p w = rot_vars (p mod 5) w"
    "rot_vars (p + 4) w = rot_vars (p mod 5 + 4) w" for w
    by (simp_all add: rot_args_def rot_vars_def mod_simps)
  ultimately show ?thesis using q [of "p mod 5"] by simp
qed

definition sched :: "(nat \<Rightarrow> nat) \<Rightarrow> nat \<Rightarrow> step_args list" where
  "sched w rnd = map (\<lambda>j. rot_args (80 - j) (w j) (spec_rot rnd (w j))) [16 * rnd..<16 * rnd + 16]"

lemma schedules:
  "round1 = sched spec_word 0" "round2 = sched spec_word 1" "round3 = sched spec_word 2"
  "round4 = sched spec_word 3" "round5 = sched spec_word 4"
  "parallel1 = sched spec_word' 0" "parallel2 = sched spec_word' 1" "parallel3 = sched spec_word' 2"
  "parallel4 = sched spec_word' 3" "parallel5 = sched spec_word' 4"
  by code_simp+

lemma rot_vars_pred: "0 < p \<Longrightarrow> rot_vars (p + 4) v = rot_vars (p - 1) v"
proof -
  assume "0 < p"
  then obtain q where p: "p = Suc q" by (cases p) auto
  have "Suc q + 4 + n = (q + n) + 5" for n by simp
  then have e: "(Suc q + 4 + n) mod 5 = (q + n) mod 5" for n by (simp only: mod_add_self2)
  show ?thesis
    unfolding rot_vars_def p diff_Suc_1 e using e [of 0] by (simp only: add_0_right)
qed

lemma rots_bounded: "rnd < 5 \<Longrightarrow> i < 16 \<Longrightarrow> 0 < spec_rot rnd i \<and> spec_rot rnd i < 32"
proof -
  have "\<forall>rnd<5. \<forall>i<16. 0 < spec_rot rnd i \<and> spec_rot rnd i < 32"
    by code_simp
  then show "rnd < 5 \<Longrightarrow> i < 16 \<Longrightarrow> 0 < spec_rot rnd i \<and> spec_rot rnd i < 32" by blast
qed

lemma run_sched:
  assumes "length v = 5" "rnd < 5" "\<And>j. w j < 16"
  shows "rot_vars (80 - (16 * rnd + 16)) (run_round (rmd_op f k) X (sched w rnd) v)
      = foldl (\<lambda>t j. spec_step f k (X ! w j) (spec_rot rnd (w j)) t) (rot_vars (80 - 16 * rnd) v) [16 * rnd..<16 * rnd + 16]
    \<and> length (run_round (rmd_op f k) X (sched w rnd) v) = 5"
proof -
  have "rot_vars (80 - n) (foldl (\<lambda>v j. rmd_op f k X (rot_args (80 - j) (w j) (spec_rot rnd (w j))) v) v [m..<n])
      = foldl (\<lambda>t j. spec_step f k (X ! w j) (spec_rot rnd (w j)) t) (rot_vars (80 - m) v) [m..<n]
    \<and> length (foldl (\<lambda>v j. rmd_op f k X (rot_args (80 - j) (w j) (spec_rot rnd (w j))) v) v [m..<n]) = 5"
    if "m \<le> n" "n \<le> 80" for m n
    using that
  proof (induction n rule: dec_induct)
    case base
    then show ?case using assms(1) by simp
  next
    case (step n)
    let ?v = "foldl (\<lambda>v j. rmd_op f k X (rot_args (80 - j) (w j) (spec_rot rnd (w j))) v) v [m..<n]"
    have IH: "rot_vars (80 - n) ?v = foldl (\<lambda>t j. spec_step f k (X ! w j) (spec_rot rnd (w j)) t) (rot_vars (80 - m) v) [m..<n]"
      "length ?v = 5" using step by simp_all
    have "rot_vars (80 - Suc n) u = rot_vars (80 - n + 4) u" for u
      using rot_vars_pred [of "80 - n" u] step.prems by simp
    then show ?case
      using op_rot [OF IH(2), of "spec_rot rnd (w n)" "80 - n" f k X "w n"] IH(1) step.hyps
        rots_bounded [OF assms(2) assms(3) [of n]] by simp
  qed
  from this [of "16 * rnd" "16 * rnd + 16"] show ?thesis using assms(2)
    by (simp add: run_round_def sched_def foldl_map)
qed

lemma words_bounded: "spec_word j < 16" "spec_word' j < 16"
proof -
  have "i < 16 \<Longrightarrow> spec_rho i < 16" for i
  proof -
    assume "i < 16"
    then have "spec_rho i \<in> set [7, 4, 13, 1, 10, 6, 15, 3, 12, 0, 9, 5, 2, 14, 11, 8]"
      unfolding spec_rho_def by (intro nth_mem) simp
    then show ?thesis by auto
  qed
  then have "i < 16 \<Longrightarrow> (spec_rho ^^ n) i < 16" for i n by (induction n) auto
  then show "spec_word j < 16" "spec_word' j < 16" by (simp_all add: spec_word_def spec_word'_def)
qed

lemma upt_80: "[0..<80] = [16 * 0..<16 * 0 + 16] @ [16 * 1..<16 * 1 + 16] @ [16 * 2..<16 * 2 + 16] @
   [16 * 3..<16 * 3 + 16] @ [16 * 4..<16 * 4 + (16 :: nat)]"
  by code_simp

lemma foldl_round:
  "foldl (\<lambda>t j. g (j div 16) j t) t [16 * rnd..<16 * rnd + 16] = foldl (\<lambda>t j. g rnd j t) t [16 * rnd..<16 * rnd + 16]"
  by (rule foldl_cong) (auto simp: div_nat_eqI)

lemma lines_eq:
  assumes "length v = 5"
  shows "rot_vars 0 (run_round JJ X round5 (run_round II X round4 (run_round HH X round3
           (run_round GG X round2 (run_round FF X round1 v))))) = spec_left X (rot_vars 0 v)"
    and "rot_vars 0 (run_round FFF X parallel5 (run_round GGG X parallel4 (run_round HHH X parallel3
           (run_round III X parallel2 (run_round JJJ X parallel1 v))))) = spec_right X (rot_vars 0 v)"
proof -
  have e: "(80 + n) mod 5 = (0 + n) mod 5" for n :: nat by presburger
  have z: "rot_vars 80 w = rot_vars 0 w" for w
    unfolding rot_vars_def e using e [of 0] by (simp only: add_0_right)
  note m = FF_def GG_def HH_def II_def JJ_def FFF_def GGG_def HHH_def III_def JJJ_def
  note left = run_sched [where w = spec_word and X = X, OF _ _ words_bounded(1)]
  note right = run_sched [where w = spec_word' and X = X, OF _ _ words_bounded(2)]
  show "rot_vars 0 (run_round JJ X round5 (run_round II X round4 (run_round HH X round3
           (run_round GG X round2 (run_round FF X round1 v))))) = spec_left X (rot_vars 0 v)"
    unfolding spec_left_def upt_80 schedules m foldl_append
      foldl_round [of "\<lambda>q j. spec_step (spec_fs ! q) (spec_ks ! q) (X ! spec_word j) (spec_rot q (spec_word j))"]
    using assms left [of _ 0] left [of _ 1] left [of _ 2] left [of _ 3] left [of _ 4]
    by (simp add: z spec_fs_def spec_ks_def)
  show "rot_vars 0 (run_round FFF X parallel5 (run_round GGG X parallel4 (run_round HHH X parallel3
           (run_round III X parallel2 (run_round JJJ X parallel1 v))))) = spec_right X (rot_vars 0 v)"
    unfolding spec_right_def upt_80 schedules m foldl_append
      foldl_round [of "\<lambda>q j. spec_step (spec_fs ! (4 - q)) (spec_ks' ! q) (X ! spec_word' j) (spec_rot q (spec_word' j))"]
    using assms right [of _ 0] right [of _ 1] right [of _ 2] right [of _ 3] right [of _ 4]
    by (simp add: z spec_fs_def spec_ks'_def)
qed

lemma MDcompress_is_published':
  assumes "length buf = 5"
  shows "MDcompress buf X = spec_compress buf X"
proof -
  obtain a b c d e where v: "buf = [a, b, c, d, e]"
    using assms by (auto simp: length_Suc_conv numeral_eq_Suc)
  have z: "rot_vars 0 w = (w ! 0, w ! 1, w ! 2, w ! 3, w ! 4)" for w
    by (simp add: rot_vars_def numeral_2_eq_2)
  show ?thesis
    using lines_eq [OF assms, of X, symmetric]
    by (simp add: MDcompress_def spec_compress_def z Let_def add.commute add.left_commute v)
qed

text \<open>The 160 unrolled steps of \<open>MDcompress\<close> compute the published RIPEMD-160 compression
  function: two lines of five rounds whose word orders are powers of one permutation and whose
  variables rotate through five positions, combined into the chaining value.\<close>

theorem MDcompress_is_published:
  assumes "length buf = 5"
  shows "MDcompress buf X = spec_compress buf X"
  using assms by (rule MDcompress_is_published')

theorem MDcompress_is_published_witness:
  "MDcompress MDinit (replicate 16 0) = spec_compress MDinit (replicate 16 0)"
  by (rule MDcompress_is_published) (simp add: MDinit_def)

section \<open>Padding\<close>

text \<open>
  The padded message: the bit 1, zeros up to eight bytes before the end of a block, and the length
  in bits as a little-endian 64-bit number. A block is read as sixteen little-endian words.
\<close>

definition le_bytes :: "nat \<Rightarrow> nat \<Rightarrow> bytes" where
  "le_bytes k n = map (\<lambda>i. of_nat (n div 256 ^ i)) [0..<k]"

definition md_padded :: "bytes \<Rightarrow> bytes" where
  "md_padded m = m @ [0x80] @ replicate ((119 - length m mod 64) mod 64) 0 @ le_bytes 8 (8 * length m)"

definition block_words :: "bytes \<Rightarrow> word32 list" where
  "block_words b = map (\<lambda>i. BYTES_TO_DWORD (drop (4 * i) b)) [0..<16]"

fun md_blocks :: "nat \<Rightarrow> bytes \<Rightarrow> bytes list" where
  "md_blocks 0 m = []"
| "md_blocks (Suc n) m = take 64 m # md_blocks n (drop 64 m)"

definition spec_hash :: "bytes \<Rightarrow> bytes" where
  "spec_hash m =
     concat (map (\<lambda>w. le_bytes 4 (unat w))
       (foldl (\<lambda>h b. spec_compress h (block_words b)) MDinit (md_blocks (length (md_padded m) div 64) (md_padded m))))"

lemma block_words_nth: "k < 16 \<Longrightarrow> 64 \<le> length b \<Longrightarrow> block_words b ! k =
   (push_bit 24 (ucast (b ! (4 * k + 3))) OR push_bit 16 (ucast (b ! (4 * k + 2)))
     OR push_bit 8 (ucast (b ! (4 * k + 1))) OR ucast (b ! (4 * k)))"
  by (simp add: block_words_def BYTES_TO_DWORD_def)

abbreviation dword :: "byte \<Rightarrow> byte \<Rightarrow> byte \<Rightarrow> byte \<Rightarrow> word32" where
  "dword b3 b2 b1 b0 \<equiv> push_bit 24 (ucast b3) OR push_bit 16 (ucast b2) OR push_bit 8 (ucast b1) OR ucast b0"

lemma bit_byte_lt: "bit (x :: byte) n \<Longrightarrow> n < 8"
  using bit_imp_le_length [of x n] by simp

lemma dword_update:
  "dword b3 b2 b1 x = dword b3 b2 b1 0 XOR push_bit 0 (ucast x)"
  "dword b3 b2 x b0 = dword b3 b2 0 b0 XOR push_bit 8 (ucast x)"
  "dword b3 x b1 b0 = dword b3 0 b1 b0 XOR push_bit 16 (ucast x)"
  "dword x b2 b1 b0 = dword 0 b2 b1 b0 XOR push_bit 24 (ucast x)"
  by (rule bit_word_eqI; auto simp: bit_simps dest: bit_byte_lt)+

lemma block_words_update:
  assumes "i < 64" "length b = 64" "b ! i = 0"
  shows "block_words (b[i := x]) = (block_words b)[i div 4 := block_words b ! (i div 4) XOR push_bit (8 * (i mod 4)) (ucast x)]"
proof (rule nth_equalityI)
  fix k assume "k < length (block_words (b[i := x]))"
  then have k: "k < 16" by (simp add: block_words_def)
  show "block_words (b[i := x]) ! k
      = (block_words b)[i div 4 := block_words b ! (i div 4) XOR push_bit (8 * (i mod 4)) (ucast x)] ! k"
  proof (cases "k = i div 4")
    case False
    then have "i \<noteq> 4 * k" "i \<noteq> 4 * k + 1" "i \<noteq> 4 * k + 2" "i \<noteq> 4 * k + 3" by auto
    then show ?thesis using False k assms(2) by (simp add: block_words_nth)
  next
    case True
    obtain r where r: "i = 4 * k + r" "r < 4" "i div 4 = k" "i mod 4 = r"
      using True by (metis mult_div_mod_eq mod_less_divisor zero_less_numeral)
    have l: "k < length (block_words b)" using k by (simp add: block_words_def)
    have k4: "4 * k + 3 < 64" using k by simp
    have word: "block_words (b[i := x]) ! k = block_words b ! k XOR push_bit (8 * r) (ucast x)"
    proof -
      have lx: "64 \<le> length (b[i := x])" "64 \<le> length b" using assms(2) by simp_all
      consider "r = 0" | "r = 1" | "r = 2" | "r = 3" using r(2) by linarith
      then show ?thesis
      proof cases
        case 1
        then show ?thesis
          unfolding block_words_nth [OF k lx(1)] block_words_nth [OF k lx(2)]
          using k4 assms(2,3) r(1) dword_update(1) by simp
      next
        case 2
        then show ?thesis
          unfolding block_words_nth [OF k lx(1)] block_words_nth [OF k lx(2)]
          using k4 assms(2,3) r(1) dword_update(2) by simp
      next
        case 3
        then show ?thesis
          unfolding block_words_nth [OF k lx(1)] block_words_nth [OF k lx(2)]
          using k4 assms(2,3) r(1) dword_update(3) by simp
      next
        case 4
        then show ?thesis
          unfolding block_words_nth [OF k lx(1)] block_words_nth [OF k lx(2)]
          using k4 assms(2,3) r(1) dword_update(4) by simp
      qed
    qed
    show ?thesis using l by (simp add: r(3,4) word)
  qed
qed (simp add: block_words_def)

lemma zero_words: "block_words (replicate 64 0) = replicate 16 0"
proof (rule nth_equalityI)
  fix k assume "k < length (block_words (replicate 64 0))"
  then have k: "k < 16" by (simp add: block_words_def)
  have "replicate 64 (0 :: byte) ! j = 0" if "j < 64" for j using that by (rule nth_replicate)
  then show "block_words (replicate 64 0) ! k = replicate 16 0 ! k"
    using k by (subst block_words_nth) simp_all
qed (simp add: block_words_def)

lemma finish_words_eq:
  assumes "length r < 64" "unat (lswlen AND 63) = length r"
  shows "MDfinish_words r lswlen = block_words (r @ replicate (64 - length r) 0)"
proof -
  have "foldl (\<lambda>X i. X[i div 4 := X ! (i div 4) XOR push_bit (8 * (i mod 4)) (ucast (r ! i))]) (replicate 16 0) [0..<n]
      = block_words (take n r @ replicate (64 - n) 0)" if "n \<le> length r" for n
    using that
  proof (induction n)
    case 0
    show ?case using zero_words by simp
  next
    case (Suc n)
    have "take (Suc n) r @ replicate (64 - Suc n) 0 = (take n r @ replicate (64 - n) 0)[n := r ! n]"
      using Suc.prems assms(1) by (intro nth_equalityI) (auto simp: nth_append nth_list_update)
    moreover have "block_words ((take n r @ replicate (64 - n) 0)[n := r ! n])
        = (block_words (take n r @ replicate (64 - n) 0))[n div 4 :=
            block_words (take n r @ replicate (64 - n) 0) ! (n div 4) XOR push_bit (8 * (n mod 4)) (ucast (r ! n))]"
      using Suc.prems assms(1) by (intro block_words_update) (auto simp: nth_append)
    ultimately show ?case using Suc by simp
  qed
  then show ?thesis using assms(2) by (simp add: MDfinish_words_def)
qed

lemma length_spec_compress: "length (spec_compress h X) = 5"
  by (simp add: spec_compress_def Let_def split: prod.splits)

lemma length_block_words [simp]: "length (block_words b) = 16"
  by (simp add: block_words_def)

lemma chunks_eq:
  assumes "length h = 5"
  shows "rmd_chunks (length m) h m
    = (foldl (\<lambda>h b. spec_compress h (block_words b)) h (md_blocks (length m div 64) m), drop (length m div 64 * 64) m)"
  using assms
proof (induction "length m" arbitrary: h m rule: less_induct)
  case less
  show ?case
  proof (cases "64 \<le> length m")
    case False
    then show ?thesis by (subst rmd_chunks.simps) simp
  next
    case True
    then have n: "length m div 64 = Suc (length (drop 64 m) div 64)" by (simp add: le_div_geq)
    have "map (\<lambda>i. BYTES_TO_DWORD (drop (4 * i) m)) [0..<16] = block_words (take 64 m)"
      using True by (auto simp: block_words_def BYTES_TO_DWORD_def)
    then have "rmd_chunks (length m) h m
        = rmd_chunks (length (drop 64 m)) (spec_compress h (block_words (take 64 m))) (drop 64 m)"
      using True less.prems by (subst rmd_chunks.simps) (simp add: MDcompress_is_published')
    also have "\<dots> = (foldl (\<lambda>h b. spec_compress h (block_words b)) (spec_compress h (block_words (take 64 m)))
          (md_blocks (length (drop 64 m) div 64) (drop 64 m)), drop (length (drop 64 m) div 64 * 64) (drop 64 m))"
      using True by (intro less.hyps) (auto simp: length_spec_compress)
    finally show ?thesis unfolding n by (simp add: add.commute)
  qed
qed

lemma low_bits:
  assumes "n < 2 ^ 32"
  shows "unat ((of_nat n :: word32) AND 63) = n mod 64"
    and "unat (drop_bit 2 (of_nat n :: word32) AND 15) = (n mod 64) div 4"
    and "unat ((of_nat n :: word32) AND 3) = (n mod 64) mod 4"
proof -
  have m: "w AND 63 = take_bit 6 w" "w AND 15 = take_bit 4 w" "w AND 3 = take_bit 2 w" for w :: word32
    by (simp_all add: take_bit_eq_mask mask_eq_exp_minus_1)
  have u: "unat (of_nat n :: word32) = n" using assms by (simp add: unat_of_nat)
  show "unat ((of_nat n :: word32) AND 63) = n mod 64" unfolding m unsigned_take_bit_eq u by (simp add: take_bit_eq_mod)
  show "unat ((of_nat n :: word32) AND 3) = (n mod 64) mod 4"
    unfolding m unsigned_take_bit_eq u by (simp add: take_bit_eq_mod mod_mod_cancel)
  have d: "(n div 4) mod 16 = (n mod 64) div 4" using mod_mult2_eq [of n 4 16] by simp
  show "unat (drop_bit 2 (of_nat n :: word32) AND 15) = (n mod 64) div 4"
    unfolding m unsigned_take_bit_eq unsigned_drop_bit_eq u using assms d
    by (simp add: take_bit_eq_mod drop_bit_eq_div)
qed

lemma div_bit: "bit (k div 2 ^ m) i = bit k (m + i)" for k :: nat
  by (metis bit_drop_bit_eq comp_apply drop_bit_eq_div)

lemma dword_of_nat:
  "dword (of_nat (k div 2 ^ 24)) (of_nat (k div 2 ^ 16)) (of_nat (k div 2 ^ 8)) (of_nat k) = of_nat k"
proof (rule bit_word_eqI)
  fix j assume "j < LENGTH(32)"
  then have "j < 8 \<or> 8 \<le> j \<and> j < 16 \<or> 16 \<le> j \<and> j < 24 \<or> 24 \<le> j \<and> j < 32" by simp linarith
  then show "bit (dword (of_nat (k div 2 ^ 24)) (of_nat (k div 2 ^ 16)) (of_nat (k div 2 ^ 8)) (of_nat k)) j
      = bit (of_nat k :: word32) j"
    using div_bit [of k 8] div_bit [of k 16] div_bit [of k 24]
    by (elim disjE) (simp_all add: bit_simps, auto)
qed

lemma length_high: "n < 2 ^ 32 \<Longrightarrow> drop_bit 29 (of_nat n :: word32) = of_nat (8 * n div 2 ^ 32)"
proof -
  assume n: "n < 2 ^ 32"
  have "unat (of_nat n :: word32) = n" using n by (simp add: unat_of_nat)
  then have "unat (drop_bit 29 (of_nat n :: word32)) = n div 2 ^ 29"
    using n by (simp only: unsigned_drop_bit_eq) (simp add: drop_bit_eq_div take_bit_eq_mod)
  moreover have "unat (of_nat (8 * n div 2 ^ 32) :: word32) = n div 2 ^ 29"
    using n by (simp add: unat_of_nat)
  ultimately show ?thesis by (simp only: word_unat_eq_iff)
qed

lemma length_words:
  assumes "length P = 56" "n < 2 ^ 32" "length Z = 8"
  shows "(block_words (P @ Z))[14 := push_bit 3 (of_nat n), 15 := drop_bit 29 (of_nat n) OR push_bit 3 0]
    = block_words (P @ le_bytes 8 (8 * n))"
proof (rule nth_equalityI)
  fix k assume "k < length ((block_words (P @ Z))[14 := push_bit 3 (of_nat n), 15 := drop_bit 29 (of_nat n) OR push_bit 3 0])"
  then have k: "k < 16" by simp
  have le: "le_bytes 8 (8 * n) ! i = of_nat (8 * n div 256 ^ i)" if "i < 8" for i
    using that by (simp add: le_bytes_def)
  have l: "64 \<le> length (P @ le_bytes 8 (8 * n))" "64 \<le> length (P @ Z)" using assms by (simp_all add: le_bytes_def)
  consider "k < 14" | "k = 14" | "k = 15" using k by linarith
  then show "(block_words (P @ Z))[14 := push_bit 3 (of_nat n), 15 := drop_bit 29 (of_nat n) OR push_bit 3 0] ! k
      = block_words (P @ le_bytes 8 (8 * n)) ! k"
  proof cases
    case 1
    then show ?thesis using k l assms(1)
      by (simp add: block_words_nth nth_append)
  next
    case 2
    have "block_words (P @ le_bytes 8 (8 * n)) ! 14 = of_nat (8 * n)"
      using l assms(1) dword_of_nat [of "8 * n"] by (simp add: block_words_nth nth_append le)
    then show ?thesis using 2 by (simp add: push_bit_eq_mult)
  next
    case 3
    have "8 * n div 256 ^ (4 + i) = 8 * n div 2 ^ 32 div 256 ^ i" for i
      by (simp add: power_add div_mult2_eq)
    then have "block_words (P @ le_bytes 8 (8 * n)) ! 15 = of_nat (8 * n div 2 ^ 32)"
      using l assms(1) dword_of_nat [of "8 * n div 2 ^ 32"]
      by (simp add: block_words_nth nth_append le flip: div_mult2_eq)
    then show ?thesis using 3 length_high [OF assms(2)] by simp
  qed
qed simp

lemma finish_eq:
  assumes "length h = 5" "n < 2 ^ 32" "length r = n mod 64" "L = le_bytes 8 (8 * n)"
  shows "MDfinish h r (of_nat n) 0
    = foldl (\<lambda>h b. spec_compress h (block_words b)) h
        (if length r \<le> 55 then [r @ 0x80 # replicate (55 - length r) 0 @ L]
         else [r @ 0x80 # replicate (63 - length r) 0, replicate 56 0 @ L])"
proof -
  note lb = low_bits [OF assms(2)]
  have r: "length r < 64" using assms(3) by simp
  have "MDfinish_words r (of_nat n) = block_words (r @ replicate (64 - length r) 0)"
    using lb(1) assms(3) by (intro finish_words_eq [OF r]) simp
  moreover have "(r @ replicate (64 - length r) 0)[length r := 0x80] = r @ 0x80 # replicate (63 - length r) 0"
  proof -
    have "64 - length r = Suc (63 - length r)" using r by simp
    then show ?thesis by (simp add: list_update_append del: replicate_Suc) (simp only: replicate_Suc list_update_code)
  qed
  moreover have "push_bit (8 * j + 7) 1 = push_bit (8 * j) (ucast (0x80 :: byte) :: word32)" for j
    by (simp add: push_bit_push_bit [symmetric] del: push_bit_push_bit) (simp add: push_bit_eq_mult power_add)
  ultimately have one: "(MDfinish_words r (of_nat n))[length r div 4 := MDfinish_words r (of_nat n) ! (length r div 4)
        XOR push_bit (8 * (length r mod 4) + 7) 1] = block_words (r @ 0x80 # replicate (63 - length r) 0)"
    using r block_words_update [of "length r" "r @ replicate (64 - length r) 0" "0x80"]
    by (simp add: nth_append)
  show ?thesis
  proof (cases "length r \<le> 55")
    case True
    have "r @ 0x80 # replicate (63 - length r) 0 = (r @ 0x80 # replicate (55 - length r) 0) @ replicate 8 0"
      using True by (simp add: replicate_add [symmetric])
    then have "(block_words (r @ 0x80 # replicate (63 - length r) 0))[14 := push_bit 3 (of_nat n), 15 := drop_bit 29 (of_nat n) OR push_bit 3 0]
        = block_words (r @ 0x80 # replicate (55 - length r) 0 @ L)"
      using length_words [of "r @ 0x80 # replicate (55 - length r) 0" n "replicate 8 0"] assms(2,4) True
      by simp
    then show ?thesis using True one lb assms(1,3)
      by (simp add: MDfinish_def Let_def MDcompress_is_published')
  next
    case False
    have "(replicate 16 (0 :: word32))[14 := push_bit 3 (of_nat n), 15 := drop_bit 29 (of_nat n) OR push_bit 3 0]
        = block_words (replicate 56 0 @ L)"
      using length_words [of "replicate 56 0" n "replicate 8 0"] assms(2,4)
      by (simp add: zero_words [symmetric] replicate_add [symmetric])
    then show ?thesis using False one lb assms(1,3)
      by (simp add: MDfinish_def Let_def MDcompress_is_published' length_spec_compress)
  qed
qed

lemma md_blocks_split:
  "q * 64 \<le> length m \<Longrightarrow> md_blocks (q + k) (m @ f) = md_blocks q m @ md_blocks k (drop (q * 64) m @ f)"
proof (induction q arbitrary: m)
  case (Suc q)
  then have "64 \<le> length m" by simp
  then show ?case using Suc.IH [of "drop 64 m"] Suc.prems by (simp add: add.commute)
qed simp

lemma output_bytes:
  "[ucast w, ucast (drop_bit 8 w), ucast (drop_bit 16 w), ucast (drop_bit 24 w)] = le_bytes 4 (unat (w :: word32))"
proof -
  have d: "ucast (drop_bit k w) = (of_nat (unat w div 2 ^ k) :: byte)" for k
  proof (rule bit_word_eqI)
    fix j assume "j < LENGTH(8)"
    then show "bit (ucast (drop_bit k w) :: byte) j = bit (of_nat (unat w div 2 ^ k) :: byte) j"
      by (simp add: bit_simps div_bit bit_unsigned_iff bit_imp_le_length)

  qed
  have "[0..<4] = [0, 1, 2, 3 :: nat]" by code_simp
  then show ?thesis using d [of 8] d [of 16] d [of 24] d [of 0]
    by (simp add: le_bytes_def)
qed



end
