(* ===== verification/Base58.thy ===== *)
theory Base58
  imports Wallet_Prelude
begin

text \<open>
  libdevcore/base58.cpp: the base-58 text form of addresses and its checksummed variant. A
  C string is the list of its characters up to the terminating NUL; the work buffer is a list of
  digits, most significant first as in the code, and the loop over \<open>rbegin()\<close> runs on the
  reversed buffer. A failing \<open>assert\<close> is \<open>Inl AssertFailed\<close>; both functions are proved never to
  reach one. SHA-256 comes from libsecp256k1, which the repository does not contain: it is the
  parameter \<open>sha256\<close>, of which only the digest length is used. Lengths are below the range of
  \<open>int\<close>, as for any address.
\<close>

section \<open>Tables\<close>

definition pszBase58 :: string where
  "pszBase58 = ''123456789ABCDEFGHJKLMNPQRSTUVWXYZabcdefghijkmnopqrstuvwxyz''"

definition mapBase58 :: "int list" where
  "mapBase58 =
    replicate 48 (- 1) @
    [-1, 0, 1, 2, 3, 4, 5, 6,  7, 8,-1,-1,-1,-1,-1,-1] @
    [-1, 9,10,11,12,13,14,15, 16,-1,17,18,19,20,21,-1] @
    [22,23,24,25,26,27,28,29, 30,31,32,-1,-1,-1,-1,-1] @
    [-1,33,34,35,36,37,38,39, 40,41,42,43,-1,44,45,46] @
    [47,48,49,50,51,52,53,54, 55,56,57,-1,-1,-1,-1,-1] @
    replicate 128 (- 1)"

text \<open>\<open>isspace\<close> of the C library in the C locale.\<close>

definition isspace :: "char \<Rightarrow> bool" where
  "isspace c \<longleftrightarrow> c \<in> set [CHR 0x20, CHR 0x09, CHR 0x0A, CHR 0x0B, CHR 0x0C, CHR 0x0D]"

section \<open>The digit loop\<close>

text \<open>
  \<open>mul_add m b carry i len ds\<close> is the inner \<open>for\<close> loop: "ds = ds * m + carry" on base-\<open>b\<close>
  digits, least significant first; it returns the carry left over, the number of digits visited
  and the new digits.
\<close>

fun mul_add :: "nat \<Rightarrow> nat \<Rightarrow> nat \<Rightarrow> nat \<Rightarrow> nat \<Rightarrow> nat list \<Rightarrow> nat \<times> nat \<times> nat list" where
  "mul_add m b carry i len [] = (carry, i, [])"
| "mul_add m b carry i len (it # its) =
     (if carry \<noteq> 0 \<or> i < len then
        let c = carry + m * it;
            (carry', i', its') = mul_add m b (c div b) (Suc i) len its
        in (carry', i', (c mod b) # its')
      else (carry, i, it # its))"

section \<open>Decoding\<close>

fun decode_chars :: "string \<Rightarrow> nat \<Rightarrow> nat list \<Rightarrow> (nat \<times> nat list \<times> string) option result" where
  "decode_chars [] len b256 = Inr (Some (len, b256, []))"
| "decode_chars (c # psz) len b256 =
     (if isspace c then Inr (Some (len, b256, c # psz))
      else
        let carry = mapBase58 ! unat (byte_of_char c) in
        if carry = - 1 then Inr None
        else
          let (carry', i, its) = mul_add 58 256 (nat carry) 0 len (rev b256) in
          if carry' \<noteq> 0 then Inl AssertFailed
          else decode_chars psz i (rev its))"

definition DecodeBase58_cstr :: "string \<Rightarrow> bytes option result" where
  "DecodeBase58_cstr psz =
     (let psz = dropWhile isspace psz;
          zeroes = length (takeWhile (\<lambda>c. c = CHR ''1'') psz);
          psz = dropWhile (\<lambda>c. c = CHR ''1'') psz;
          size = length psz * 733 div 1000 + 1
      in rbind (decode_chars psz 0 (replicate size 0)) (\<lambda>r.
         case r of
           None \<Rightarrow> Inr None
         | Some (len, b256, psz) \<Rightarrow>
             if dropWhile isspace psz \<noteq> [] then Inr None
             else
               let it = dropWhile (\<lambda>d. d = 0) (drop (size - len) b256)
               in Inr (Some (replicate zeroes 0 @ map of_nat it))))"

text \<open>The \<open>std::string\<close> overload passes \<open>str.c_str()\<close>: reading stops at an embedded NUL.\<close>

definition DecodeBase58 :: "string \<Rightarrow> bytes option result" where
  "DecodeBase58 str = DecodeBase58_cstr (takeWhile (\<lambda>c. c \<noteq> CHR 0x00) str)"

section \<open>Encoding\<close>

fun encode_bytes :: "bytes \<Rightarrow> nat \<Rightarrow> nat list \<Rightarrow> (nat \<times> nat list) result" where
  "encode_bytes [] len b58 = Inr (len, b58)"
| "encode_bytes (p # ps) len b58 =
     (let (carry, i, its) = mul_add 256 58 (unat p) 0 len (rev b58) in
      if carry \<noteq> 0 then Inl AssertFailed
      else encode_bytes ps i (rev its))"

definition EncodeBase58 :: "bytes \<Rightarrow> string result" where
  "EncodeBase58 vch =
     (let zeroes = length (takeWhile (\<lambda>p. p = 0) vch);
          p = dropWhile (\<lambda>p. p = 0) vch;
          size = length p * 138 div 100 + 1
      in rbind (encode_bytes p 0 (replicate size 0)) (\<lambda>(len, b58).
         let it = dropWhile (\<lambda>d. d = 0) (drop (size - len) b58)
         in Inr (replicate zeroes (CHR ''1'') @ map (\<lambda>d. pszBase58 ! d) it)))"

section \<open>The checksummed form\<close>

definition EncodeBase58Check :: "(bytes \<Rightarrow> bytes) \<Rightarrow> bytes \<Rightarrow> string result" where
  "EncodeBase58Check sha256 vchIn =
     (let hash = sha256 (sha256 vchIn)
      in EncodeBase58 (vchIn @ take 4 hash))"

text \<open>The result is the returned flag and the final content of \<open>vchRet\<close>.\<close>

definition DecodeBase58Check :: "(bytes \<Rightarrow> bytes) \<Rightarrow> string \<Rightarrow> (bool \<times> bytes) result" where
  "DecodeBase58Check sha256 psz =
     rbind (DecodeBase58 psz) (\<lambda>r.
       case r of
         None \<Rightarrow> Inr (False, [])
       | Some vchRet \<Rightarrow>
           if length vchRet < 4 then Inr (False, [])
           else
             let check = take (length vchRet - 4) vchRet;
                 hash = sha256 (sha256 check)
             in if take 4 hash \<noteq> drop (length vchRet - 4) vchRet then Inr (False, [])
                else Inr (True, take (length vchRet - 4) vchRet))"

section \<open>The digit loop computes a multiply-add\<close>

definition digits_le :: "nat \<Rightarrow> nat list \<Rightarrow> nat" where
  "digits_le b ds = digits_val b (rev ds)"

lemma digits_le_Nil [simp]: "digits_le b [] = 0"
  by (simp add: digits_le_def)

lemma digits_le_Cons [simp]: "digits_le b (d # ds) = d + b * digits_le b ds"
  by (simp add: digits_le_def algebra_simps)

lemma digits_le_zero: "\<forall>d\<in>set ds. d = 0 \<Longrightarrow> digits_le b ds = 0"
  by (induction ds) auto

lemma mul_add_spec:
  assumes "mul_add m b carry i len ds = (c', i', ds')" "0 < b"
    and "\<forall>d\<in>set (drop (len - i) ds). d = 0" "\<forall>d\<in>set ds. d < b"
  shows "length ds' = length ds \<and> digits_le b ds' + c' * b ^ length ds = m * digits_le b ds + carry
    \<and> i \<le> i' \<and> i' \<le> i + length ds \<and> (\<forall>d\<in>set (drop (i' - i) ds'). d = 0) \<and> (\<forall>d\<in>set ds'. d < b)"
  using assms
proof (induction m b carry i len ds arbitrary: c' i' ds' rule: mul_add.induct)
  case (1 m b carry i len)
  then show ?case by auto
next
  case (2 m b carry i len it its)
  show ?case
  proof (cases "carry \<noteq> 0 \<or> i < len")
    case False
    then have z: "\<forall>d\<in>set (it # its). d = 0" using 2(4) by simp
    have "c' = carry" "i' = i" "ds' = it # its" using 2(2) False by auto
    then show ?thesis using z False 2(3,5) digits_le_zero [OF z, of b] by simp
  next
    case True
    let ?c = "carry + m * it"
    obtain cc ii dd where r: "mul_add m b (?c div b) (Suc i) len its = (cc, ii, dd)"
      by (cases "mul_add m b (?c div b) (Suc i) len its") auto
    have eq: "c' = cc" "i' = ii" "ds' = (?c mod b) # dd"
      using 2(2) r True by (auto simp: Let_def)
    have "\<forall>d\<in>set (drop (len - Suc i) its). d = 0"
    proof (cases "i < len")
      case True
      then have "len - i = Suc (len - Suc i)" by simp
      then show ?thesis using 2(4) by simp
    next
      case False
      then show ?thesis using 2(4) by simp
    qed
    with 2(1) [OF True refl r 2(3)] 2(5)
    have IH: "length dd = length its" "digits_le b dd + cc * b ^ length its = m * digits_le b its + ?c div b"
      "Suc i \<le> ii" "ii \<le> Suc i + length its" "\<forall>d\<in>set (drop (ii - Suc i) dd). d = 0" "\<forall>d\<in>set dd. d < b"
      by auto
    have "digits_le b ds' + c' * b ^ length (it # its)
        = ?c mod b + b * (digits_le b dd + cc * b ^ length its)"
      by (simp add: eq algebra_simps)
    also have "\<dots> = ?c mod b + b * (?c div b) + b * (m * digits_le b its)"
      by (simp only: IH(2)) (simp add: algebra_simps)
    also have "\<dots> = m * digits_le b (it # its) + carry"
      by (simp add: algebra_simps)
    finally have v: "digits_le b ds' + c' * b ^ length (it # its) = m * digits_le b (it # its) + carry" .
    have "drop (ii - i) ds' = drop (ii - Suc i) dd"
      using IH(3) by (simp add: eq drop_Cons' )
    with v IH 2(3) show ?thesis by (auto simp: eq)
  qed
qed

text \<open>
  One digit of the outer loop, on the buffer in the code's order: the buffer keeps its length,
  its digits stay in range, everything left of the last \<open>i\<close> digits is zero, and no carry is left
  as long as the new value fits.
\<close>

definition buf_ok :: "nat \<Rightarrow> nat \<Rightarrow> nat list \<Rightarrow> bool" where
  "buf_ok b len buf \<longleftrightarrow> len \<le> length buf \<and> (\<forall>d\<in>set (take (length buf - len) buf). d = 0)
     \<and> (\<forall>d\<in>set buf. d < b)"

lemma mul_add_buf:
  assumes "mul_add m b carry 0 len (rev buf) = (c', i, its)" "0 < b" "buf_ok b len buf"
    and "digits_val b buf * m + carry < b ^ length buf"
  shows "c' = 0 \<and> length its = length buf \<and> buf_ok b i (rev its)
    \<and> digits_val b (rev its) = digits_val b buf * m + carry"
proof -
  have "\<forall>d\<in>set (drop (len - 0) (rev buf)). d = 0"
    using assms(3) by (simp add: buf_ok_def drop_rev)
  moreover have "\<forall>d\<in>set (rev buf). d < b" using assms(3) by (simp add: buf_ok_def)
  ultimately have s: "length its = length buf"
    "digits_val b (rev its) + c' * b ^ length buf = digits_val b buf * m + carry"
    "i \<le> length buf" "\<forall>d\<in>set (drop i its). d = 0" "\<forall>d\<in>set its. d < b"
    using mul_add_spec [OF assms(1,2)] by (auto simp: digits_le_def mult.commute)
  have "c' = 0"
  proof (rule ccontr)
    assume "c' \<noteq> 0"
    then have "1 * b ^ length buf \<le> c' * b ^ length buf" by (intro mult_le_mono1) simp
    with s(2) assms(4) show False by linarith
  qed
  with s show ?thesis by (simp add: buf_ok_def take_rev)
qed

section \<open>The outer loops\<close>

lemma horner_less: "0 < K \<Longrightarrow> v * K ^ n + r < B \<Longrightarrow> v < (B :: nat)"
proof -
  assume "0 < K" and "v * K ^ n + r < B"
  then have "v * 1 \<le> v * K ^ n" by (intro mult_le_mono2) simp
  with \<open>v * K ^ n + r < B\<close> show "v < B" by linarith
qed

lemma encode_bytes_spec:
  assumes "buf_ok 58 len buf"
    and "digits_val 58 buf * 256 ^ length ps + digits_val 256 (map unat ps) < 58 ^ length buf"
  shows "\<exists>len' b. encode_bytes ps len buf = Inr (len', b) \<and> length b = length buf \<and> buf_ok 58 len' b
    \<and> digits_val 58 b = digits_val 58 buf * 256 ^ length ps + digits_val 256 (map unat ps)"
  using assms
proof (induction ps len buf rule: encode_bytes.induct)
  case (1 len b58)
  then show ?case by simp
next
  case (2 p ps len buf)
  let ?v = "digits_val 58 buf * 256 + unat p"
  have split: "digits_val 58 buf * 256 ^ length (p # ps) + digits_val 256 (map unat (p # ps))
      = ?v * 256 ^ length ps + digits_val 256 (map unat ps)"
    by (simp add: digits_val_Cons algebra_simps)
  have fits: "?v < 58 ^ length buf"
    using 2(3) unfolding split by (rule horner_less [rotated]) simp
  obtain c i its where m: "mul_add 256 58 (unat p) 0 len (rev buf) = (c, i, its)"
    by (cases "mul_add 256 58 (unat p) 0 len (rev buf)") auto
  from mul_add_buf [OF m _ 2(2) fits]
  have c: "c = 0" "length its = length buf" "buf_ok 58 i (rev its)" "digits_val 58 (rev its) = ?v"
    by auto
  then have "digits_val 58 (rev its) * 256 ^ length ps + digits_val 256 (map unat ps) < 58 ^ length (rev its)"
    using 2(3) split by simp
  from 2(1) [OF m [symmetric] refl refl, OF _ c(3) this] c split m show ?case
    by simp
qed

definition b58_valid :: "char \<Rightarrow> bool" where
  "b58_valid c \<longleftrightarrow> mapBase58 ! unat (byte_of_char c) \<noteq> - 1"

definition b58_code :: "char \<Rightarrow> nat" where
  "b58_code c = nat (mapBase58 ! unat (byte_of_char c))"

lemma decode_chars_spec:
  assumes "buf_ok 256 len buf" "\<forall>c. b58_code c < 58"
    and "body = takeWhile (\<lambda>c. \<not> isspace c) psz"
    and "digits_val 256 buf * 58 ^ length body + digits_val 58 (map b58_code body) < 256 ^ length buf"
  shows "if list_all b58_valid body then
      \<exists>len' b. decode_chars psz len buf = Inr (Some (len', b, dropWhile (\<lambda>c. \<not> isspace c) psz))
        \<and> length b = length buf \<and> buf_ok 256 len' b
        \<and> digits_val 256 b = digits_val 256 buf * 58 ^ length body + digits_val 58 (map b58_code body)
    else decode_chars psz len buf = Inr None"
  using assms
proof (induction psz len buf arbitrary: body rule: decode_chars.induct)
  case (1 len b)
  then show ?case by simp
next
  case (2 c psz len buf)
  show ?case
  proof (cases "isspace c")
    case True
    then show ?thesis using 2 by simp
  next
    case False
    let ?bd = "takeWhile (\<lambda>c. \<not> isspace c) psz"
    let ?v = "digits_val 256 buf * 58 + b58_code c"
    have body: "body = c # ?bd" using 2(4) False by simp
    show ?thesis
    proof (cases "b58_valid c")
      case False
      then show ?thesis using \<open>\<not> isspace c\<close> by (simp add: body b58_valid_def)
    next
      case True
      have split: "digits_val 256 buf * 58 ^ length body + digits_val 58 (map b58_code body)
          = ?v * 58 ^ length ?bd + digits_val 58 (map b58_code ?bd)"
        by (simp add: body digits_val_Cons algebra_simps)
      have fits: "?v < 256 ^ length buf"
        using 2(5) unfolding split by (rule horner_less [rotated]) simp
      let ?carry = "mapBase58 ! unat (byte_of_char c)"
      obtain c' i its where m: "mul_add 58 256 (nat ?carry) 0 len (rev buf) = (c', i, its)"
        by (cases "mul_add 58 256 (nat ?carry) 0 len (rev buf)") auto
      from mul_add_buf [OF m _ 2(2)] fits
      have r: "c' = 0" "length its = length buf" "buf_ok 256 i (rev its)" "digits_val 256 (rev its) = ?v"
        by (auto simp: b58_code_def)
      then have fit': "digits_val 256 (rev its) * 58 ^ length ?bd + digits_val 58 (map b58_code ?bd)
          < 256 ^ length (rev its)"
        using 2(5) split by simp
      have nc: "?carry \<noteq> - 1" using True by (simp add: b58_valid_def)
      from 2(1) [OF False refl nc m [symmetric] refl refl _ r(3) 2(3) refl fit'] r
      have IH: "if list_all b58_valid ?bd then
          \<exists>len' b. decode_chars psz i (rev its) = Inr (Some (len', b, dropWhile (\<lambda>c. \<not> isspace c) psz))
            \<and> length b = length buf \<and> buf_ok 256 len' b
            \<and> digits_val 256 b = ?v * 58 ^ length ?bd + digits_val 58 (map b58_code ?bd)
        else decode_chars psz i (rev its) = Inr None"
        by (auto split: if_splits)
      have "decode_chars (c # psz) len buf = decode_chars psz i (rev its)"
        using False True m r by (simp add: b58_valid_def Let_def)
      with IH True False split show ?thesis by (simp add: body)
    qed
  qed
qed

section \<open>The buffers are large enough\<close>

lemma pow58_138: "(256 :: nat) ^ 100 \<le> 58 ^ 138"
  by simp

lemma pow58_733: "(58 :: nat) ^ 1000 \<le> 256 ^ 733"
proof -
  have "(58 ^ 71) ^ 1000 \<le> ((256 :: nat) ^ 52) ^ 1000"
    by (rule power_mono) simp_all
  also have "\<dots> = 256 ^ (52 * 1000)" by (rule power_mult [symmetric])
  also have "\<dots> \<le> 256 ^ (733 * 71)" by (rule power_increasing) simp_all
  also have "\<dots> = (256 ^ 733) ^ 71" by (rule power_mult)
  finally have "((58 :: nat) ^ 1000) ^ 71 \<le> (256 ^ 733) ^ 71"
    by (simp only: power_mult [symmetric] mult.commute [of 71])
  then show ?thesis by (rule power_le_imp_le_base [where n = 70, simplified]) simp
qed

lemma buffer_fits:
  fixes a b p q n :: nat
  assumes "a ^ q \<le> b ^ p" "1 < b" "0 < q"
  shows "a ^ n < b ^ (n * p div q + 1)"
proof -
  have "n * p < (n * p div q + 1) * q"
    using assms(3) by (metis Suc_eq_plus1 add.commute div_less_iff_less_mult less_add_one mult.commute)
  have "(a ^ n) ^ q = (a ^ q) ^ n" by (simp flip: power_mult add: mult.commute)
  also have "\<dots> \<le> (b ^ p) ^ n" using assms(1) by (rule power_mono) simp
  also have "\<dots> = b ^ (n * p)" by (simp flip: power_mult add: mult.commute)
  also have "\<dots> < b ^ ((n * p div q + 1) * q)"
    using \<open>n * p < _\<close> assms(2) by (rule power_strict_increasing)
  also have "\<dots> = (b ^ (n * p div q + 1)) ^ q" by (rule power_mult)
  finally show ?thesis by (rule power_less_imp_less_base) simp
qed

lemma encode_fits: "256 ^ n < (58 :: nat) ^ (n * 138 div 100 + 1)"
  by (rule buffer_fits [OF pow58_138]) simp_all

lemma decode_fits: "58 ^ n < (256 :: nat) ^ (n * 733 div 1000 + 1)"
  by (rule buffer_fits [OF pow58_733]) simp_all

lemma buf_ok_zeros [simp]: "0 < b \<Longrightarrow> buf_ok b 0 (replicate n 0)"
  by (auto simp: buf_ok_def)

lemma digits_val_replicate [simp]: "digits_val b (replicate n 0) = 0"
  using digits_val_zeros [of b n "[]"] by simp

lemma encode_bytes_total:
  "digits_val 256 (map unat ps) < 58 ^ sz \<Longrightarrow>
   \<exists>len b. encode_bytes ps 0 (replicate sz 0) = Inr (len, b) \<and> length b = sz \<and> buf_ok 58 len b
     \<and> digits_val 58 b = digits_val 256 (map unat ps)"
  using encode_bytes_spec [of 0 "replicate sz 0" ps] by simp

section \<open>Base 58 as positional notation\<close>

text \<open>The characters of the alphabet and the codes of the table are inverse to each other.\<close>

lemmas b58_eval = b58_code_def b58_valid_def mapBase58_def pszBase58_def byte_of_char_def
  isspace_def nth_append

lemma alphabet_table:
  "d < 58 \<Longrightarrow> b58_code (pszBase58 ! d) = d \<and> b58_valid (pszBase58 ! d) \<and> \<not> isspace (pszBase58 ! d)
     \<and> pszBase58 ! d \<noteq> CHR 0x00 \<and> (pszBase58 ! d = CHR ''1'' \<longleftrightarrow> d = 0)"
proof -
  have "list_all (\<lambda>d. b58_code (pszBase58 ! d) = d \<and> b58_valid (pszBase58 ! d)
     \<and> \<not> isspace (pszBase58 ! d) \<and> pszBase58 ! d \<noteq> CHR 0x00
     \<and> (pszBase58 ! d = CHR ''1'' \<longleftrightarrow> d = 0)) [0..<58]"
    by (simp add: b58_eval upt_rec)
  then show "d < 58 \<Longrightarrow> ?thesis" unfolding list_all_iff set_upt by (metis atLeastLessThan_iff le0)
qed

lemma table_alphabet:
  "b58_code c < 58 \<and> (b58_valid c \<longrightarrow> pszBase58 ! b58_code c = c)"
proof -
  have mid: "list_all (\<lambda>n. mapBase58 ! n = - 1 \<or>
      nat (mapBase58 ! n) < 58 \<and> of_char (pszBase58 ! nat (mapBase58 ! n)) = n) [48..<128]"
    by (simp add: b58_eval upt_rec)
  then have mid': "48 \<le> n \<Longrightarrow> n < 128 \<Longrightarrow> mapBase58 ! n = - 1 \<or>
      nat (mapBase58 ! n) < 58 \<and> of_char (pszBase58 ! nat (mapBase58 ! n)) = n" for n
    unfolding list_all_iff set_upt by (metis atLeastLessThan_iff)
  have out: "n < 48 \<or> 128 \<le> n \<Longrightarrow> n < 256 \<Longrightarrow> mapBase58 ! n = - 1" for n
    by (auto simp: mapBase58_def nth_append)
  let ?n = "unat (byte_of_char c)"
  have "mapBase58 ! ?n = - 1 \<or> nat (mapBase58 ! ?n) < 58 \<and> of_char (pszBase58 ! nat (mapBase58 ! ?n)) = ?n"
    using mid' [of ?n] out [of ?n] unat_byte_lt [of "byte_of_char c"] by linarith
  then show ?thesis
    by (auto simp: b58_code_def b58_valid_def unat_byte_of_char)
qed

lemma pszBase58_0: "pszBase58 ! 0 = CHR ''1''"
  by (simp add: pszBase58_def)

lemma drop_buf:
  assumes "buf_ok b len buf"
  shows "dropWhile (\<lambda>d. d = 0) (drop (length buf - len) buf) = dropWhile (\<lambda>d. d = 0) buf"
proof -
  have "dropWhile (\<lambda>d. d = 0) (take (length buf - len) buf @ drop (length buf - len) buf)
      = dropWhile (\<lambda>d. d = 0) (drop (length buf - len) buf)"
    by (rule dropWhile_append2) (use assms in \<open>auto simp: buf_ok_def\<close>)
  then show ?thesis by simp
qed

text \<open>
  \<open>strip_val b ds v\<close>: \<open>ds\<close> is the canonical base-\<open>b\<close> notation of \<open>v\<close>.
\<close>

definition canonical :: "nat \<Rightarrow> nat list \<Rightarrow> nat \<Rightarrow> bool" where
  "canonical b ds v \<longleftrightarrow> (\<forall>d\<in>set ds. d < b) \<and> (ds \<noteq> [] \<longrightarrow> hd ds \<noteq> 0) \<and> digits_val b ds = v"

lemma canonical_unique: "1 < b \<Longrightarrow> canonical b xs v \<Longrightarrow> canonical b ys v \<Longrightarrow> xs = ys"
  unfolding canonical_def by (rule digits_val_unique) auto

lemma digits_val_dropWhile: "digits_val b (dropWhile (\<lambda>d. d = 0) ds) = digits_val b ds"
  by (metis split_leading digits_val_zeros)

lemma canonical_dropWhile:
  "\<forall>d\<in>set ds. d < b \<Longrightarrow> canonical b (dropWhile (\<lambda>d. d = 0) ds) (digits_val b ds)"
  unfolding canonical_def using hd_dropWhile_neq [of 0 ds]
  by (auto simp: digits_val_dropWhile dest: set_dropWhileD)

text \<open>\<open>EncodeBase58\<close> writes one \<open>1\<close> per leading zero byte and then the canonical base-58
numeral of the remaining bytes read in base 256; its assertion never fails.\<close>

lemma EncodeBase58_total:
  "\<exists>ds. EncodeBase58 bs = Inr (replicate (length (takeWhile (\<lambda>p. p = 0) bs)) (CHR ''1'')
        @ map (\<lambda>d. pszBase58 ! d) ds)
     \<and> canonical 58 ds (digits_val 256 (map unat (dropWhile (\<lambda>p. p = 0) bs)))"
proof -
  let ?p = "dropWhile (\<lambda>p. p = 0) bs"
  let ?size = "length ?p * 138 div 100 + 1"
  have "digits_val 256 (map unat ?p) < 256 ^ length ?p"
    using digits_val_bound [of "map unat ?p" 256] by simp
  also have "\<dots> < 58 ^ ?size" by (rule encode_fits)
  finally obtain len b where r: "encode_bytes ?p 0 (replicate ?size 0) = Inr (len, b)"
      "length b = ?size" "buf_ok 58 len b" "digits_val 58 b = digits_val 256 (map unat ?p)"
    using encode_bytes_total by blast
  let ?ds = "dropWhile (\<lambda>d. d = 0) b"
  have "canonical 58 ?ds (digits_val 256 (map unat ?p))"
    using canonical_dropWhile [of b 58] r by (simp add: buf_ok_def)
  moreover have "EncodeBase58 bs = Inr (replicate (length (takeWhile (\<lambda>p. p = 0) bs)) (CHR ''1'')
        @ map (\<lambda>d. pszBase58 ! d) ?ds)"
    using r drop_buf [OF r(3)] by (simp add: EncodeBase58_def)
  ultimately show ?thesis by blast
qed

text \<open>
  Decoding, in the same terms. \<open>b58_trim\<close> is the numeral between the surrounding spaces.
\<close>

lemma map_unat_of_nat: "\<forall>d\<in>set ds. d < 256 \<Longrightarrow> map unat (map (of_nat :: nat \<Rightarrow> byte) ds) = ds"
  by (induction ds) auto

lemma DecodeBase58_cstr_eq:
  assumes "psz = dropWhile isspace s" "ones = takeWhile (\<lambda>c. c = CHR ''1'') psz"
    and "rest = dropWhile (\<lambda>c. c = CHR ''1'') psz"
    and "body = takeWhile (\<lambda>c. \<not> isspace c) rest" "tail = dropWhile (\<lambda>c. \<not> isspace c) rest"
  shows "if list_all b58_valid body \<and> list_all isspace tail
    then \<exists>r. DecodeBase58_cstr s = Inr (Some (replicate (length ones) 0 @ r))
      \<and> canonical 256 (map unat r) (digits_val 58 (map b58_code body))
    else DecodeBase58_cstr s = Inr None"
proof -
  define sz where "sz = length rest * 733 div 1000 + 1"
  have dec: "DecodeBase58_cstr s = rbind (decode_chars rest 0 (replicate sz 0)) (\<lambda>r.
      case r of None \<Rightarrow> Inr None
      | Some (len, b256, psz) \<Rightarrow>
          if dropWhile isspace psz \<noteq> [] then Inr None
          else let it = dropWhile (\<lambda>d. d = 0) (drop (sz - len) b256)
            in Inr (Some (replicate (length ones) 0 @ map of_nat it)))"
    unfolding DecodeBase58_cstr_def Let_def sz_def assms(1-3) ..
  have codes: "\<forall>c. b58_code c < 58" using table_alphabet by blast
  have "length body \<le> length rest" using assms(4) by (simp add: length_takeWhile_le)
  have "digits_val 58 (map b58_code body) < 58 ^ length body"
    using digits_val_bound [of "map b58_code body" 58] codes by simp
  also have "\<dots> \<le> 58 ^ length rest" using \<open>length body \<le> _\<close> by (rule power_increasing) simp
  also have "\<dots> < 256 ^ sz" unfolding sz_def by (rule decode_fits)
  finally have fits: "digits_val 256 (replicate sz 0) * 58 ^ length body
      + digits_val 58 (map b58_code body) < 256 ^ length (replicate sz (0 :: nat))"
    by (simp only: digits_val_replicate length_replicate mult_0 add_0)
  note spec = decode_chars_spec [OF _ codes assms(4) fits, of 0]
  have sp: "dropWhile isspace tail \<noteq> [] \<longleftrightarrow> \<not> list_all isspace tail"
    by (simp add: list_all_iff dropWhile_eq_Nil_conv)
  show ?thesis
  proof (cases "list_all b58_valid body")
    case False
    with spec show ?thesis by (simp add: dec)
  next
    case True
    with spec obtain len b where r: "decode_chars rest 0 (replicate sz 0) = Inr (Some (len, b, tail))"
      "length b = sz" "buf_ok 256 len b" "digits_val 256 b = digits_val 58 (map b58_code body)"
      by (auto simp: assms(5))
    let ?it = "dropWhile (\<lambda>d. d = 0) b"
    have "\<forall>d\<in>set b. d < 256" using r(3) by (simp add: buf_ok_def)
    then have can: "canonical 256 ?it (digits_val 58 (map b58_code body))"
      using canonical_dropWhile [of b 256] r(4) by simp
    then have "map unat (map (of_nat :: nat \<Rightarrow> byte) ?it) = ?it"
      by (intro map_unat_of_nat) (simp add: canonical_def)
    moreover have "DecodeBase58_cstr s = (if list_all isspace tail
        then Inr (Some (replicate (length ones) 0 @ map of_nat ?it)) else Inr None)"
      using r drop_buf [OF r(3)] sp by (simp add: dec)
    ultimately show ?thesis using True can by (auto simp del: map_map)
  qed
qed

lemma DecodeBase58_cstr_returns: "\<exists>r. DecodeBase58_cstr s = Inr r"
  using DecodeBase58_cstr_eq [OF refl refl refl refl refl, of s] by (auto split: if_splits)

lemma no_space_alphabet: "canonical 58 ds v \<Longrightarrow> c \<in> set (map (\<lambda>d. pszBase58 ! d) ds) \<Longrightarrow>
    b58_valid c \<and> \<not> isspace c \<and> c \<noteq> CHR 0x00"
  using alphabet_table by (auto simp: canonical_def)

lemma one_alphabet: "\<not> isspace (CHR ''1'')"
  by (simp add: isspace_def)

lemma takeWhile_spaces: "list_all isspace ys \<Longrightarrow> takeWhile (\<lambda>c. \<not> isspace c) ys = []"
  and dropWhile_spaces: "list_all isspace ys \<Longrightarrow> dropWhile (\<lambda>c. \<not> isspace c) ys = ys"
  by (cases ys; simp)+

lemma takeWhile_replicate_append:
  "ys = [] \<or> hd ys \<noteq> a \<Longrightarrow> takeWhile (\<lambda>x. x = a) (replicate n a @ ys) = replicate n a
     \<and> dropWhile (\<lambda>x. x = a) (replicate n a @ ys) = ys"
  by (induction n) (cases ys, auto)+

lemma EncodeBase58_chars:
  assumes "EncodeBase58 bs = Inr s" "c \<in> set s" shows "\<not> isspace c \<and> c \<noteq> CHR 0x00"
proof -
  obtain ds where ds: "s = replicate (length (takeWhile (\<lambda>p. p = 0) bs)) (CHR ''1'') @ map (\<lambda>d. pszBase58 ! d) ds"
      "canonical 58 ds (digits_val 256 (map unat (dropWhile (\<lambda>p. p = 0) bs)))"
    using EncodeBase58_total [of bs] assms(1) by auto
  from assms(2) show ?thesis
    unfolding ds(1) using no_space_alphabet [OF ds(2), of c] one_alphabet by auto
qed

lemma map_unat_inject: "map unat (xs :: byte list) = map unat ys \<longleftrightarrow> xs = ys"
  by (rule inj_map_eq_map) (simp add: inj_def word_unat_eq_iff)

lemma canonical_bytes: "canonical 256 (map unat (dropWhile (\<lambda>p. p = 0) bs))
    (digits_val 256 (map unat (dropWhile (\<lambda>p. p = 0) (bs :: bytes))))"
  using hd_dropWhile_neq [of 0 bs] by (auto simp: canonical_def hd_map unat_eq_zero)

lemma EncodeBase58_cases:
  obtains ds where "EncodeBase58 bs = Inr (replicate (length (takeWhile (\<lambda>p. p = 0) bs)) (CHR ''1'')
      @ map (\<lambda>d. pszBase58 ! d) ds)"
    "canonical 58 ds (digits_val 256 (map unat (dropWhile (\<lambda>p. p = 0) bs)))"
  using EncodeBase58_total by blast

lemma decode_of_encode:
  assumes "EncodeBase58 bs = Inr e" "list_all isspace pre" "list_all isspace post"
  shows "DecodeBase58_cstr (pre @ e @ post) = Inr (Some bs)"
proof -
  let ?z = "length (takeWhile (\<lambda>p. p = 0) bs)" and ?q = "dropWhile (\<lambda>p. p = 0) bs"
  obtain ds where e: "e = replicate ?z (CHR ''1'') @ map (\<lambda>d. pszBase58 ! d) ds"
    and can: "canonical 58 ds (digits_val 256 (map unat ?q))"
    using EncodeBase58_cases [of bs] assms(1) by auto
  let ?body = "map (\<lambda>d. pszBase58 ! d) ds"
  define post' where "post' = (if e = [] then [] else post)"
  have spost: "list_all isspace post'" using assms(3) by (simp add: post'_def)
  have nosp: "\<forall>c\<in>set e. \<not> isspace c" using EncodeBase58_chars [OF assms(1)] by blast
  have "dropWhile isspace (pre @ e @ post) = dropWhile isspace (e @ post)"
    using assms(2) by (intro dropWhile_append2) (auto simp: list_all_iff)
  also have "\<dots> = e @ post'"
    using nosp assms(3) by (cases e) (auto simp: post'_def list_all_iff dropWhile_eq_Nil_conv)
  finally have psz: "e @ post' = dropWhile isspace (pre @ e @ post)" ..
  have "?body @ post' = [] \<or> hd (?body @ post') \<noteq> CHR ''1''"
  proof (cases ds)
    case Nil
    then show ?thesis using spost one_alphabet by (cases post') auto
  next
    case (Cons d ds')
    then have "d < 58" "d \<noteq> 0" using can by (auto simp: canonical_def)
    then show ?thesis using alphabet_table [of d] Cons by simp
  qed
  then have ones: "replicate ?z (CHR ''1'') = takeWhile (\<lambda>c. c = CHR ''1'') (e @ post')"
    "?body @ post' = dropWhile (\<lambda>c. c = CHR ''1'') (e @ post')"
    using takeWhile_replicate_append [of "?body @ post'" "CHR ''1''" ?z] by (simp_all add: e)
  have bd: "?body = takeWhile (\<lambda>c. \<not> isspace c) (?body @ post')"
    "post' = dropWhile (\<lambda>c. \<not> isspace c) (?body @ post')"
    using no_space_alphabet [OF can] spost
    by (auto simp: takeWhile_append2 dropWhile_append2 list_all_iff simp del: set_map
        intro!: takeWhile_spaces dropWhile_spaces)
  have "list_all b58_valid ?body" using no_space_alphabet [OF can] by (auto simp: list_all_iff)
  moreover have "map b58_code ?body = ds"
    using can alphabet_table by (auto simp: canonical_def intro!: map_idI)
  ultimately obtain r where r: "DecodeBase58_cstr (pre @ e @ post) = Inr (Some (replicate ?z 0 @ r))"
      "canonical 256 (map unat r) (digits_val 58 ds)"
    using DecodeBase58_cstr_eq [OF psz ones bd] spost by auto
  have "digits_val 58 ds = digits_val 256 (map unat ?q)" using can by (simp add: canonical_def)
  with r(2) have "map unat r = map unat ?q"
    using canonical_unique [OF _ _ canonical_bytes] by simp
  then have "r = ?q" by (simp only: map_unat_inject)
  with r(1) show ?thesis using split_leading [of bs 0] by simp
qed

lemma encode_of_decode:
  assumes "DecodeBase58_cstr s = Inr (Some b)"
  obtains pre e post where "s = pre @ e @ post" "list_all isspace pre" "list_all isspace post"
    "EncodeBase58 b = Inr e"
proof -
  define psz where "psz = dropWhile isspace s"
  define ones where "ones = takeWhile (\<lambda>c. c = CHR ''1'') psz"
  define rest where "rest = dropWhile (\<lambda>c. c = CHR ''1'') psz"
  define body where "body = takeWhile (\<lambda>c. \<not> isspace c) rest"
  define tail where "tail = dropWhile (\<lambda>c. \<not> isspace c) rest"
  note eq = DecodeBase58_cstr_eq [OF psz_def ones_def rest_def body_def tail_def]
  from eq assms have valid: "list_all b58_valid body" and tl: "list_all isspace tail"
    by (auto split: if_splits)
  with eq assms obtain r where b: "b = replicate (length ones) 0 @ r"
    and can: "canonical 256 (map unat r) (digits_val 58 (map b58_code body))" by auto
  have "body \<noteq> [] \<Longrightarrow> hd body \<noteq> CHR ''1''"
    using hd_dropWhile_neq [of "CHR ''1''" psz] unfolding body_def rest_def [symmetric]
    by (cases rest) (auto split: if_splits)
  then have "body \<noteq> [] \<Longrightarrow> b58_code (hd body) \<noteq> 0"
    using table_alphabet [of "hd body"] valid pszBase58_0 by (metis list_all_iff list.set_sel(1))
  then have canb: "canonical 58 (map b58_code body) (digits_val 58 (map b58_code body))"
    using table_alphabet by (auto simp: canonical_def hd_map)
  have "r = [] \<or> hd r \<noteq> 0" using can by (cases r) (auto simp: canonical_def)
  then have zb: "takeWhile (\<lambda>p. p = 0) b = replicate (length ones) 0" "dropWhile (\<lambda>p. p = 0) b = r"
    using takeWhile_replicate_append [of r 0 "length ones"] by (simp_all add: b)
  obtain ds where enc: "EncodeBase58 b = Inr (replicate (length ones) (CHR ''1'') @ map (\<lambda>d. pszBase58 ! d) ds)"
    and cands: "canonical 58 ds (digits_val 256 (map unat r))"
    using EncodeBase58_cases [of b] zb by (metis length_replicate)
  have "digits_val 256 (map unat r) = digits_val 58 (map b58_code body)"
    using can by (simp add: canonical_def)
  with cands canb have "ds = map b58_code body" using canonical_unique [of 58] by simp
  moreover have "map (\<lambda>d. pszBase58 ! d) (map b58_code body) = body"
    using valid table_alphabet by (auto simp: list_all_iff intro!: map_idI)
  moreover have "replicate (length ones) (CHR ''1'') = ones"
    unfolding ones_def using takeWhile_eq_replicate [of "CHR ''1''" psz] by simp
  ultimately have "EncodeBase58 b = Inr (ones @ body)" using enc by simp
  moreover have "s = takeWhile isspace s @ (ones @ body) @ tail"
    by (simp add: psz_def ones_def rest_def body_def tail_def)
  moreover have "list_all isspace (takeWhile isspace s)"
    by (auto simp: list_all_iff dest: set_takeWhileD)
  ultimately show thesis using tl by (intro that [of "takeWhile isspace s" "ones @ body" tail])
qed

section \<open>Properties\<close>

text \<open>C34: a text decodes to the bytes \<open>b\<close> if and only if, up to the first NUL, it is the encoding
of \<open>b\<close> surrounded by white space: decoding inverts encoding, and no other spelling is accepted.\<close>

theorem DecodeBase58_iff:
  "DecodeBase58 s = Inr (Some b) \<longleftrightarrow>
   (\<exists>pre e post. takeWhile (\<lambda>c. c \<noteq> CHR 0x00) s = pre @ e @ post
      \<and> list_all isspace pre \<and> list_all isspace post \<and> EncodeBase58 b = Inr e)"
  (is "?l \<longleftrightarrow> ?r")
proof
  assume ?l
  then show ?r unfolding DecodeBase58_def by (elim encode_of_decode) blast
next
  assume ?r
  then obtain pre e post where "takeWhile (\<lambda>c. c \<noteq> CHR 0x00) s = pre @ e @ post"
    "list_all isspace pre" "list_all isspace post" "EncodeBase58 b = Inr e" by blast
  then show ?l using decode_of_encode [of b e pre post] by (simp add: DecodeBase58_def)
qed

text \<open>\<open>EncodeBase58\<close> is total (its assertion never fails): one \<open>1\<close> per leading zero byte, then
the canonical base-58 numeral, without a leading zero digit, of the remaining bytes read in base 256.\<close>

theorem EncodeBase58_canonical:
  "\<exists>ds. EncodeBase58 bs = Inr (replicate (length (takeWhile (\<lambda>p. p = 0) bs)) (CHR ''1'')
        @ map (\<lambda>d. pszBase58 ! d) ds)
     \<and> canonical 58 ds (digits_val 256 (map unat (dropWhile (\<lambda>p. p = 0) bs)))"
  by (rule EncodeBase58_total)

text \<open>\<open>DecodeBase58\<close> never fails its assertion and never reads outside its tables: on every
input it returns, with or without a result.\<close>

theorem DecodeBase58_returns: "\<exists>r. DecodeBase58 s = Inr r"
  unfolding DecodeBase58_def
  by (rule DecodeBase58_cstr_returns)

lemma no_nul: "EncodeBase58 bs = Inr e \<Longrightarrow> takeWhile (\<lambda>c. c \<noteq> CHR 0x00) e = e"
  using EncodeBase58_chars by (simp add: takeWhile_eq_all_conv)

lemma DecodeBase58_EncodeBase58: "EncodeBase58 bs = Inr e \<Longrightarrow> DecodeBase58 e = Inr (Some bs)"
  using decode_of_encode [of bs e "[]" "[]"] by (simp add: DecodeBase58_def no_nul)

lemma Base58Check_roundtrip':
  assumes "\<forall>m. length (sha256 m) = 32"
  shows "\<exists>e. EncodeBase58Check sha256 bs = Inr e \<and> DecodeBase58Check sha256 e = Inr (True, bs)"
proof -
  let ?h = "take 4 (sha256 (sha256 bs))"
  obtain e where e: "EncodeBase58 (bs @ ?h) = Inr e"
    using EncodeBase58_total by blast
  have "length ?h = 4" using assms by simp
  with DecodeBase58_EncodeBase58 [OF e] e show ?thesis
    by (simp add: EncodeBase58Check_def DecodeBase58Check_def Let_def)
qed

text \<open>With a hash of at least four bytes, checking and decoding the checksummed encoding of an
address returns the address, with the flag set.\<close>

theorem Base58Check_roundtrip:
  assumes "\<forall>m. length (sha256 m) = 32"
  shows "\<exists>e. EncodeBase58Check sha256 bs = Inr e \<and> DecodeBase58Check sha256 e = Inr (True, bs)"
  using assms by (rule Base58Check_roundtrip')

theorem Base58Check_roundtrip_witness:
  "(\<forall>m :: bytes. length ((\<lambda>_. replicate 32 7) m :: bytes) = 32)
   \<and> (\<exists>e. EncodeBase58Check (\<lambda>_. replicate 32 7) [0x41, 0x10] = Inr e
        \<and> DecodeBase58Check (\<lambda>_. replicate 32 7) e = Inr (True, [0x41, 0x10]))"
  using Base58Check_roundtrip [of "\<lambda>_. replicate 32 7" "[0x41, 0x10]"] by simp

text \<open>A text passes \<open>DecodeBase58Check\<close> only with the checksum of the bytes it yields: the
result is the payload whose checksummed encoding is the text, up to surrounding white space.\<close>

theorem DecodeBase58Check_sound:
  assumes "\<forall>m. length (sha256 m) = 32" and "DecodeBase58Check sha256 s = Inr (True, bs)"
  shows "\<exists>pre e post. takeWhile (\<lambda>c. c \<noteq> CHR 0x00) s = pre @ e @ post
    \<and> list_all isspace pre \<and> list_all isspace post \<and> EncodeBase58Check sha256 bs = Inr e"
proof -
  from assms(2) obtain v where v: "DecodeBase58 s = Inr (Some v)" "4 \<le> length v"
    "take 4 (sha256 (sha256 bs)) = drop (length v - 4) v" "bs = take (length v - 4) v"
    by (auto simp: DecodeBase58Check_def Let_def result_simps split: option.splits if_splits)
  then have "v = bs @ take 4 (sha256 (sha256 bs))" by simp
  with v(1) show ?thesis
    unfolding DecodeBase58_iff by (simp add: EncodeBase58Check_def Let_def)
qed

theorem DecodeBase58Check_sound_witness:
  "(\<forall>m :: bytes. length ((\<lambda>_. replicate 32 0) m :: bytes) = 32)
   \<and> DecodeBase58Check (\<lambda>_. replicate 32 0) ''11111'' = Inr (True, [0])
   \<and> (\<exists>pre e post. takeWhile (\<lambda>c. c \<noteq> CHR 0x00) ''11111'' = pre @ e @ post
     \<and> list_all isspace pre \<and> list_all isspace post
     \<and> EncodeBase58Check (\<lambda>_. replicate 32 0) [0] = Inr e)"
proof -
  have "DecodeBase58Check (\<lambda>_. replicate 32 0) ''11111'' = Inr (True, [0])" by code_simp
  with DecodeBase58Check_sound [OF _ this] show ?thesis by simp
qed

text \<open>A failed check leaves the output buffer empty: no payload of a rejected text escapes.\<close>

theorem DecodeBase58Check_reject:
  "DecodeBase58Check sha256 s = Inr (False, bs) \<Longrightarrow> bs = []"
  by (auto simp: DecodeBase58Check_def Let_def result_simps split: option.splits if_splits)

theorem DecodeBase58Check_reject_witness:
  "DecodeBase58Check (\<lambda>_. replicate 32 7) ''11'' = Inr (False, []) \<and> ([] :: bytes) = []"
proof -
  have "DecodeBase58Check (\<lambda>_. replicate 32 7) ''11'' = Inr (False, [])" by code_simp
  with DecodeBase58Check_reject [OF this] show ?thesis by simp
qed

end
