(* ===== verification/Fixed_Hash.thy ===== *)
theory Fixed_Hash
  imports Hex_Codec
begin

text \<open>
  FixedHash and SecureFixedHash of libdevcore/FixedHash.h and the UUID text form of FixedHash.cpp. A
  \<open>FixedHash<N>\<close> is a list of \<open>N\<close> bytes; the size is an argument of the constructors. Erasing the
  memory of a secure hash (\<open>cleanse\<close>) has no effect on values and is not modelled.
\<close>

section \<open>Construction\<close>

datatype ConstructFromHashType = AlignLeft | AlignRight | FailIfDifferent
datatype ConstructFromStringType = FromHex | FromBinary

definition hash_empty :: "nat \<Rightarrow> bytes" where
  "hash_empty n = replicate n 0"

text \<open>The loop that copies \<open>c\<close> bytes, aligned to the left or to the right end.\<close>

definition hash_copy :: "nat \<Rightarrow> ConstructFromHashType \<Rightarrow> nat \<Rightarrow> bytes \<Rightarrow> bytes" where
  "hash_copy n t c b =
     foldl (\<lambda>m i. m[(if t = AlignRight then n - 1 - i else i) :=
                    b ! (if t = AlignRight then length b - 1 - i else i)]) (replicate n 0) [0..<c]"

definition hash_of_hash :: "nat \<Rightarrow> ConstructFromHashType \<Rightarrow> bytes \<Rightarrow> bytes" where
  "hash_of_hash n t h = hash_copy n t (min (length h) n) h"

definition hash_of_arith :: "nat \<Rightarrow> nat \<Rightarrow> bytes" where
  "hash_of_arith n v = toBigEndian v (hash_empty n)"

definition hash_of_bytes :: "nat \<Rightarrow> ConstructFromHashType \<Rightarrow> bytes \<Rightarrow> bytes" where
  "hash_of_bytes n t b =
     (if length b = n then b
      else if t \<noteq> FailIfDifferent then hash_copy n t (min (length b) n) b
      else hash_empty n)"

definition hash_of_string ::
  "nat \<Rightarrow> ConstructFromStringType \<Rightarrow> ConstructFromHashType \<Rightarrow> string \<Rightarrow> bytes result" where
  "hash_of_string n t ht s =
     rbind (if t = FromHex then fromHex_when s Throw else Inr (asBytes s)) (\<lambda>b. Inr (hash_of_bytes n ht b))"

definition hash_arith :: "bytes \<Rightarrow> nat" where
  "hash_arith h = fromBigEndian_big h"

definition hash_bool :: "bytes \<Rightarrow> bool" where
  "hash_bool h = list_ex (\<lambda>b. b \<noteq> 0) h"

section \<open>Comparison and bitwise operations\<close>

fun hash_less :: "bytes \<Rightarrow> bytes \<Rightarrow> bool" where
  "hash_less (a # as) (b # bs) = (if a < b then True else if a > b then False else hash_less as bs)"
| "hash_less _ _ = False"

definition hash_ge :: "bytes \<Rightarrow> bytes \<Rightarrow> bool" where "hash_ge a b \<longleftrightarrow> \<not> hash_less a b"
definition hash_le :: "bytes \<Rightarrow> bytes \<Rightarrow> bool" where "hash_le a b \<longleftrightarrow> a = b \<or> hash_less a b"
definition hash_gt :: "bytes \<Rightarrow> bytes \<Rightarrow> bool" where "hash_gt a b \<longleftrightarrow> \<not> hash_le a b"

definition hash_xor :: "bytes \<Rightarrow> bytes \<Rightarrow> bytes" where "hash_xor a b = map2 (XOR) a b"
definition hash_or :: "bytes \<Rightarrow> bytes \<Rightarrow> bytes" where "hash_or a b = map2 (OR) a b"
definition hash_and :: "bytes \<Rightarrow> bytes \<Rightarrow> bytes" where "hash_and a b = map2 (AND) a b"
definition hash_not :: "bytes \<Rightarrow> bytes" where "hash_not a = map NOT a"

text \<open>\<open>operator++\<close>: bytes are incremented from the last one as long as they wrap to zero.\<close>

fun hash_inc_loop :: "nat \<Rightarrow> bytes \<Rightarrow> bytes" where
  "hash_inc_loop 0 m = m"
| "hash_inc_loop (Suc i) m =
     (let m' = m[i := m ! i + 1] in if m' ! i = 0 then hash_inc_loop i m' else m')"

definition hash_inc :: "bytes \<Rightarrow> bytes" where
  "hash_inc h = hash_inc_loop (length h) h"

definition hash_contains :: "bytes \<Rightarrow> bytes \<Rightarrow> bool" where
  "hash_contains h c \<longleftrightarrow> hash_and h c = c"

definition hash_hex :: "bytes \<Rightarrow> string" where
  "hash_hex h = toHex h"

text \<open>The UTF-8 bytes of the ellipsis end (or separate) the abridged forms.\<close>

definition ellipsis :: string where
  "ellipsis = [CHR 0xE2, CHR 0x80, CHR 0xA6]"

definition hash_abridged :: "bytes \<Rightarrow> string" where
  "hash_abridged h = toHex (take 4 h) @ ellipsis"

definition hash_abridgedMiddle :: "bytes \<Rightarrow> string" where
  "hash_abridgedMiddle h = toHex (take 4 h) @ ellipsis @ toHex (drop (length h - 4) h)"

section \<open>Bits\<close>

fun first_bit_in_byte :: "nat \<Rightarrow> byte \<Rightarrow> nat \<Rightarrow> nat" where
  "first_bit_in_byte 0 d ret = ret"
| "first_bit_in_byte (Suc fuel) d ret =
     (if d AND 0x80 \<noteq> 0 then ret else first_bit_in_byte fuel (push_bit 1 d) (ret + 1))"

text \<open>A nonzero byte has a bit set, so the inner loop returns within eight steps.\<close>

fun firstBitSet_loop :: "bytes \<Rightarrow> nat \<Rightarrow> nat" where
  "firstBitSet_loop [] ret = ret"
| "firstBitSet_loop (d # ds) ret =
     (if d \<noteq> 0 then first_bit_in_byte 8 d ret else firstBitSet_loop ds (ret + 8))"

definition firstBitSet :: "bytes \<Rightarrow> nat" where
  "firstBitSet h = firstBitSet_loop h 0"

text \<open>\<open>bloomPart<P, M>\<close>: \<open>P\<close> bit positions of a filter of \<open>M\<close> bytes, read from the front.\<close>

definition staticLog2 :: "nat \<Rightarrow> nat" where
  "staticLog2 n = length (takeWhile (\<lambda>k. 2 ^ (k + 1) \<le> n) [0..<n])"

definition bloom_index :: "nat \<Rightarrow> nat \<Rightarrow> bytes \<Rightarrow> nat" where
  "bloom_index c_bloomBytes c_bloomBits p =
     foldl (\<lambda>index b. push_bit 8 index OR unat b) 0 (take c_bloomBytes p) mod 2 ^ 32 AND (c_bloomBits - 1)"

fun bloomPart_loop :: "nat \<Rightarrow> nat \<Rightarrow> nat \<Rightarrow> bytes \<Rightarrow> bytes \<Rightarrow> bytes" where
  "bloomPart_loop 0 m c p ret = ret"
| "bloomPart_loop (Suc i) m c p ret =
     (let index = bloom_index c (m * 8) p; k = m - 1 - index div 8
      in bloomPart_loop i m c (drop c p) (ret[k := ret ! k OR push_bit (index mod 8) 1]))"

definition bloomPart :: "nat \<Rightarrow> nat \<Rightarrow> bytes \<Rightarrow> bytes" where
  "bloomPart pcount m h = bloomPart_loop pcount m ((staticLog2 (m * 8) + 7) div 8) h (hash_empty m)"

definition shiftBloom :: "nat \<Rightarrow> bytes \<Rightarrow> bytes \<Rightarrow> bytes" where
  "shiftBloom pcount self h = hash_or self (bloomPart pcount (length self) h)"

definition containsBloom :: "nat \<Rightarrow> bytes \<Rightarrow> bytes \<Rightarrow> bool" where
  "containsBloom pcount self h = hash_contains self (bloomPart pcount (length self) h)"

definition right160 :: "bytes \<Rightarrow> bytes" where
  "right160 t = take 20 (drop 12 t)"

section \<open>SecureFixedHash\<close>

text \<open>All three assignment operators forward to the exclusive or of the base class.\<close>

definition secure_xor :: "bytes \<Rightarrow> bytes \<Rightarrow> bytes" where "secure_xor a b = hash_xor a b"
definition secure_or :: "bytes \<Rightarrow> bytes \<Rightarrow> bytes" where "secure_or a b = hash_xor a b"
definition secure_and :: "bytes \<Rightarrow> bytes \<Rightarrow> bytes" where "secure_and a b = hash_xor a b"
definition secure_not :: "bytes \<Rightarrow> bytes" where "secure_not a = hash_not a"

section \<open>UUIDs\<close>

definition fromUUID :: "string \<Rightarrow> bytes" where
  "fromUUID uuid =
     (case hash_of_string 16 FromHex FailIfDifferent (filter (\<lambda>c. c \<noteq> CHR ''-'') uuid) of
        Inr h \<Rightarrow> h | Inl _ \<Rightarrow> hash_empty 16)"

definition insert_at :: "nat \<Rightarrow> 'a \<Rightarrow> 'a list \<Rightarrow> 'a list" where
  "insert_at i x xs = take i xs @ [x] @ drop i xs"

definition toUUID :: "bytes \<Rightarrow> string" where
  "toUUID uuid = foldl (\<lambda>ret i. insert_at i CHR ''-'' ret) (toHex uuid) [20, 16, 12, 8]"

section \<open>Properties\<close>

lemma fromBigEndian_Cons: "fromBigEndian_big (b # bs) = unat b * 256 ^ length bs + fromBigEndian_big bs"
  by (simp add: fromBigEndian_big_eq digits_val_Cons)

lemma fromBigEndian_lt: "fromBigEndian_big bs < 256 ^ length bs"
  using digits_val_bound [of "map unat bs" 256] by (simp add: fromBigEndian_big_eq)

lemma hash_arith_inject:
  "length a = length b \<Longrightarrow> hash_arith a = hash_arith b \<longleftrightarrow> a = b"
proof
  assume l: "length a = length b" and "hash_arith a = hash_arith b"
  then have "map unat a = map unat b"
    by (intro digits_val_inject [where b = 256]) (auto simp: hash_arith_def fromBigEndian_big_eq)
  moreover have "inj (unat :: byte \<Rightarrow> nat)" by (simp add: inj_def word_unat_eq_iff)
  ultimately show "a = b" by (simp add: inj_map_eq_map)
qed simp

lemma hash_less_iff: "length a = length b \<Longrightarrow> hash_less a b \<longleftrightarrow> hash_arith a < hash_arith b"
proof (induction a b rule: list_induct2)
  case (Cons x xs y ys)
  let ?v = "fromBigEndian_big" and ?B = "256 ^ length ys :: nat"
  have l: "?v xs < ?B" "?v ys < ?B"
    using fromBigEndian_lt [of xs] fromBigEndian_lt [of ys] Cons.hyps by simp_all
  have lt: "unat p * ?B + v < unat q * ?B + w" if "unat p < unat q" "v < ?B" for p q :: byte and v w
  proof -
    have "unat p * ?B + ?B \<le> unat q * ?B"
      using that(1) mult_le_mono1 [of "Suc (unat p)" "unat q" ?B] by simp
    with that(2) show ?thesis by linarith
  qed
  consider "unat x < unat y" | "unat y < unat x" | "x = y"
    by (metis linorder_neqE_nat word_unat_eq_iff)
  then show ?case
  proof cases
    case 1
    then show ?thesis using lt [OF 1 l(1)] Cons.hyps
      by (simp add: hash_arith_def fromBigEndian_Cons word_less_nat_alt)
  next
    case 2
    then show ?thesis using lt [OF 2 l(2), of "?v xs"] Cons.hyps
      by (simp add: hash_arith_def fromBigEndian_Cons word_less_nat_alt)
  next
    case 3
    then show ?thesis using Cons by (simp add: hash_arith_def fromBigEndian_Cons)
  qed
qed (simp add: hash_arith_def)

text \<open>The byte-wise comparison of hashes is the comparison of the big-endian numbers they stand
  for, and the four derived operators are its reflexive and converse forms.\<close>

theorem hash_less_arith:
  assumes "length a = length b"
  shows "(hash_less a b \<longleftrightarrow> hash_arith a < hash_arith b) \<and> (hash_le a b \<longleftrightarrow> hash_arith a \<le> hash_arith b)
    \<and> (hash_ge a b \<longleftrightarrow> hash_arith a \<ge> hash_arith b) \<and> (hash_gt a b \<longleftrightarrow> hash_arith a > hash_arith b)"
  using hash_less_iff [OF assms] hash_arith_inject [OF assms]
  by (auto simp: hash_le_def hash_ge_def hash_gt_def)

theorem hash_less_arith_witness: "hash_less [0x01, 0xff] [0x02, 0x00]"
  using hash_less_arith [of "[0x01, 0xff]" "[0x02, 0x00]"]
  by (simp add: hash_arith_def fromBigEndian_Cons)

lemma hash_inc_loop_eq:
  "\<exists>zs. hash_inc_loop (length xs) (xs @ ys) = zs @ ys \<and> length zs = length xs \<and>
     fromBigEndian_big zs = (fromBigEndian_big xs + 1) mod 256 ^ length xs"
proof (induction xs arbitrary: ys rule: rev_induct)
  case Nil
  then show ?case by (simp add: fromBigEndian_big_def)
next
  case (snoc b xs)
  let ?v = "fromBigEndian_big" and ?n = "length xs"
  show ?case
  proof (cases "b + 1 = 0")
    case False
    have "unat b \<noteq> 255"
    proof
      assume "unat b = 255"
      then have "unat b = unat (255 :: byte)" by simp
      then have "b = 255" by (simp only: word_unat_eq_iff)
      with False show False by simp
    qed
    then have "unat b + 1 < 256" using unat_byte_lt [of b] by linarith
    then have u: "unat (b + 1) = unat b + 1" by (simp add: unat_word_ariths)
    have "?v xs < 256 ^ ?n" by (rule fromBigEndian_lt)
    then have "Suc (?v xs) * 256 \<le> 256 ^ ?n * 256" by (intro mult_le_mono1) simp
    then have "?v xs * 256 + unat b + 1 < 256 ^ Suc ?n"
      using \<open>unat b + 1 < 256\<close> by simp
    then have "?v (xs @ [b + 1]) = (?v (xs @ [b]) + 1) mod 256 ^ Suc ?n"
      by (simp add: fromBigEndian_big_snoc u)
    then show ?thesis using False
      by (intro exI [of _ "xs @ [b + 1]"]) (simp add: Let_def list_update_append)
  next
    case True
    then have "b = - 1" by (simp add: eq_neg_iff_add_eq_0)
    moreover have "unat (- 1 :: byte) = 255" by code_simp
    ultimately have u: "unat b = 255" by simp
    obtain zs where zs: "hash_inc_loop ?n (xs @ 0 # ys) = zs @ 0 # ys" "length zs = ?n"
      "?v zs = (?v xs + 1) mod 256 ^ ?n"
      using snoc.IH [of "0 # ys"] by blast
    have "?v (zs @ [0]) = (?v xs + 1) mod 256 ^ ?n * 256" by (simp add: fromBigEndian_big_snoc zs(3))
    also have "\<dots> = ((?v xs + 1) * 256) mod (256 ^ ?n * 256)" by (rule mod_mult_mult2 [symmetric])
    also have "(?v xs + 1) * 256 = ?v (xs @ [b]) + 1" by (simp add: fromBigEndian_big_snoc u)
    finally show ?thesis using True zs(1,2)
      by (intro exI [of _ "zs @ [0]"]) (simp add: Let_def list_update_append mult.commute)
  qed
qed

text \<open>\<open>operator++\<close> adds one to the number a hash stands for, wrapping at its width.\<close>

theorem hash_inc_arith:
  "hash_arith (hash_inc h) = (hash_arith h + 1) mod 256 ^ length h \<and> length (hash_inc h) = length h"
  using hash_inc_loop_eq [of h "[]"] by (auto simp: hash_inc_def hash_arith_def)

text \<open>
  Alignment: the copy loop places the bytes at the chosen end, pads with zeros and drops what does
  not fit from the other end.
\<close>

lemma hash_copy_eq:
  assumes "c \<le> n" "c \<le> length b"
  shows "hash_copy n t c b = (if t = AlignRight then replicate (n - c) 0 @ drop (length b - c) b
    else take c b @ replicate (n - c) 0)"
  using assms
proof (induction c)
  case 0
  then show ?case by (simp add: hash_copy_def)
next
  case (Suc c)
  have step: "hash_copy n t (Suc c) b = (hash_copy n t c b)[(if t = AlignRight then n - 1 - c else c) :=
      b ! (if t = AlignRight then length b - 1 - c else c)]"
    by (simp add: hash_copy_def)
  show ?case
  proof (cases "t = AlignRight")
    case True
    have "replicate (n - c) (0 :: byte) = replicate (n - Suc c) 0 @ [0]"
      using Suc.prems by (metis Suc_diff_Suc Suc_le_lessD replicate_Suc replicate_append_same)
    moreover have "drop (length b - Suc c) b = b ! (length b - 1 - c) # drop (length b - c) b"
      using Suc.prems Cons_nth_drop_Suc [of "length b - Suc c" b] by (simp add: Suc_diff_Suc)
    ultimately show ?thesis using True Suc step by (simp add: list_update_append)
  next
    case False
    have "replicate (n - c) (0 :: byte) = 0 # replicate (n - Suc c) 0"
      using Suc.prems by (metis Suc_diff_Suc Suc_le_lessD replicate_Suc)
    then show ?thesis using False Suc step by (simp add: list_update_append take_Suc_conv_app_nth)
  qed
qed

text \<open>A hash built from bytes of another length keeps them at the requested end and is zero
  elsewhere, or is all zero when the lengths must agree; from the right-aligned form the number read
  back is the number of the bytes, modulo the width.\<close>

theorem hash_of_bytes_aligned:
  "hash_of_bytes n AlignLeft b = take n b @ replicate (n - length b) 0
   \<and> hash_of_bytes n AlignRight b = replicate (n - length b) 0 @ drop (length b - n) b
   \<and> hash_of_bytes n FailIfDifferent b = (if length b = n then b else replicate n 0)
   \<and> hash_arith (hash_of_bytes n AlignRight b) = fromBigEndian_big b mod 256 ^ n"
proof -
  have r: "hash_of_bytes n AlignRight b = replicate (n - length b) 0 @ drop (length b - n) b"
    by (cases "length b \<le> n") (auto simp: hash_of_bytes_def hash_copy_eq min_def)
  have z: "fromBigEndian_big (replicate k 0 @ xs) = fromBigEndian_big xs" for k xs
    by (simp add: fromBigEndian_big_eq)
  have "fromBigEndian_big b = fromBigEndian_big (take (length b - n) b) * 256 ^ min n (length b)
      + fromBigEndian_big (drop (length b - n) b)"
    using digits_val_append [of 256 "map unat (take (length b - n) b)" "map unat (drop (length b - n) b)"]
    by (simp add: fromBigEndian_big_eq flip: map_append) (simp add: min_def)
  moreover have "fromBigEndian_big (drop (length b - n) b) < 256 ^ min n (length b)"
    using fromBigEndian_lt [of "drop (length b - n) b"] by (cases "n \<le> length b") (simp_all add: min_def)
  ultimately have m: "n \<le> length b \<Longrightarrow> fromBigEndian_big (drop (length b - n) b) = fromBigEndian_big b mod 256 ^ n"
    by (simp add: min_def)
  have "\<not> n \<le> length b \<Longrightarrow> fromBigEndian_big b < 256 ^ n"
    using fromBigEndian_lt [of b] power_increasing [of "length b" n "256 :: nat"] by linarith
  with m have "fromBigEndian_big (drop (length b - n) b) = fromBigEndian_big b mod 256 ^ n"
    by (cases "n \<le> length b") simp_all
  then show ?thesis unfolding r
    by (simp add: hash_arith_def z) (auto simp: hash_of_bytes_def hash_copy_eq hash_empty_def min_def)
qed

text \<open>\<open>SecureFixedHash\<close> does not compute what its operators are named for: \<open>|=\<close> and \<open>&=\<close> are
  the exclusive or, so a secure hash combined with itself is erased, while the base class returns it.\<close>

theorem secure_or_is_xor:
  "secure_or a a = replicate (length a) 0 \<and> secure_and a a = replicate (length a) 0
   \<and> hash_or a a = a \<and> hash_and a a = a"
proof -
  have "map2 f a a = map (\<lambda>x. f x x) a" for f :: "byte \<Rightarrow> byte \<Rightarrow> byte"
    by (induction a) simp_all
  then show ?thesis
    by (simp add: secure_or_def secure_and_def hash_xor_def hash_or_def hash_and_def map_replicate_const)
qed

lemma toHex_no_dash: "CHR ''-'' \<notin> set (toHex bs)"
proof -
  have "list_all (\<lambda>n. hexdigits ! n \<noteq> CHR ''-'') [0..<16]" by code_simp
  then have "hexdigits ! n \<noteq> CHR ''-''" if "n < 16" for n
    using that by (simp only: list_all_length length_upt) (simp add: list_all_iff)
  then show ?thesis
    by (induction bs) (auto simp: toHex_def toHex_prefix_def toHex_pair_eq, (metis nibbles_less)+)
qed

lemma filter_insert_at: "\<not> P x \<Longrightarrow> filter P (insert_at i x xs) = filter P xs"
  using filter_append [of P "take i xs" "drop i xs"] by (simp add: insert_at_def)

lemma fromUUID_toUUID': "length u = 16 \<Longrightarrow> fromUUID (toUUID u) = u"
proof -
  assume l: "length u = 16"
  have "filter (\<lambda>c. c \<noteq> CHR ''-'') (toUUID u) = filter (\<lambda>c. c \<noteq> CHR ''-'') (toHex u)"
    by (simp add: toUUID_def filter_insert_at)
  also have "\<dots> = toHex u" using toHex_no_dash [of u] by (auto simp: filter_id_conv)
  finally show "fromUUID (toUUID u) = u"
    using l fromHex_toHex' [of u Throw] by (simp add: fromUUID_def hash_of_string_def hash_of_bytes_def)
qed

text \<open>UUIDs round-trip: reading the text form of a 16-byte id returns the id, and a text whose
  hexadecimal part is malformed reads as the null id.\<close>

theorem fromUUID_toUUID:
  assumes "length u = 16"
  shows "fromUUID (toUUID u) = u \<and> length (toUUID u) = 36
    \<and> (\<not> isHex (filter (\<lambda>c. c \<noteq> CHR ''-'') s) \<longrightarrow> fromUUID s = replicate 16 0)"
proof (intro conjI impI)
  show "fromUUID (toUUID u) = u" using assms by (rule fromUUID_toUUID')
  have "length (insert_at i x xs) = Suc (length xs)" for i x and xs :: string
    by (simp add: insert_at_def)
  then show "length (toUUID u) = 36" using assms by (simp add: toUUID_def)
  assume "\<not> isHex (filter (\<lambda>c. c \<noteq> CHR ''-'') s)"
  then show "fromUUID s = replicate 16 0"
    using fromHex_iff_isHex' by (auto simp: fromUUID_def hash_of_string_def hash_empty_def rbind_def split: sum.splits)
qed

theorem fromUUID_toUUID_witness:
  "fromUUID (toUUID [0,1,2,3,4,5,6,7,8,9,10,11,12,13,14,15]) = [0,1,2,3,4,5,6,7,8,9,10,11,12,13,14,15]"
  using fromUUID_toUUID [of "[0,1,2,3,4,5,6,7,8,9,10,11,12,13,14,15]"] by simp

end
