(* ===== verification/Keccak.thy ===== *)
theory Keccak
  imports Wallet_Prelude
begin

text \<open>
  libdevcore/SHA3.cpp: the Keccak-f[1600] permutation on a state of 25 lanes, unrolled by macros in
  the source, the sponge \<open>hash\<close> on the same memory read as 200 bytes (the host is little-endian),
  and \<open>sha3\<close>, the hash that key files, MACs and addresses use.
\<close>

section \<open>The permutation\<close>

definition keccak_rho :: "nat list" where
  "keccak_rho =
     [ 1,  3,   6, 10, 15, 21,
      28, 36, 45, 55,  2, 14,
      27, 41, 56,  8, 25, 43,
      62, 18, 39, 61, 20, 44]"

definition keccak_pi :: "nat list" where
  "keccak_pi =
     [10,  7, 11, 17, 18, 3,
       5, 16,  8, 21, 24, 4,
      15, 23, 19, 13, 12, 2,
      20, 14, 22,  9, 6,  1]"

definition keccak_RC :: "64 word list" where
  "keccak_RC =
     [1, 0x8082, 0x800000000000808a, 0x8000000080008000,
      0x808b, 0x80000001, 0x8000000080008081, 0x8000000000008009,
      0x8a, 0x88, 0x80008009, 0x8000000a,
      0x8000808b, 0x800000000000008b, 0x8000000000008089, 0x8000000000008003,
      0x8000000000008002, 0x8000000000000080, 0x800a, 0x800000008000000a,
      0x8000000080008081, 0x8000000000008080, 0x80000001, 0x8000000080008008]"

definition rol :: "64 word \<Rightarrow> nat \<Rightarrow> 64 word" where
  "rol x s = push_bit s x OR drop_bit (64 - s) x"

text \<open>The steps of a round: \<open>FOR5(x, 1, e)\<close> runs \<open>e\<close> for x = 0, 1, 2, 3, 4.\<close>

definition theta_b :: "64 word list \<Rightarrow> 64 word list" where
  "theta_b a = map (\<lambda>x. foldl (\<lambda>b y. b XOR a ! (x + y)) 0 [0, 5, 10, 15, 20]) [0, 1, 2, 3, 4]"

definition theta :: "64 word list \<Rightarrow> 64 word list" where
  "theta a =
     (let b = theta_b a in
      foldl (\<lambda>a x. foldl (\<lambda>a y.
          a[y + x := a ! (y + x) XOR (b ! ((x + 4) mod 5) XOR rol (b ! ((x + 1) mod 5)) 1)])
        a [0, 5, 10, 15, 20]) a [0, 1, 2, 3, 4])"

definition rho_pi :: "64 word list \<Rightarrow> 64 word list" where
  "rho_pi a = fst (foldl (\<lambda>(a, t) x.
      let b0 = a ! (keccak_pi ! x) in (a[keccak_pi ! x := rol t (keccak_rho ! x)], b0))
    (a, a ! 1) [0,1,2,3,4,5,6,7,8,9,10,11,12,13,14,15,16,17,18,19,20,21,22,23])"

definition chi :: "64 word list \<Rightarrow> 64 word list" where
  "chi a = foldl (\<lambda>a y.
      let b = map (\<lambda>x. a ! (y + x)) [0, 1, 2, 3, 4] in
      foldl (\<lambda>a x. a[y + x := b ! x XOR (NOT (b ! ((x + 1) mod 5)) AND b ! ((x + 2) mod 5))])
        a [0, 1, 2, 3, 4])
    a [0, 5, 10, 15, 20]"

definition keccak_round :: "64 word list \<Rightarrow> 64 word \<Rightarrow> 64 word list" where
  "keccak_round a rc = (let a = chi (rho_pi (theta a)) in a[0 := a ! 0 XOR rc])"

definition keccakf_lanes :: "64 word list \<Rightarrow> 64 word list" where
  "keccakf_lanes a = foldl keccak_round a keccak_RC"

text \<open>The state as memory: 200 bytes, each lane of eight bytes stored little-endian.\<close>

definition lane_of :: "bytes \<Rightarrow> 64 word" where
  "lane_of bs = foldr (\<lambda>b w. push_bit 8 w OR ucast b) bs 0"

definition lane_bytes :: "64 word \<Rightarrow> bytes" where
  "lane_bytes w = map (\<lambda>i. ucast (drop_bit (8 * i) w)) [0, 1, 2, 3, 4, 5, 6, 7]"

definition lanes_of :: "bytes \<Rightarrow> 64 word list" where
  "lanes_of a = map (\<lambda>i. lane_of (take 8 (drop (8 * i) a))) [0..<25]"

definition keccakf :: "bytes \<Rightarrow> bytes" where
  "keccakf a = concat (map lane_bytes (keccakf_lanes (lanes_of a)))"

section \<open>The sponge\<close>

definition xorin :: "bytes \<Rightarrow> bytes \<Rightarrow> nat \<Rightarrow> bytes" where
  "xorin dst src n = foldl (\<lambda>d i. d[i := d ! i XOR src ! i]) dst [0..<n]"

function absorb :: "nat \<Rightarrow> bytes \<Rightarrow> bytes \<Rightarrow> bytes \<times> bytes" where
  "absorb rate a inp =
     (if 0 < rate \<and> rate \<le> length inp then absorb rate (keccakf (xorin a inp rate)) (drop rate inp)
      else (a, inp))"
  by pat_completeness auto
termination by (relation "measure (\<lambda>(rate, a, inp). length inp)") auto

declare absorb.simps [simp del]

function squeeze :: "nat \<Rightarrow> bytes \<Rightarrow> nat \<Rightarrow> bytes" where
  "squeeze rate a outlen =
     (if 0 < rate \<and> rate \<le> outlen then take rate a @ squeeze rate (keccakf a) (outlen - rate)
      else take outlen a)"
  by pat_completeness auto
termination by (relation "measure (\<lambda>(rate, a, outlen). outlen)") auto

declare squeeze.simps [simp del]

text \<open>
  \<open>hash\<close>: \<open>None\<close> is the return value -1. With a zero rate, which no instance uses, the folds would
  not return.
\<close>

definition sponge_hash :: "nat \<Rightarrow> bytes \<Rightarrow> nat \<Rightarrow> byte \<Rightarrow> bytes option result" where
  "sponge_hash outlen inp rate delim =
     (if rate \<ge> 200 then Inr None
      else if rate = 0 then Inl Diverges
      else
        (let (a, inp) = absorb rate (replicate 200 0) inp;
             a = a[length inp := a ! length inp XOR delim];
             a = a[rate - 1 := a ! (rate - 1) XOR 0x80];
             a = xorin a inp (length inp);
             a = keccakf a
         in Inr (Some (squeeze rate a outlen))))"

definition shake_bits :: "nat \<Rightarrow> nat \<Rightarrow> bytes \<Rightarrow> bytes option result" where
  "shake_bits bits outlen inp = sponge_hash outlen inp (200 - bits div 4) 0x1f"

definition sha3_bits :: "nat \<Rightarrow> nat \<Rightarrow> bytes \<Rightarrow> bytes option result" where
  "sha3_bits bits outlen inp =
     (if outlen > bits div 8 then Inr None else sponge_hash outlen inp (200 - bits div 4) 0x01)"

text \<open>\<open>sha3\<close> into an output of a given size; the 32-byte form returns an \<open>h256\<close>, zero on failure.\<close>

definition sha3_into :: "bytes \<Rightarrow> bytes \<Rightarrow> bool \<times> bytes" where
  "sha3_into input output =
     (if length output \<noteq> 32 then (False, output)
      else (True, case sha3_bits 256 32 input of Inr (Some h) \<Rightarrow> h | _ \<Rightarrow> output))"

definition sha3 :: "bytes \<Rightarrow> bytes" where
  "sha3 input = snd (sha3_into input (replicate 32 0))"

section \<open>The standard's description of a round\<close>

text \<open>
  The permutation on coordinates, as the standard states it: a lane is named by its column \<open>x\<close> and
  row \<open>y\<close>, both below five, and stored at \<open>x + 5 y\<close>. The rotation offsets are the triangular numbers
  along the orbit of (1, 0) under (x, y) to (y, 2x + 3y), and the round constants are the output bits
  of a linear feedback shift register.
\<close>

type_synonym lanes = "nat \<Rightarrow> nat \<Rightarrow> 64 word"

definition lanes_at :: "64 word list \<Rightarrow> lanes" where
  "lanes_at a x y = a ! (x + 5 * y)"

definition spec_theta :: "lanes \<Rightarrow> lanes" where
  "spec_theta A =
     (let C = (\<lambda>x. A x 0 XOR A x 1 XOR A x 2 XOR A x 3 XOR A x 4)
      in (\<lambda>x y. A x y XOR C ((x + 4) mod 5) XOR word_rotl 1 (C ((x + 1) mod 5))))"

fun orbit :: "nat \<Rightarrow> nat \<times> nat" where
  "orbit 0 = (1, 0)"
| "orbit (Suc t) = (case orbit t of (x, y) \<Rightarrow> (y, (2 * x + 3 * y) mod 5))"

definition spec_offset :: "nat \<Rightarrow> nat \<Rightarrow> nat" where
  "spec_offset x y =
     (case find (\<lambda>t. orbit t = (x, y)) [0..<24] of None \<Rightarrow> 0 | Some t \<Rightarrow> ((t + 1) * (t + 2) div 2) mod 64)"

definition spec_rho :: "lanes \<Rightarrow> lanes" where
  "spec_rho A x y = word_rotl (spec_offset x y) (A x y)"

definition spec_pi :: "lanes \<Rightarrow> lanes" where
  "spec_pi A x y = A ((x + 3 * y) mod 5) x"

definition spec_chi :: "lanes \<Rightarrow> lanes" where
  "spec_chi A x y = A x y XOR (NOT (A ((x + 1) mod 5) y) AND A ((x + 2) mod 5) y)"

definition spec_iota :: "64 word \<Rightarrow> lanes \<Rightarrow> lanes" where
  "spec_iota rc A x y = (if x = 0 \<and> y = 0 then A 0 0 XOR rc else A x y)"

definition lfsr_step :: "bool list \<Rightarrow> bool list" where
  "lfsr_step R =
     (let R = False # R; c = R ! 8
      in take 8 (R[0 := (R ! 0 \<noteq> c), 4 := (R ! 4 \<noteq> c), 5 := (R ! 5 \<noteq> c), 6 := (R ! 6 \<noteq> c)]))"

fun lfsr_word :: "nat list \<Rightarrow> 64 word \<Rightarrow> bool list \<Rightarrow> 64 word \<times> bool list" where
  "lfsr_word [] w R = (w, R)"
| "lfsr_word (j # js) w R = lfsr_word js (if R ! 0 then w OR 2 ^ (2 ^ j - 1) else w) (lfsr_step R)"

fun spec_RC :: "nat \<Rightarrow> bool list \<Rightarrow> 64 word list" where
  "spec_RC 0 R = []"
| "spec_RC (Suc i) R = (case lfsr_word [0, 1, 2, 3, 4, 5, 6] 0 R of (w, R') \<Rightarrow> w # spec_RC i R')"

definition spec_round :: "64 word \<Rightarrow> lanes \<Rightarrow> lanes" where
  "spec_round rc A = spec_iota rc (spec_chi (spec_pi (spec_rho (spec_theta A))))"

section \<open>The unrolled round is the standard's\<close>

lemma rol_eq: "0 < s \<Longrightarrow> s < 64 \<Longrightarrow> rol x s = word_rotl s x"
proof (rule bit_word_eqI)
  fix n assume s: "0 < s" "s < 64" and n: "n < LENGTH(64)"
  have "(n + 64 - s) mod 64 = (if s \<le> n then n - s else 64 + n - s)"
    using s n by (auto simp: mod_if)
  moreover have "s \<le> n \<Longrightarrow> \<not> bit x (64 + n - s)"
    using s n bit_imp_le_length [of x "64 + n - s"] by auto
  ultimately show "bit (rol x s) n = bit (word_rotl s x) n"
    using s n by (auto simp: rol_def bit_word_rotl_iff bit_simps)
qed

lemma lfsr_step_eq: "lfsr_step [a, b, c, d, e, f, g, h] = [h, a, b, c, d \<noteq> h, e \<noteq> h, f \<noteq> h, g]"
  by (auto simp: lfsr_step_def)

lemma spec_RC_eq: "spec_RC 24 [True, False, False, False, False, False, False, False] = keccak_RC"
  by (simp add: lfsr_step_eq keccak_RC_def eval_nat_numeral(2,3))

definition lane_list :: "lanes \<Rightarrow> 64 word list" where
  "lane_list A = map (\<lambda>k. A (k mod 5) (k div 5)) [0..<25]"

lemma length_25E:
  assumes "length a = 25"
  obtains a0 a1 a2 a3 a4 a5 a6 a7 a8 a9 a10 a11 a12 a13 a14 a15 a16 a17 a18 a19 a20 a21 a22 a23 a24
  where "a = [a0, a1, a2, a3, a4, a5, a6, a7, a8, a9, a10, a11, a12, a13, a14, a15, a16, a17, a18,
      a19, a20, a21, a22, a23, a24]"
  using assms by (auto simp: length_Suc_conv numeral_eq_Suc)

lemma upt_25: "[0..<25] = [0,1,2,3,4,5,6,7,8,9,10,11,12,13,14,15,16,17,18,19,20,21,22,23,24 :: nat]"
  by code_simp

lemma theta_eq:
  assumes "length a = 25"
  shows "theta a = lane_list (spec_theta (lanes_at a))"
  using assms
  by (elim length_25E)
     (simp add: theta_def theta_b_def lane_list_def spec_theta_def lanes_at_def upt_25 rol_eq Let_def xor.assoc)

lemma offsets [simplified]:
  "\<forall>x\<in>{0,1,2,3,4}. \<forall>y\<in>{0,1,2,3,4}. spec_offset x y =
    [0, 1, 62, 28, 27, 36, 44, 6, 55, 20, 3, 10, 43, 25, 39, 41, 45, 15, 21, 8, 18, 2, 61, 56, 14] ! (x + 5 * y)"
  by code_simp

lemma word_rotl_0: "word_rotl 0 (x :: 64 word) = x"
  by (rule bit_word_eqI) (simp add: bit_word_rotl_iff)

lemma rho_pi_eq:
  assumes "length a = 25"
  shows "rho_pi a = lane_list (spec_pi (spec_rho (lanes_at a)))"
  using assms
  by (elim length_25E)
     (simp add: rho_pi_def lane_list_def spec_pi_def spec_rho_def lanes_at_def upt_25 rol_eq Let_def
       keccak_pi_def keccak_rho_def offsets word_rotl_0)

lemma chi_eq:
  assumes "length a = 25"
  shows "chi a = lane_list (spec_chi (lanes_at a))"
  using assms
  by (elim length_25E)
     (simp add: chi_def lane_list_def spec_chi_def lanes_at_def upt_25 Let_def)


lemma length_lane_list [simp]: "length (lane_list A) = 25"
  by (simp add: lane_list_def)

lemma lanes_at_lane_list: "x < 5 \<Longrightarrow> y < 5 \<Longrightarrow> lanes_at (lane_list A) x y = A x y"
  by (simp add: lanes_at_def lane_list_def)

text \<open>Only coordinates below five matter, so the steps compose.\<close>

lemma lane_list_cong: "(\<And>x y. x < 5 \<Longrightarrow> y < 5 \<Longrightarrow> A x y = B x y) \<Longrightarrow> lane_list A = lane_list B"
  unfolding lane_list_def by (rule map_cong) auto

lemma round_eq:
  assumes "length a = 25"
  shows "keccak_round a rc = lane_list (spec_round rc (lanes_at a))"
proof -
  let ?A = "spec_theta (lanes_at a)" let ?B = "spec_pi (spec_rho ?A)"
  have "rho_pi (theta a) = lane_list (spec_pi (spec_rho (lanes_at (lane_list ?A))))"
    using assms by (simp add: theta_eq rho_pi_eq)
  also have "\<dots> = lane_list ?B"
    by (rule lane_list_cong) (simp add: spec_pi_def spec_rho_def lanes_at_lane_list)
  finally have "chi (rho_pi (theta a)) = lane_list (spec_chi (lanes_at (lane_list ?B)))"
    by (simp add: chi_eq)
  also have "\<dots> = lane_list (spec_chi ?B)"
    by (rule lane_list_cong) (simp add: spec_chi_def lanes_at_lane_list)
  finally have c: "chi (rho_pi (theta a)) = lane_list (spec_chi ?B)" .
  have "(lane_list A)[0 := lane_list A ! 0 XOR rc] = lane_list (spec_iota rc A)" for A
    by (simp add: lane_list_def spec_iota_def upt_25)
  then show ?thesis by (simp add: keccak_round_def c spec_round_def)
qed

text \<open>C35: the unrolled, in-place Keccak-f[1600] is the permutation of the standard: on every state of
  25 lanes, 24 rounds of theta, rho, pi, chi and iota on coordinates, with rotation offsets along the
  orbit of (1, 0) and round constants from the linear feedback shift register.\<close>

theorem keccakf_is_standard:
  assumes "length a = 25" "x < 5" "y < 5"
  shows "lanes_at (keccakf_lanes a) x y
    = foldl (\<lambda>A rc. spec_round rc A) (lanes_at a)
        (spec_RC 24 [True, False, False, False, False, False, False, False]) x y"
proof -
  have "lanes_at (foldl keccak_round a rcs) x y = foldl (\<lambda>A rc. spec_round rc A) B rcs x y"
    if "length a = 25" "\<And>x y. x < 5 \<Longrightarrow> y < 5 \<Longrightarrow> lanes_at a x y = B x y" "x < 5" "y < 5" for a B rcs x y
    using that
  proof (induction rcs arbitrary: a B)
    case (Cons rc rcs)
    have "lanes_at (keccak_round a rc) x y = spec_round rc B x y" if "x < 5" "y < 5" for x y
      using that Cons.prems(1,2)
      by (simp add: round_eq lanes_at_lane_list spec_round_def spec_iota_def spec_chi_def spec_pi_def
          spec_rho_def spec_theta_def Let_def)
    then show ?case using Cons by (simp add: round_eq)
  qed simp
  then show ?thesis using assms by (simp add: keccakf_lanes_def spec_RC_eq del: spec_RC.simps)
qed

theorem keccakf_is_standard_witness:
  "lanes_at (keccakf_lanes (replicate 25 0)) 1 2
    = foldl (\<lambda>A rc. spec_round rc A) (lanes_at (replicate 25 0))
        (spec_RC 24 [True, False, False, False, False, False, False, False]) 1 2"
  by (rule keccakf_is_standard) simp_all

section \<open>The sponge absorbs padded blocks\<close>

lemma foldl_length: "(\<And>a x. length (g (f a x)) = length (g a)) \<Longrightarrow> length (g (foldl f a xs)) = length (g a)"
  by (induction xs arbitrary: a) simp_all

lemma length_round [simp]: "length (keccak_round a rc) = length a"
proof -
  have "length (theta a) = length a" for a
    unfolding theta_def Let_def by (intro foldl_length [of "\<lambda>a. a"]) simp
  moreover have "length (rho_pi a) = length a" for a
    unfolding rho_pi_def Let_def by (subst foldl_length [of fst]) (auto simp: split_beta)
  moreover have "length (chi a) = length a" for a
    unfolding chi_def Let_def by (intro foldl_length [of "\<lambda>a. a"]) simp
  ultimately show ?thesis by (simp add: keccak_round_def Let_def)
qed

lemma length_keccakf_lanes [simp]: "length (keccakf_lanes a) = length a"
proof -
  have "length (foldl keccak_round a rcs) = length a" for rcs by (induction rcs arbitrary: a) simp_all
  then show ?thesis by (simp add: keccakf_lanes_def)
qed

lemma length_keccakf [simp]: "length (keccakf a) = 200"
proof -
  have "length (concat (map lane_bytes ws)) = 8 * length ws" for ws
    by (induction ws) (simp_all add: lane_bytes_def)
  then show ?thesis by (simp add: keccakf_def lanes_of_def)
qed

definition xor_bytes :: "bytes \<Rightarrow> bytes \<Rightarrow> bytes" where
  "xor_bytes a b = map2 (XOR) a (b @ replicate (length a - length b) 0)"

definition absorb_block :: "bytes \<Rightarrow> bytes \<Rightarrow> bytes" where
  "absorb_block a b = keccakf (xor_bytes a b)"

fun blocks :: "nat \<Rightarrow> nat \<Rightarrow> bytes \<Rightarrow> bytes list" where
  "blocks 0 rate m = []"
| "blocks (Suc n) rate m = take rate m # blocks n rate (drop rate m)"

text \<open>The frame that fills the last block: the delimiter in its first byte, 0x80 in its last.\<close>

definition pad_frame :: "nat \<Rightarrow> byte \<Rightarrow> bytes" where
  "pad_frame q delim = xor_bytes (delim # replicate (q - 1) 0) (replicate (q - 1) 0 @ [0x80])"

definition padded :: "nat \<Rightarrow> byte \<Rightarrow> bytes \<Rightarrow> bytes" where
  "padded rate delim m = m @ pad_frame (rate - length m mod rate) delim"

definition squeezed :: "nat \<Rightarrow> bytes \<Rightarrow> nat \<Rightarrow> bytes" where
  "squeezed rate a n = take n (concat (map (\<lambda>i. take rate ((keccakf ^^ i) a)) [0..<Suc (n div rate)]))"

lemma xorin_eq: "n \<le> length src \<Longrightarrow> n \<le> length dst \<Longrightarrow> xorin dst src n = xor_bytes dst (take n src)"
proof -
  assume n: "n \<le> length src" "n \<le> length dst"
  have "length (xorin dst src k) = length dst \<and>
      (\<forall>i<length dst. xorin dst src k ! i = (if i < k then dst ! i XOR src ! i else dst ! i))"
    if "k \<le> n" for k
    using that
  proof (induction k)
    case (Suc k)
    then show ?case using n by (auto simp: xorin_def nth_list_update less_Suc_eq)
  qed (simp add: xorin_def)
  then show ?thesis using n
    by (intro nth_equalityI) (auto simp: xor_bytes_def nth_append)
qed

lemma length_xor_bytes [simp]: "length b \<le> length a \<Longrightarrow> length (xor_bytes a b) = length a"
  by (simp add: xor_bytes_def)

lemma length_pad_frame [simp]: "0 < q \<Longrightarrow> length (pad_frame q delim) = q"
  by (simp add: pad_frame_def)

lemma absorb_eq:
  assumes "0 < rate" "rate \<le> 200" "length a = 200"
  shows "absorb rate a m = (foldl absorb_block a (blocks (length m div rate) rate m), drop (length m div rate * rate) m)"
  using assms(3)
proof (induction "length m" arbitrary: a m rule: less_induct)
  case less
  show ?case
  proof (cases "rate \<le> length m")
    case True
    then have n: "length m div rate = Suc (length (drop rate m) div rate)"
      using assms(1) by (simp add: le_div_geq)
    have "absorb rate a m = absorb rate (absorb_block a (take rate m)) (drop rate m)"
      using True assms less.prems by (subst absorb.simps) (simp add: absorb_block_def xorin_eq)
    also have "\<dots> = (foldl absorb_block (absorb_block a (take rate m)) (blocks (length (drop rate m) div rate) rate (drop rate m)),
        drop (length (drop rate m) div rate * rate) (drop rate m))"
      using True assms(1) by (intro less.hyps) (auto simp: absorb_block_def)
    finally show ?thesis unfolding n by (simp add: add.commute)
  next
    case False
    then show ?thesis by (subst absorb.simps) (simp add: not_le)
  qed
qed

lemma squeeze_eq:
  assumes "0 < rate" "rate \<le> 200" "length a = 200"
  shows "squeeze rate a n = squeezed rate a n"
  using assms(3)
proof (induction n arbitrary: a rule: less_induct)
  case (less n)
  show ?case
  proof (cases "rate \<le> n")
    case True
    then have n: "n div rate = Suc ((n - rate) div rate)" using assms(1) by (simp add: le_div_geq)
    have "squeeze rate a n = take rate a @ squeezed rate (keccakf a) (n - rate)"
      using True assms(1) less.IH [of "n - rate" "keccakf a"] by (subst squeeze.simps) simp
    moreover have "map (\<lambda>i. take rate ((keccakf ^^ i) a)) [0..<Suc (n div rate)]
        = take rate a # map (\<lambda>i. take rate ((keccakf ^^ i) (keccakf a))) [0..<Suc ((n - rate) div rate)]"
      unfolding n by (subst upt_conv_Cons) (simp_all add: map_Suc_upt [symmetric] funpow_swap1 comp_def del: upt_Suc)
    ultimately show ?thesis using True less.prems assms(2) by (simp add: squeezed_def del: upt_Suc)
  next
    case False
    then show ?thesis by (subst squeeze.simps) (simp add: squeezed_def)
  qed
qed

lemma blocks_padded:
  assumes "0 < rate" "n * rate \<le> length m" "length m - n * rate + length f = rate"
  shows "blocks (Suc n) rate (m @ f) = blocks n rate m @ [drop (n * rate) m @ f]"
  using assms
proof (induction n arbitrary: m)
  case (Suc n)
  then have "rate \<le> length m" by simp
  then show ?case using Suc.IH [of "drop rate m"] Suc.prems
    by (simp add: add.commute)
qed simp

lemma last_block:
  assumes "length a = 200" "length r < rate" "rate \<le> 200"
  shows "xorin (a[length r := a ! length r XOR delim, rate - 1 := (a[length r := a ! length r XOR delim]) ! (rate - 1) XOR 0x80])
      r (length r) = xor_bytes a (r @ pad_frame (rate - length r) delim)"
proof (rule nth_equalityI)
  show "length (xorin (a[length r := a ! length r XOR delim, rate - 1 := (a[length r := a ! length r XOR delim]) ! (rate - 1) XOR 0x80])
      r (length r)) = length (xor_bytes a (r @ pad_frame (rate - length r) delim))"
    using assms by (simp add: xorin_eq)
next
  fix i assume i: "i < length (xorin (a[length r := a ! length r XOR delim,
      rate - 1 := (a[length r := a ! length r XOR delim]) ! (rate - 1) XOR 0x80]) r (length r))"
  have "pad_frame (rate - length r) delim ! k = (if k = 0 then delim else 0) XOR (if k = rate - length r - 1 then 0x80 else 0)"
    if "k < rate - length r" for k
    using that assms by (auto simp: pad_frame_def xor_bytes_def nth_append nth_Cons')
  then show "xorin (a[length r := a ! length r XOR delim, rate - 1 := (a[length r := a ! length r XOR delim]) ! (rate - 1) XOR 0x80])
      r (length r) ! i = xor_bytes a (r @ pad_frame (rate - length r) delim) ! i"
    using i assms
    by (auto simp: xorin_eq xor_bytes_def nth_append nth_list_update xor.assoc)
qed

text \<open>C36: \<open>hash\<close> is the sponge construction on the padded message: with the delimiter and the final
  bit placed in the last, possibly otherwise empty, block, every block is exclusive-ored into the
  state and permuted in turn, and the output is squeezed block by block.\<close>

theorem sponge_hash_is_sponge:
  assumes "0 < rate" "rate < 200"
  shows "sponge_hash outlen m rate delim
    = Inr (Some (squeezed rate
        (foldl absorb_block (replicate 200 0)
          (blocks (length m div rate + 1) rate (padded rate delim m))) outlen))"
proof -
  let ?n = "length m div rate" and ?q = "rate - length m mod rate"
  let ?r = "drop (?n * rate) m"
  obtain a where a: "foldl absorb_block (replicate 200 0) (blocks ?n rate m) = a" "length a = 200"
  proof -
    have "length (foldl absorb_block s bs) = 200" if "length s = 200" for s bs
      using that by (induction bs arbitrary: s) (simp_all add: absorb_block_def)
    then show thesis using that by simp
  qed
  have r: "length ?r = length m mod rate" by (simp add: minus_div_mult_eq_mod)
  then have len: "length ?r < rate" using assms(1) by simp
  have split: "blocks (Suc ?n) rate (padded rate delim m) = blocks ?n rate m @ [?r @ pad_frame ?q delim]"
    unfolding padded_def
    using assms(1) r len by (intro blocks_padded) (auto simp: div_times_less_eq_dividend)
  have "absorb rate (replicate 200 0) m = (a, ?r)"
    using assms a(1) by (subst absorb_eq) simp_all
  then have "sponge_hash outlen m rate delim
      = Inr (Some (squeeze rate (keccakf (xor_bytes a (?r @ pad_frame ?q delim))) outlen))"
    using assms last_block [OF a(2) len] by (simp add: sponge_hash_def Let_def r del: length_drop)
  then show ?thesis using assms a(1) split by (simp add: squeeze_eq absorb_block_def)
qed

theorem sponge_hash_is_sponge_witness:
  "sponge_hash 32 [1, 2, 3] 136 1
    = Inr (Some (squeezed 136 (foldl absorb_block (replicate 200 0) (blocks 1 136 (padded 136 1 [1, 2, 3]))) 32))"
  using sponge_hash_is_sponge [of 136 32 "[1, 2, 3]" 1] by (simp del: blocks.simps)

lemma length_squeezed: "0 < rate \<Longrightarrow> rate \<le> 200 \<Longrightarrow> length a = 200 \<Longrightarrow> length (squeezed rate a n) = n"
proof -
  assume r: "0 < rate" "rate \<le> 200" "length a = 200"
  have "length ((keccakf ^^ i) a) = 200" for i using r(3) by (cases i) simp_all
  then have "length (concat (map (\<lambda>i. take rate ((keccakf ^^ i) a)) xs)) = length xs * rate" for xs
    using r(2) by (induction xs) simp_all
  moreover have "n \<le> Suc (n div rate) * rate" using r(1)
    by (metis add.commute less_imp_le_nat dividend_less_times_div mult.commute mult_Suc_right)
  ultimately show ?thesis by (simp add: squeezed_def del: upt_Suc)
qed

lemma sha3_eq: "sha3 m = squeezed 136
    (foldl absorb_block (replicate 200 0) (blocks (length m div 136 + 1) 136 (padded 136 1 m))) 32"
  by (simp add: sha3_def sha3_into_def sha3_bits_def sponge_hash_is_sponge)

lemma length_sha3 [simp]: "length (sha3 m) = 32"
proof -
  have "length (foldl absorb_block s bs) = 200" if "length s = 200" for s bs
    using that by (induction bs arbitrary: s) (simp_all add: absorb_block_def)
  then show ?thesis unfolding sha3_eq by (intro length_squeezed) (simp_all del: blocks.simps)
qed

text \<open>\<open>sha3\<close> fails exactly on an output that is not 32 bytes long, which it then leaves unchanged;
  otherwise it overwrites the whole output with a 32-byte hash that depends on the input only.\<close>

theorem sha3_into_total:
  "sha3_into m out = (length out = 32, if length out = 32 then sha3 m else out) \<and> length (sha3 m) = 32"
proof -
  have "sha3_into m out = (True, sha3 m)" if "length out = 32"
    using that by (simp add: sha3_def sha3_into_def sha3_bits_def sponge_hash_is_sponge)
  then show ?thesis by (simp add: sha3_into_def)
qed

end
