(* ===== verification/Crypto_Common.thy ===== *)
theory Crypto_Common
  imports Fixed_Hash Keccak Rlp_Stream
begin

text \<open>
  libdevcrypto/Common.cpp, AES.cpp and the ECIES of CryptoPP.cpp: keys, signatures and symmetric
  encryption on top of three libraries. What the wrappers call of libsecp256k1, Crypto++ and
  libscrypt is the record \<open>crypto_lib\<close>, a parameter; failures of a call are \<open>None\<close>. Random values
  are arguments. \<open>Secret\<close>, \<open>Public\<close>, \<open>Signature\<close> and \<open>Address\<close> are byte strings of 32, 64, 65 and 20
  bytes; a null one is all zero.
\<close>

section \<open>The libraries\<close>

record crypto_lib =
  ec_pubkey :: "bytes \<Rightarrow> bytes option"
  ec_sign :: "bytes \<Rightarrow> bytes \<Rightarrow> (bytes \<times> nat) option"
  ec_recover :: "bytes \<Rightarrow> nat \<Rightarrow> bytes \<Rightarrow> bytes option"
  ec_dh :: "bytes \<Rightarrow> bytes \<Rightarrow> bytes option"
  lib_sha256 :: "bytes \<Rightarrow> bytes"
  lib_hmac_sha256 :: "bytes \<Rightarrow> bytes \<Rightarrow> bytes"
  ctr_encrypt :: "bytes \<Rightarrow> bytes \<Rightarrow> bytes \<Rightarrow> bytes option"
  ctr_decrypt :: "bytes \<Rightarrow> bytes \<Rightarrow> bytes \<Rightarrow> bytes option"
  cbc_decrypt :: "bytes \<Rightarrow> bytes \<Rightarrow> bytes \<Rightarrow> bytes option"
  lib_pbkdf2 :: "string \<Rightarrow> bytes \<Rightarrow> nat \<Rightarrow> nat \<Rightarrow> nat \<times> bytes"
  lib_scrypt :: "string \<Rightarrow> bytes \<Rightarrow> nat \<Rightarrow> nat \<Rightarrow> nat \<Rightarrow> nat \<Rightarrow> int \<times> bytes"

section \<open>Public keys and addresses\<close>

text \<open>The public key is the serialized one without its header, which must be 0x04.\<close>

definition public_of_serialized :: "bytes \<Rightarrow> bytes result" where
  "public_of_serialized s =
     (if length s \<noteq> 65 \<or> s ! 0 \<noteq> 4 then Inl AssertFailed else Inr (take 64 (drop 1 s)))"

definition toPublic :: "crypto_lib \<Rightarrow> bytes \<Rightarrow> bytes result" where
  "toPublic L secret =
     (case ec_pubkey L secret of None \<Rightarrow> Inr (hash_empty 64) | Some s \<Rightarrow> public_of_serialized s)"

definition toAddress_public :: "bytes \<Rightarrow> bytes" where
  "toAddress_public p = right160 (sha3 p)"

definition toAddress_secret :: "crypto_lib \<Rightarrow> bytes \<Rightarrow> bytes result" where
  "toAddress_secret L secret = rbind (toPublic L secret) (\<lambda>p. Inr (toAddress_public p))"

definition toAddress_nonce :: "bytes \<Rightarrow> nat \<Rightarrow> bytes result" where
  "toAddress_nonce from nonce =
     rbind (appendList 2 empty_stream) (\<lambda>s. rbind (append_bytes from False s) (\<lambda>s.
     rbind (append_bigint nonce s) (\<lambda>s. rbind (stream_out s) (\<lambda>b. Inr (right160 (sha3 b))))))"

definition ZeroAddress :: bytes where
  "ZeroAddress = hash_empty 20"

record KeyPair =
  m_secret :: bytes
  m_public :: bytes
  m_address :: bytes

definition KeyPair_of :: "crypto_lib \<Rightarrow> bytes \<Rightarrow> KeyPair result" where
  "KeyPair_of L sec = rbind (toPublic L sec) (\<lambda>p.
     Inr \<lparr>m_secret = sec, m_public = p,
          m_address = (if hash_bool p then toAddress_public p else hash_empty 20)\<rparr>)"

text \<open>\<open>KeyPair::create\<close> draws secrets until one has an address; the draws are an argument.\<close>

fun KeyPair_create :: "crypto_lib \<Rightarrow> bytes list \<Rightarrow> (KeyPair \<times> bytes list) result" where
  "KeyPair_create L [] = Inl Diverges"
| "KeyPair_create L (r # rs) = rbind (KeyPair_of L r) (\<lambda>k.
     if hash_bool (m_address k) then Inr (k, rs) else KeyPair_create L rs)"

section \<open>Signatures\<close>

definition secp256k1n :: nat where
  "secp256k1n = 115792089237316195423570985008687907852837564279074904382605163141518161494337"

definition sig_r :: "bytes \<Rightarrow> bytes" where "sig_r s = take 32 s"
definition sig_s :: "bytes \<Rightarrow> bytes" where "sig_s s = take 32 (drop 32 s)"
definition sig_v :: "bytes \<Rightarrow> byte" where "sig_v s = s ! 64"

definition SignatureStruct_isValid :: "bytes \<Rightarrow> bool" where
  "SignatureStruct_isValid s =
     (let s_max = hash_of_arith 32 0xfffffffffffffffffffffffffffffffebaaedce6af48a03bbfd25e8cd0364141;
          s_zero = hash_empty 32
      in sig_v s \<le> 1 \<and> hash_gt (sig_r s) s_zero \<and> hash_gt (sig_s s) s_zero
         \<and> hash_less (sig_r s) s_max \<and> hash_less (sig_s s) s_max)"

definition recover :: "crypto_lib \<Rightarrow> bytes \<Rightarrow> bytes \<Rightarrow> bytes result" where
  "recover L sig message =
     (let v = unat (sig ! 64) in
      if v > 3 then Inr (hash_empty 64)
      else case ec_recover L (take 64 sig) v message of
             None \<Rightarrow> Inr (hash_empty 64)
           | Some s \<Rightarrow> public_of_serialized s)"

definition sign :: "crypto_lib \<Rightarrow> bytes \<Rightarrow> bytes \<Rightarrow> bytes result" where
  "sign L k hash =
     (case ec_sign L hash k of
        None \<Rightarrow> Inr (hash_empty 65)
      | Some (rs, v) \<Rightarrow>
          (let r = take 32 rs; s = take 32 (drop 32 rs); v = (of_nat v :: byte);
               (v, s) = (if hash_arith s > secp256k1n div 2
                         then (v XOR 1, hash_of_arith 32 ((secp256k1n + 2 ^ 256 - hash_arith s) mod 2 ^ 256))
                         else (v, s))
           in if hash_arith s \<le> secp256k1n div 2 then Inr (r @ s @ [v]) else Inl AssertFailed))"

definition verify :: "crypto_lib \<Rightarrow> bytes \<Rightarrow> bytes \<Rightarrow> bytes \<Rightarrow> bool result" where
  "verify L p s hash =
     (if \<not> hash_bool p then Inr False else rbind (recover L s hash) (\<lambda>q. Inr (p = q)))"

section \<open>Symmetric encryption and key derivation\<close>

definition encryptAES128CTR :: "crypto_lib \<Rightarrow> bytes \<Rightarrow> bytes \<Rightarrow> bytes \<Rightarrow> bytes" where
  "encryptAES128CTR L k iv plain =
     (if length k \<noteq> 16 \<and> length k \<noteq> 24 \<and> length k \<noteq> 32 then []
      else case ctr_encrypt L k iv plain of Some ret \<Rightarrow> ret | None \<Rightarrow> [])"

definition decryptAES128CTR :: "crypto_lib \<Rightarrow> bytes \<Rightarrow> bytes \<Rightarrow> bytes \<Rightarrow> bytes" where
  "decryptAES128CTR L k iv cipher =
     (if length k \<noteq> 16 \<and> length k \<noteq> 24 \<and> length k \<noteq> 32 then []
      else case ctr_decrypt L k iv cipher of Some ret \<Rightarrow> ret | None \<Rightarrow> [])"

definition encryptSymNoAuth :: "crypto_lib \<Rightarrow> bytes \<Rightarrow> bytes \<Rightarrow> bytes \<Rightarrow> bytes" where
  "encryptSymNoAuth L k iv plain = encryptAES128CTR L k iv plain"

definition decryptSymNoAuth :: "crypto_lib \<Rightarrow> bytes \<Rightarrow> bytes \<Rightarrow> bytes \<Rightarrow> bytes" where
  "decryptSymNoAuth L k iv cipher = decryptAES128CTR L k iv cipher"

definition pbkdf2 :: "crypto_lib \<Rightarrow> string \<Rightarrow> bytes \<Rightarrow> nat \<Rightarrow> nat \<Rightarrow> bytes result" where
  "pbkdf2 L pass salt iterations dkLen =
     (case lib_pbkdf2 L pass salt iterations dkLen of
        (n, ret) \<Rightarrow> if n \<noteq> iterations then Inl CryptoException else Inr ret)"

definition scrypt :: "crypto_lib \<Rightarrow> string \<Rightarrow> bytes \<Rightarrow> nat \<Rightarrow> nat \<Rightarrow> nat \<Rightarrow> nat \<Rightarrow> bytes result" where
  "scrypt L pass salt n r p dkLen =
     (case lib_scrypt L pass salt n r p dkLen of
        (rc, ret) \<Rightarrow> if rc \<noteq> 0 then Inl CryptoException else Inr ret)"

definition aesDecrypt :: "crypto_lib \<Rightarrow> bytes \<Rightarrow> string \<Rightarrow> nat \<Rightarrow> bytes \<Rightarrow> bytes" where
  "aesDecrypt L ivCipher password rounds salt =
     (let salt = (if length salt = 0 then asBytes password else salt);
          target = snd (lib_pbkdf2 L password salt rounds 64);
          cipher = (if 16 \<le> length ivCipher then drop 16 ivCipher else []);
          iv = (if 16 \<le> length ivCipher then take 16 ivCipher else [])
      in case cbc_decrypt L (take 16 target) iv cipher of Some d \<Rightarrow> d | None \<Rightarrow> [])"

definition fromEncryptedSeed :: "crypto_lib \<Rightarrow> bytes \<Rightarrow> string \<Rightarrow> KeyPair result" where
  "fromEncryptedSeed L seed password = KeyPair_of L (sha3 (aesDecrypt L seed password 2000 []))"

definition crypto_kdf :: "bytes \<Rightarrow> bytes \<Rightarrow> bytes \<Rightarrow> bytes result" where
  "crypto_kdf random priv hash =
     (let s = sha3 (random @ priv); s = hash_xor s hash; s = sha3 s
      in if \<not> hash_bool s \<or> \<not> hash_bool hash \<or> \<not> hash_bool priv then Inl InvalidState else Inr s)"

text \<open>\<open>Nonce::next\<close> on the stored value, given a random secret for the first use.\<close>

definition Nonce_next :: "bytes \<Rightarrow> bytes \<Rightarrow> (bytes \<times> bytes) result" where
  "Nonce_next random m_value =
     rbind (if \<not> hash_bool m_value
            then (if \<not> hash_bool random then Inl InvalidState else Inr random) else Inr m_value)
       (\<lambda>m. let m = sha3 m in Inr (m, sha3 (secure_not m)))"

definition ecdh_agree :: "crypto_lib \<Rightarrow> bytes \<Rightarrow> bytes \<Rightarrow> bytes option" where
  "ecdh_agree L s r = (case ec_dh L (4 # r) s of None \<Rightarrow> None | Some c \<Rightarrow> Some (take 32 (drop 1 c)))"

text \<open>The counter bytes of \<open>ecies::kdf\<close>, incremented like a big-endian number.\<close>

fun kdf_loop :: "crypto_lib \<Rightarrow> bytes \<Rightarrow> bytes \<Rightarrow> nat \<Rightarrow> bytes \<Rightarrow> bytes \<Rightarrow> bytes" where
  "kdf_loop L z s1 0 ctr k = k"
| "kdf_loop L z s1 (Suc n) ctr k =
     kdf_loop L z s1 n (hash_inc ctr) (k @ take 32 (lib_sha256 L (ctr @ z @ s1)))"

definition ecies_kdf :: "crypto_lib \<Rightarrow> bytes \<Rightarrow> bytes \<Rightarrow> nat \<Rightarrow> bytes" where
  "ecies_kdf L z s1 kdByteLen =
     (let reps = ((kdByteLen + 7) * 8 mod 2 ^ 32) div 512;
          k = kdf_loop L z s1 (reps + 1) [0, 0, 0, 1] []
      in take kdByteLen k @ replicate (kdByteLen - length k) 0)"

section \<open>ECIES\<close>

text \<open>
  \<open>Secp256k1PP::encryptECIES\<close>: an ephemeral key pair, a shared secret, an encryption and a MAC key, and
  the message 0x04, public key, iv, cipher text, tag. Without cipher text the input is left unchanged.
  If no secret can be agreed the zero secret is used.
\<close>

definition encryptECIES :: "crypto_lib \<Rightarrow> KeyPair \<Rightarrow> bytes \<Rightarrow> bytes \<Rightarrow> bytes \<Rightarrow> bytes \<Rightarrow> bytes" where
  "encryptECIES L r iv k sharedMacData io =
     (let z = (case ecdh_agree L (m_secret r) k of Some z \<Rightarrow> z | None \<Rightarrow> hash_empty 32);
          key = ecies_kdf L z [] 32;
          eKey = take 16 key;
          mKey = lib_sha256 L (take 16 (drop 16 key));
          cipherText = encryptSymNoAuth L (hash_of_bytes 16 FailIfDifferent eKey) iv io
      in if cipherText = [] then io
         else
           (let cipherWithIV = iv @ cipherText;
                tag = lib_hmac_sha256 L mKey (cipherWithIV @ sharedMacData)
            in [4] @ m_public r @ cipherWithIV @ tag))"

definition decryptECIES :: "crypto_lib \<Rightarrow> bytes \<Rightarrow> bytes \<Rightarrow> bytes \<Rightarrow> bool \<times> bytes" where
  "decryptECIES L k sharedMacData io =
     (if io = [] \<or> io ! 0 < 2 \<or> io ! 0 > 4 then (False, io)
      else if length io < 1 + 64 + 16 + 1 + 32 then (False, io)
      else
        (case ecdh_agree L k (take 64 (drop 1 io)) of
           None \<Rightarrow> (False, io)
         | Some z \<Rightarrow>
             (let key = ecies_kdf L z [] 64;
                  eKey = take 16 key;
                  mKey = lib_sha256 L (take 16 (drop 16 key));
                  cipherLen = length io - 1 - 64 - 16 - 32;
                  cipherWithIV = take (16 + cipherLen) (drop 65 io);
                  cipherIV = take 16 cipherWithIV;
                  cipherNoIV = take cipherLen (drop 16 cipherWithIV);
                  msgMac = take 32 (drop (65 + 16 + cipherLen) io);
                  mac = lib_hmac_sha256 L mKey (cipherWithIV @ sharedMacData)
              in if take 32 mac \<noteq> msgMac then (False, io)
                 else (True, decryptSymNoAuth L (hash_of_bytes 16 FailIfDifferent eKey)
                               (hash_of_bytes 16 FailIfDifferent cipherIV) cipherNoIV))))"

section \<open>Signatures\<close>

lemma hash_arith_of_arith: "hash_arith (hash_of_arith n v) = v mod 256 ^ n"
  by (simp add: hash_arith_def hash_of_arith_def fromBigEndian_toBigEndian hash_empty_def)

lemma length_hash_of_arith [simp]: "length (hash_of_arith n v) = n"
  by (simp add: hash_of_arith_def hash_empty_def)

lemma hash_arith_empty [simp]: "hash_arith (hash_empty n) = 0"
  by (simp add: hash_arith_def hash_empty_def fromBigEndian_big_eq) (metis append_Nil2 digits_val_zeros digits_val_Nil)

lemma length_hash_empty [simp]: "length (hash_empty n) = n"
  by (simp add: hash_empty_def)

lemma hash_less_num: "length a = length b \<Longrightarrow> hash_less a b \<longleftrightarrow> hash_arith a < hash_arith b"
  by (rule hash_less_iff)

lemma hash_gt_num: "length a = length b \<Longrightarrow> hash_gt a b \<longleftrightarrow> hash_arith a > hash_arith b"
  using hash_less_iff [of a b] hash_arith_inject [of a b] by (auto simp: hash_gt_def hash_le_def)

text \<open>A signature is valid exactly when its recovery id is at most one and both its numbers lie
  strictly between zero and the order of the curve.\<close>

theorem isValid_range:
  assumes "length sig = 65"
  shows "SignatureStruct_isValid sig \<longleftrightarrow> unat (sig_v sig) \<le> 1
    \<and> 0 < hash_arith (sig_r sig) \<and> hash_arith (sig_r sig) < secp256k1n
    \<and> 0 < hash_arith (sig_s sig) \<and> hash_arith (sig_s sig) < secp256k1n"
proof -
  have "length (sig_r sig) = 32" "length (sig_s sig) = 32" using assms by (simp_all add: sig_r_def sig_s_def)
  moreover have "hash_arith (hash_of_arith 32 0xfffffffffffffffffffffffffffffffebaaedce6af48a03bbfd25e8cd0364141) = secp256k1n"
    by (simp add: hash_arith_of_arith secp256k1n_def)
  ultimately show ?thesis
    by (auto simp: SignatureStruct_isValid_def Let_def hash_less_num hash_gt_num word_le_nat_alt)
qed

theorem isValid_range_witness:
  "SignatureStruct_isValid (hash_of_arith 32 1 @ hash_of_arith 32 7 @ [1])"
proof -
  let ?s = "hash_of_arith 32 1 @ hash_of_arith 32 7 @ [1 :: byte]"
  have "sig_r ?s = hash_of_arith 32 1" "sig_s ?s = hash_of_arith 32 7" "sig_v ?s = 1"
    by (simp_all add: sig_r_def sig_s_def sig_v_def nth_append)
  then show ?thesis
    using isValid_range [of ?s] by (simp add: hash_arith_of_arith secp256k1n_def)
qed

text \<open>\<open>sign\<close> returns canonical signatures: whatever \<open>s\<close> below the order the library produced, the
  signature has 65 bytes, keeps \<open>r\<close>, and its \<open>s\<close> is at most half the order; when the library's is
  not, it is replaced by the order minus \<open>s\<close> and the lowest bit of the recovery id is flipped. The
  assertion never fails, and an invalid key gives the null signature.\<close>

theorem sign_canonical:
  assumes "ec_sign L hash k = Some (rs, v)" "length rs = 64" "hash_arith (drop 32 rs) < secp256k1n" "v \<le> 3"
  shows "\<exists>sig. sign L k hash = Inr sig \<and> length sig = 65 \<and> sig_r sig = take 32 rs
    \<and> hash_arith (sig_s sig) \<le> secp256k1n div 2
    \<and> (if hash_arith (drop 32 rs) \<le> secp256k1n div 2
       then sig_s sig = drop 32 rs \<and> sig_v sig = of_nat v
       else hash_arith (sig_s sig) = secp256k1n - hash_arith (drop 32 rs) \<and> sig_v sig = of_nat v XOR 1)"
proof -
  let ?s = "drop 32 rs"
  have s: "take 32 (drop 32 rs) = ?s" "length (take 32 rs) = 32" using assms(2) by simp_all
  show ?thesis
  proof (cases "hash_arith ?s \<le> secp256k1n div 2")
    case True
    let ?sig = "take 32 rs @ ?s @ [of_nat v]"
    have "sign L k hash = Inr ?sig" using True assms(1) s by (simp add: sign_def Let_def)
    moreover have "sig_r ?sig = take 32 rs" "sig_s ?sig = ?s" "sig_v ?sig = of_nat v" "length ?sig = 65"
      using assms(2) by (simp_all add: sig_r_def sig_s_def sig_v_def nth_append)
    ultimately show ?thesis using True by simp
  next
    case False
    let ?s' = "hash_of_arith 32 ((secp256k1n + 2 ^ 256 - hash_arith ?s) mod 2 ^ 256)"
    let ?sig = "take 32 rs @ ?s' @ [of_nat v XOR 1]"
    have "secp256k1n + 2 ^ 256 - hash_arith ?s = (secp256k1n - hash_arith ?s) + 2 ^ 256" using assms(3) by simp
    then have "(secp256k1n + 2 ^ 256 - hash_arith ?s) mod 2 ^ 256 = (secp256k1n - hash_arith ?s) mod 2 ^ 256"
      by (simp only: mod_add_self2)
    also have "\<dots> = secp256k1n - hash_arith ?s" by (intro mod_less) (simp add: secp256k1n_def)
    finally have "hash_arith ?s' = secp256k1n - hash_arith ?s"
      by (simp add: hash_arith_of_arith)
    moreover have "secp256k1n - hash_arith ?s \<le> secp256k1n div 2" using False by (simp add: secp256k1n_def)
    moreover have "sign L k hash = Inr ?sig"
      using False assms(1) s calculation by (simp add: sign_def Let_def)
    moreover have "sig_r ?sig = take 32 rs" "sig_s ?sig = ?s'" "sig_v ?sig = of_nat v XOR 1" "length ?sig = 65"
      using assms(2) by (simp_all add: sig_r_def sig_s_def sig_v_def nth_append)
    ultimately show ?thesis using False by (intro exI [of _ ?sig]) simp
  qed
qed

definition toy_lib :: crypto_lib where
  "toy_lib =
     \<lparr>ec_pubkey = (\<lambda>k. if hash_bool k then Some (4 # k @ k) else None),
      ec_sign = (\<lambda>h k. Some (hash_of_arith 32 5 @ hash_of_arith 32 (secp256k1n - 1), 0)),
      ec_recover = (\<lambda>rs v h. None),
      ec_dh = (\<lambda>p k. Some (0 # map2 (XOR) (take 32 (drop 1 p)) k)),
      lib_sha256 = (\<lambda>x. replicate 32 (foldl (XOR) 1 x)),
      lib_hmac_sha256 = (\<lambda>k x. replicate 32 (foldl (XOR) 2 (k @ x))),
      ctr_encrypt = (\<lambda>k iv m. Some m), ctr_decrypt = (\<lambda>k iv m. Some m),
      cbc_decrypt = (\<lambda>k iv m. Some m),
      lib_pbkdf2 = (\<lambda>p s n d. (n, replicate d (of_nat (length p)))),
      lib_scrypt = (\<lambda>p s n r q d. (0, replicate d (of_nat (length p))))\<rparr>"

theorem sign_canonical_witness:
  "\<exists>sig. sign toy_lib [] [] = Inr sig \<and> hash_arith (sig_s sig) = 1 \<and> sig_v sig = 1"
proof -
  have s: "hash_arith (drop 32 (hash_of_arith 32 5 @ hash_of_arith 32 (secp256k1n - 1))) = secp256k1n - 1"
    by (simp add: hash_arith_of_arith secp256k1n_def)
  show ?thesis
    using sign_canonical [of toy_lib "[]" "[]" "hash_of_arith 32 5 @ hash_of_arith 32 (secp256k1n - 1)" 0] s
    by (auto simp: toy_lib_def secp256k1n_def)
qed

text \<open>An invalid secret key has the null address as a \<open>KeyPair\<close>, but \<open>toAddress\<close> of the same
  secret is the address of the all-zero public key, the hash of 64 zero bytes.\<close>

theorem invalid_secret_addresses:
  assumes "ec_pubkey L k = None"
  shows "KeyPair_of L k = Inr \<lparr>m_secret = k, m_public = replicate 64 0, m_address = replicate 20 0\<rparr>
    \<and> toAddress_secret L k = Inr (right160 (sha3 (replicate 64 0)))"
  using assms
  by (simp add: KeyPair_of_def toAddress_secret_def toPublic_def toAddress_public_def hash_bool_def hash_empty_def list_ex_iff)

theorem invalid_secret_addresses_witness:
  "toAddress_secret toy_lib (replicate 32 0) = Inr (right160 (sha3 (replicate 64 0)))"
  using invalid_secret_addresses [of toy_lib "replicate 32 0"]
  by (simp add: toy_lib_def hash_bool_def list_ex_iff)

section \<open>ECIES\<close>

lemma take_length_append: "take (length xs) (xs @ ys) = xs"
  and drop_length_append: "drop (length xs) (xs @ ys) = ys"
  by simp_all

lemma kdf_loop_append: "kdf_loop L z s1 n ctr k = k @ kdf_loop L z s1 n ctr []"
proof (induction n arbitrary: ctr k)
  case (Suc n)
  have "kdf_loop L z s1 n (hash_inc ctr) (k @ take 32 (lib_sha256 L (ctr @ z @ s1)))
      = (k @ take 32 (lib_sha256 L (ctr @ z @ s1))) @ kdf_loop L z s1 n (hash_inc ctr) []"
    by (rule Suc.IH)
  moreover have "kdf_loop L z s1 n (hash_inc ctr) (take 32 (lib_sha256 L (ctr @ z @ s1)))
      = take 32 (lib_sha256 L (ctr @ z @ s1)) @ kdf_loop L z s1 n (hash_inc ctr) []"
    by (rule Suc.IH)
  ultimately show ?case by simp
qed simp

lemma length_kdf_loop:
  "(\<And>x. length (lib_sha256 L x) = 32) \<Longrightarrow> length (kdf_loop L z s1 n ctr k) = length k + 32 * n"
  by (induction n arbitrary: ctr k) simp_all

text \<open>\<open>ecies::kdf\<close> returns as many bytes as asked for, but it counts the hash output as 64 bytes
  where it has 32: of 33 to 56 bytes, only the first 32 depend on the secret, the rest are zero.\<close>

theorem ecies_kdf_zero_tail:
  assumes "\<And>x. length (lib_sha256 L x) = 32" "32 \<le> n" "n \<le> 56"
  shows "ecies_kdf L z s1 n = lib_sha256 L ([0, 0, 0, 1] @ z @ s1) @ replicate (n - 32) 0"
proof -
  have "((n + 7) * 8 mod 2 ^ 32) div 512 = 0" using assms(3) by simp
  moreover have "take n (lib_sha256 L x) = lib_sha256 L x" "take 32 (lib_sha256 L x) = lib_sha256 L x" for x
    using assms(1,2) by simp_all
  ultimately show ?thesis using assms(1,2) by (simp add: ecies_kdf_def)
qed

theorem ecies_kdf_zero_tail_witness:
  "drop 32 (ecies_kdf toy_lib [7] [] 40) = replicate 8 0"
  by (subst ecies_kdf_zero_tail) (simp_all add: toy_lib_def)

lemma kdf_prefix:
  assumes "\<And>x. length (lib_sha256 L x) = 32"
  shows "take 32 (ecies_kdf L z s1 64) = ecies_kdf L z s1 32" "length (ecies_kdf L z s1 32) = 32"
proof -
  have "length (kdf_loop L z s1 2 [0, 0, 0, 1] []) = 64"
    using length_kdf_loop [OF assms, of z s1 2 "[0, 0, 0, 1]" "[]"] by simp
  moreover have "((64 + 7) * 8 mod 2 ^ 32) div 512 + 1 = (2 :: nat)" by simp
  ultimately have "ecies_kdf L z s1 64 = kdf_loop L z s1 2 [0, 0, 0, 1] []"
    unfolding ecies_kdf_def Let_def by (simp only:) simp
  also have "\<dots> = lib_sha256 L ([0, 0, 0, 1] @ z @ s1) @ kdf_loop L z s1 1 (hash_inc [0, 0, 0, 1]) []"
    using kdf_loop_append [of L z s1 1 "hash_inc [0, 0, 0, 1]" "lib_sha256 L ([0, 0, 0, 1] @ z @ s1)"] assms
    by (simp add: numeral_2_eq_2)
  finally show "take 32 (ecies_kdf L z s1 64) = ecies_kdf L z s1 32" using assms by (simp add: ecies_kdf_def)
  show "length (ecies_kdf L z s1 32) = 32" using assms by (simp add: ecies_kdf_def)
qed

text \<open>C40: ECIES messages are read back: under the libraries' documented behaviour (digest lengths,
  counter-mode decryption inverts encryption and keeps the length) and when both sides agree on a
  secret, decrypting with the receiver's secret returns the plain text, and any other tag is refused
  with the input left unchanged.\<close>

theorem ecies_roundtrip:
  assumes lib: "\<And>x. length (lib_sha256 L x) = 32" "\<And>k x. length (lib_hmac_sha256 L k x) = 32"
      "\<And>k iv m c. ctr_encrypt L k iv m = Some c \<Longrightarrow> ctr_decrypt L k iv c = Some m \<and> length c = length m"
    and agreed: "ecdh_agree L (m_secret r) p = Some z" "ecdh_agree L k (m_public r) = Some z"
    and input: "m \<noteq> []" "length iv = 16" "length (m_public r) = 64"
      "\<exists>c. ctr_encrypt L (take 16 (ecies_kdf L z [] 32)) iv m = Some c"
  shows "decryptECIES L k mac (encryptECIES L r iv p mac m) = (True, m)
    \<and> (\<forall>t. length t = 32 \<and> t \<noteq> drop (length m + 81) (encryptECIES L r iv p mac m) \<longrightarrow>
        decryptECIES L k mac (take (length m + 81) (encryptECIES L r iv p mac m) @ t)
          = (False, take (length m + 81) (encryptECIES L r iv p mac m) @ t))"
proof -
  let ?key = "ecies_kdf L z [] 32" and ?key' = "ecies_kdf L z [] 64"
  have keys: "take 16 ?key' = take 16 ?key" "take 16 (drop 16 ?key') = take 16 (drop 16 ?key)" "length ?key = 32"
  proof -
    have k: "take 32 ?key' = ?key" "length ?key = 32" using kdf_prefix [OF lib(1)] by simp_all
    show "length ?key = 32" by (rule k(2))
    show "take 16 ?key' = take 16 ?key" unfolding k(1) [symmetric] by simp
    show "take 16 (drop 16 ?key') = take 16 (drop 16 ?key)"
      unfolding k(1) [symmetric] by (simp add: drop_take)
  qed
  obtain c where c: "ctr_encrypt L (take 16 ?key) iv m = Some c" using input(4) by blast
  then have dec: "ctr_decrypt L (take 16 ?key) iv c = Some m" and lc: "length c = length m"
    using lib(3) by blast+
  then have ne: "c \<noteq> []" using input(1) by auto
  let ?tag = "lib_hmac_sha256 L (lib_sha256 L (take 16 (drop 16 ?key))) ((iv @ c) @ mac)"
  have e: "encryptECIES L r iv p mac m = [4] @ m_public r @ (iv @ c) @ ?tag"
    using agreed(1) c ne keys(3)
    by (simp add: encryptECIES_def Let_def encryptSymNoAuth_def encryptAES128CTR_def hash_of_bytes_def)
  have d: "decryptECIES L k mac ([4] @ m_public r @ (iv @ c) @ t)
      = (if t = ?tag then (True, m) else (False, [4] @ m_public r @ (iv @ c) @ t))" if t: "length t = 32" for t
  proof -
    let ?io = "[4] @ m_public r @ (iv @ c) @ t"
    have l: "length ?io = 113 + length c" using input t by simp
    have p: "take 64 (drop 1 ?io) = m_public r" "drop 65 ?io = iv @ c @ t" using input by simp_all
    have "drop (65 + 16 + length c) ?io = drop (length ([4] @ m_public r @ (iv @ c))) (([4] @ m_public r @ (iv @ c)) @ t)"
      using input by (simp add: add.commute)
    also have "\<dots> = t" by simp
    finally have x: "drop (65 + 16 + length c) ?io = t" .
    have "1 \<le> length c" using ne by (cases c) auto
    moreover have "?io ! 0 = 4" by simp
    ultimately show ?thesis
      using agreed(2) dec lib(2) input(2) keys t l p x
      by (auto simp: decryptECIES_def Let_def decryptSymNoAuth_def decryptAES128CTR_def hash_of_bytes_def
          simp del: append_Cons append_assoc)
  qed
  have tk: "take (length m + 81) ([4] @ m_public r @ (iv @ c) @ ?tag) = [4] @ m_public r @ (iv @ c)"
    "drop (length m + 81) ([4] @ m_public r @ (iv @ c) @ ?tag) = ?tag"
  proof -
    have "length m + 81 = length ([4] @ m_public r @ (iv @ c))" using input lc by simp
    then have n: "take (length m + 81) (([4] @ m_public r @ (iv @ c)) @ x) = [4] @ m_public r @ (iv @ c)"
      "drop (length m + 81) (([4] @ m_public r @ (iv @ c)) @ x) = x" for x
      by (simp_all only: take_length_append drop_length_append)
    show "take (length m + 81) ([4] @ m_public r @ (iv @ c) @ ?tag) = [4] @ m_public r @ (iv @ c)"
      "drop (length m + 81) ([4] @ m_public r @ (iv @ c) @ ?tag) = ?tag"
      using n [of ?tag] by (simp_all only: append_assoc)
  qed
  show ?thesis using d [of ?tag] d lib(2) unfolding e tk by simp
qed

theorem ecies_roundtrip_witness:
  "fst (decryptECIES toy_lib (replicate 32 9) [5]
     (encryptECIES toy_lib \<lparr>m_secret = replicate 32 7, m_public = replicate 64 7, m_address = []\<rparr>
        (replicate 16 1) (replicate 64 9) [5] [1, 2, 3]))"
proof -
  let ?r = "\<lparr>m_secret = replicate 32 7, m_public = replicate 64 7, m_address = []\<rparr>"
  have "decryptECIES toy_lib (replicate 32 9) [5]
      (encryptECIES toy_lib ?r (replicate 16 1) (replicate 64 9) [5] [1, 2, 3]) = (True, [1, 2, 3])"
    by (rule ecies_roundtrip [where z = "replicate 32 14", THEN conjunct1])
       (simp_all add: toy_lib_def ecdh_agree_def zip_replicate take_map)
  then show ?thesis by simp
qed

end
