(* ===== verification/Core_Util.thy ===== *)
theory Core_Util
  imports Base58 Crypto_Common "HOL-Library.Log_Nat"
begin

text \<open>
  wallet/core/core_util.cpp: Tron addresses and their Base58Check text, signing a transaction, the
  frozen power of an account, and the conversion between TRX and drops. A \<open>double\<close> is the rational it
  holds, \<open>fl\<close> is the rounding of an IEEE operation (to 53 bits, ties to even; the magnitudes involved
  are far from overflow and underflow). A protobuf message is a record of the fields the wallet uses;
  its serialization is generated code and a parameter, as is the clock. Strings are byte strings.
\<close>

section \<open>Doubles\<close>

definition pow2 :: "int \<Rightarrow> rat" where
  "pow2 k = (if 0 \<le> k then 2 ^ nat k else 1 / 2 ^ nat (- k))"

definition exponent :: "rat \<Rightarrow> int" where
  "exponent x = (case quotient_of x of (p, q) \<Rightarrow>
     let e = bitlen p - bitlen q in if pow2 e \<le> x then e else e - 1)"

definition round_half_even :: "rat \<Rightarrow> int" where
  "round_half_even x =
     (let f = floor x; r = x - of_int f
      in if r < 1 / 2 then f else if r > 1 / 2 then f + 1 else if even f then f else f + 1)"

definition fl :: "rat \<Rightarrow> rat" where
  "fl x = (if x = 0 then 0
     else let u = pow2 (exponent \<bar>x\<bar> - 52) in of_int (round_half_even (x / u)) * u)"

text \<open>Conversion of a double to \<open>int64_t\<close>: truncation; out of range it is undefined.\<close>

definition to_int64 :: "rat \<Rightarrow> int result" where
  "to_int64 x =
     (let t = (if 0 \<le> x then floor x else ceiling x)
      in if - (2 ^ 63) \<le> t \<and> t < 2 ^ 63 then Inr t else Inl OutOfRange)"

section \<open>TRX and drops\<close>

definition TRX_DROP_RATE :: int where
  "TRX_DROP_RATE = 1000000"

text \<open>
  The division is one of integers: it truncates. The quotient fits a double exactly.
\<close>

definition ToTrx :: "64 word \<Rightarrow> rat" where
  "ToTrx amount = of_int (sgn (sint amount) * (\<bar>sint amount\<bar> div TRX_DROP_RATE))"

definition ToDrop :: "rat \<Rightarrow> int result" where
  "ToDrop amount = to_int64 (fl (amount * of_int TRX_DROP_RATE))"

section \<open>Addresses\<close>

definition AddressEncodeBase58Check :: "(bytes \<Rightarrow> bytes) \<Rightarrow> bytes \<Rightarrow> string result" where
  "AddressEncodeBase58Check sha256 address = EncodeBase58Check sha256 address"

definition AddressDecodeBase58Check :: "(bytes \<Rightarrow> bytes) \<Rightarrow> string \<Rightarrow> (bool \<times> bytes) result" where
  "AddressDecodeBase58Check sha256 s = DecodeBase58Check sha256 s"

definition ToTronAddress :: "bytes \<Rightarrow> bytes" where
  "ToTronAddress a = 0x41 # a"

text \<open>For a one-byte argument the code takes the address of the first element of an empty vector.\<close>

definition ToAddress :: "bytes \<Rightarrow> bytes result" where
  "ToAddress t =
     (if t \<noteq> [] then
        (if length t - 1 = 0 then Inl OutOfRange
         else Inr (hash_of_bytes 20 FailIfDifferent (take (length t - 1) (drop 1 t))))
      else Inr ZeroAddress)"

text \<open>\<open>CheckAddress\<close> overwrites its argument with the decoded bytes (none on failure).\<close>

definition CheckAddress :: "(bytes \<Rightarrow> bytes) \<Rightarrow> string \<Rightarrow> (bool \<times> bytes) result" where
  "CheckAddress sha256 address =
     (if address \<noteq> '''' then AddressDecodeBase58Check sha256 address else Inr (False, []))"

section \<open>Accounts and transactions\<close>

record raw_data =
  raw_expiration :: "64 word"
  raw_timestamp :: "64 word"
  raw_contracts :: "bytes list"

record tx_message =
  tx_raw :: raw_data
  tx_signatures :: "bytes list"

definition CalcTronPower :: "64 word list \<Rightarrow> 64 word" where
  "CalcTronPower frozen = foldl (+) 0 frozen"

definition TRANSACTION_DELAY_TIME :: nat where
  "TRANSACTION_DELAY_TIME = 8 * 60 * 60 * 1000"

text \<open>
  \<open>add_signatures\<close>: one copy of the signature for each contract. \<open>now1\<close> and \<open>now2\<close> are the two
  readings of the clock.
\<close>

definition add_signatures :: "bytes \<Rightarrow> tx_message \<Rightarrow> bool \<times> tx_message" where
  "add_signatures sig tx =
     (let n = length (raw_contracts (tx_raw tx)) in
      if n > 0 then (True, tx\<lparr>tx_signatures := tx_signatures tx @ replicate n sig\<rparr>) else (False, tx))"

definition SignTransaction_key ::
  "crypto_lib \<Rightarrow> (raw_data \<Rightarrow> bytes) \<Rightarrow> nat \<Rightarrow> nat \<Rightarrow> bytes \<Rightarrow> tx_message \<Rightarrow> (bool \<times> tx_message) result" where
  "SignTransaction_key L ser now1 now2 key tx =
     (if key \<noteq> [] then
        (let raw = (tx_raw tx)\<lparr>raw_expiration := of_nat (now1 + TRANSACTION_DELAY_TIME)\<rparr>;
             raw = raw\<lparr>raw_timestamp := of_nat now2\<rparr>;
             hash = lib_sha256 L (ser raw)
         in rbind (sign L key hash) (\<lambda>sig. Inr (add_signatures sig (tx\<lparr>tx_raw := raw\<rparr>))))
      else Inr (False, tx))"

text \<open>
  The form for the account that is logged in: its Tron address and the secret its key store returns
  for an address. It does not set the expiration.
\<close>

definition SignTransaction_account ::
  "crypto_lib \<Rightarrow> (raw_data \<Rightarrow> bytes) \<Rightarrow> nat \<Rightarrow> bytes \<Rightarrow> (bytes \<Rightarrow> bytes result) \<Rightarrow> tx_message \<Rightarrow> (bool \<times> tx_message) result" where
  "SignTransaction_account L ser now tron_address GetPrivate tx =
     (if tron_address \<noteq> [] then
        rbind (ToAddress tron_address) (\<lambda>address.
        rbind (GetPrivate address) (\<lambda>key.
          if key \<noteq> [] then
            (let raw = (tx_raw tx)\<lparr>raw_timestamp := of_nat now\<rparr>;
                 hash = lib_sha256 L (ser raw)
             in rbind (sign L key hash) (\<lambda>sig. Inr (add_signatures sig (tx\<lparr>tx_raw := raw\<rparr>))))
          else Inr (False, tx)))
      else Inr (False, tx))"

section \<open>Properties of addresses\<close>

lemma address_roundtrip':
  assumes "\<And>x. length (sha256 x) = 32" "length a = 20"
  shows "\<exists>s. s \<noteq> '''' \<and> AddressEncodeBase58Check sha256 (ToTronAddress a) = Inr s
    \<and> CheckAddress sha256 s = Inr (True, ToTronAddress a) \<and> ToAddress (ToTronAddress a) = Inr a"
proof -
  obtain e where e: "EncodeBase58Check sha256 (ToTronAddress a) = Inr e"
    "DecodeBase58Check sha256 e = Inr (True, ToTronAddress a)"
    using Base58Check_roundtrip' [of sha256 "ToTronAddress a"] assms(1) by auto
  have "DecodeBase58 '''' = Inr (Some [])" by code_simp
  then have "DecodeBase58Check sha256 '''' = Inr (False, [])" by (simp add: DecodeBase58Check_def)
  with e(2) have "e \<noteq> ''''" by auto
  moreover have "ToAddress (ToTronAddress a) = Inr a"
    using assms(2) by (auto simp: ToAddress_def ToTronAddress_def hash_of_bytes_def)
  ultimately show ?thesis using e \<open>e \<noteq> ''''\<close>
    by (intro exI [of _ e]) (simp add: AddressEncodeBase58Check_def CheckAddress_def AddressDecodeBase58Check_def)
qed

text \<open>The address a user types is the one that was shown: the Base58Check text of a Tron address
  is accepted by \<open>CheckAddress\<close>, which returns the 21 bytes it was made from, and these convert back
  to the 20-byte address.\<close>

theorem address_roundtrip:
  assumes "\<And>x. length (sha256 x) = 32" "length a = 20"
  shows "\<exists>s. AddressEncodeBase58Check sha256 (ToTronAddress a) = Inr s
    \<and> CheckAddress sha256 s = Inr (True, ToTronAddress a) \<and> ToAddress (ToTronAddress a) = Inr a"
  using address_roundtrip' [of sha256 a] assms by blast

theorem address_roundtrip_witness:
  "\<exists>s. AddressEncodeBase58Check (\<lambda>_. replicate 32 0) (ToTronAddress (replicate 20 7)) = Inr s
    \<and> CheckAddress (\<lambda>_. replicate 32 0) s = Inr (True, ToTronAddress (replicate 20 7))
    \<and> ToAddress (ToTronAddress (replicate 20 7)) = Inr (replicate 20 7)"
  by (rule address_roundtrip) simp_all

section \<open>Properties of signing\<close>

text \<open>A transaction is reported as signed exactly when it has a contract; it then carries one
  more copy of the same 65-byte signature for each contract, over the hash of the raw data as it is
  sent, timestamps included. This holds also for a key the library refuses: the transaction is
  then sent with the null signature.\<close>

theorem SignTransaction_signs:
  assumes "key \<noteq> []" "sign L key (lib_sha256 L (ser (tx_raw tx'))) = Inr sig"
    "tx_raw tx' = (tx_raw tx)\<lparr>raw_expiration := of_nat (now1 + TRANSACTION_DELAY_TIME), raw_timestamp := of_nat now2\<rparr>"
    "tx_signatures tx' = tx_signatures tx @ replicate (length (raw_contracts (tx_raw tx))) sig"
  shows "SignTransaction_key L ser now1 now2 key tx = Inr (raw_contracts (tx_raw tx) \<noteq> [], tx')
    \<and> (ec_sign L (lib_sha256 L (ser (tx_raw tx'))) key = None \<longrightarrow> sig = replicate 65 0)"
  using assms
  by (cases tx, cases tx') (auto simp: SignTransaction_key_def Let_def add_signatures_def sign_def hash_empty_def)

theorem SignTransaction_signs_witness:
  "SignTransaction_key (toy_lib\<lparr>ec_sign := (\<lambda>h k. None)\<rparr>) (\<lambda>r. concat (raw_contracts r)) 1 2 (replicate 32 0)
     \<lparr>tx_raw = \<lparr>raw_expiration = 0, raw_timestamp = 0, raw_contracts = [[1]]\<rparr>, tx_signatures = []\<rparr>
   = Inr (True, \<lparr>tx_raw = \<lparr>raw_expiration = 28800001, raw_timestamp = 2, raw_contracts = [[1]]\<rparr>,
       tx_signatures = [replicate 65 0]\<rparr>)"
  by (subst SignTransaction_signs [where sig = "replicate 65 0", THEN conjunct1])
     (simp_all add: sign_def hash_empty_def TRANSACTION_DELAY_TIME_def)

section \<open>Properties of amounts\<close>

lemma abs_trunc:
  assumes "0 < m"
  shows "\<bar>sgn x * (\<bar>x\<bar> div m)\<bar> = \<bar>x\<bar> div (m :: int)"
proof -
  have "0 \<le> \<bar>x\<bar> div m" using assms by (simp add: pos_imp_zdiv_nonneg_iff)
  then show ?thesis by (cases "x = 0") (simp_all add: abs_mult)
qed

lemma trunc_exact: "x = sgn x * (\<bar>x\<bar> div m) * m \<longleftrightarrow> (m :: int) dvd x"
proof -
  have "x = sgn x * (\<bar>x\<bar> div m) * m \<longleftrightarrow> \<bar>x\<bar> = \<bar>x\<bar> div m * m"
    by (cases x "0 :: int" rule: linorder_cases) (auto simp: sgn_if)
  also have "\<dots> \<longleftrightarrow> m dvd \<bar>x\<bar>" by (metis dvd_div_mult_self dvd_triv_right)
  finally show ?thesis by simp
qed

lemma rat_mult_iff: "of_int x = (of_int y :: rat) * 1000000 \<longleftrightarrow> x = y * 1000000"
proof -
  have "(of_int y :: rat) * 1000000 = of_int (y * 1000000)" by simp
  then show ?thesis by (simp only: of_int_eq_iff)
qed

text \<open>\<open>ToTrx\<close> returns whole TRX only: it is the amount divided by the rate, truncated towards
  zero, so it is exact only for multiples of the rate.\<close>

theorem ToTrx_truncates:
  "\<bar>ToTrx a\<bar> = of_int (\<bar>sint a\<bar> div 1000000) \<and> (of_int (sint a) = ToTrx a * 1000000 \<longleftrightarrow> 1000000 dvd sint a)"
proof
  show "\<bar>ToTrx a\<bar> = of_int (\<bar>sint a\<bar> div 1000000)"
    unfolding ToTrx_def TRX_DROP_RATE_def of_int_abs [symmetric] by (rule arg_cong [where f = of_int], rule abs_trunc) simp
  have "of_int (sint a) = ToTrx a * 1000000 \<longleftrightarrow> sint a = sgn (sint a) * (\<bar>sint a\<bar> div 1000000) * 1000000"
    unfolding ToTrx_def TRX_DROP_RATE_def by (rule rat_mult_iff)
  then show "of_int (sint a) = ToTrx a * 1000000 \<longleftrightarrow> 1000000 dvd sint a" by (simp only: trunc_exact)
qed

text \<open>\<open>ToDrop\<close> truncates the rounded product, so an amount entered in TRX can lose a drop:
  0.000249 TRX, which is 249 drops, is sent as 248.\<close>

theorem ToDrop_loses_a_drop: "ToDrop (fl (249 / 1000000)) = Inr 248"
  by code_simp

end
