(* ===== verification/Json_Value.thy ===== *)
theory Json_Value
  imports Wallet_Prelude "HOL-Library.List_Lexorder" "HOL-Library.Countable"
begin

text \<open>
  The JSON documents the key files are made of, as far as libdevcrypto/SecretStore.cpp and
  wallet/core/key_manager.cpp use them: json_spirit's \<open>mValue\<close> with its typed accessors and the
  ordered \<open>std::map\<close> of \<open>mObject\<close>. The reader, the writer and boost's \<open>to_lower_copy\<close> are
  third-party code: they are the fields of \<open>json_lib\<close>, a parameter.
\<close>

section \<open>Values\<close>

datatype json =
    JNull | JBool bool | JInt int | JUInt nat | JReal rat | JStr string
  | JArr "json list" | JObj "(string \<times> json) list"

type_synonym jobj = "(string \<times> json) list"

instance json :: countable
  by countable_datatype

text \<open>Reading a value at a type it does not have throws.\<close>

definition get_obj :: "json \<Rightarrow> jobj result" where
  "get_obj v = (case v of JObj o' \<Rightarrow> Inr o' | _ \<Rightarrow> Inl JsonError)"

definition get_str :: "json \<Rightarrow> string result" where
  "get_str v = (case v of JStr s \<Rightarrow> Inr s | _ \<Rightarrow> Inl JsonError)"

definition get_int :: "json \<Rightarrow> int result" where
  "get_int v = (case v of JInt i \<Rightarrow> Inr (sint (of_int i :: 32 word)) | _ \<Rightarrow> Inl JsonError)"

lemma get_simps [simp]:
  "get_obj (JObj x) = Inr x" "get_str (JStr s) = Inr s" "get_int (JInt i) = Inr (sint (of_int i :: 32 word))"
  by (simp_all add: get_obj_def get_str_def get_int_def)

lemma get_obj_iff [result_simps]: "get_obj v = Inr x \<longleftrightarrow> v = JObj x"
  and get_str_iff [result_simps]: "get_str v = Inr s \<longleftrightarrow> v = JStr s"
  by (cases v; simp add: get_obj_def get_str_def)+

section \<open>Objects\<close>

text \<open>
  \<open>std::map\<close>: \<open>operator[]\<close> on a missing key reads a null value (and adds it), an assignment keeps the
  keys in order.
\<close>

definition jhas :: "jobj \<Rightarrow> string \<Rightarrow> bool" where
  "jhas x k \<longleftrightarrow> map_of x k \<noteq> None"

definition jat :: "jobj \<Rightarrow> string \<Rightarrow> json" where
  "jat x k = (case map_of x k of Some v \<Rightarrow> v | None \<Rightarrow> JNull)"

fun jput :: "string \<Rightarrow> json \<Rightarrow> jobj \<Rightarrow> jobj" where
  "jput k v [] = [(k, v)]"
| "jput k v ((k', v') # x) =
     (if k = k' then (k, v) # x else if k < k' then (k, v) # (k', v') # x else (k', v') # jput k v x)"

definition jerase :: "string \<Rightarrow> jobj \<Rightarrow> jobj" where
  "jerase k x = filter (\<lambda>(k', v). k' \<noteq> k) x"

lemma map_of_jput [simp]: "map_of (jput k v x) = (map_of x)(k \<mapsto> v)"
  by (induction k v x rule: jput.induct) auto

lemma map_of_jerase: "map_of (jerase k x) = (map_of x)(k := None)"
  by (induction x) (auto simp: jerase_def fun_eq_iff)

lemma jat_jput [simp]: "jat (jput k v x) k' = (if k' = k then v else jat x k')"
  by (simp add: jat_def)

lemma jhas_jput [simp]: "jhas (jput k v x) k' \<longleftrightarrow> k' = k \<or> jhas x k'"
  by (simp add: jhas_def)

lemma jat_jerase [simp]: "jat (jerase k x) k' = (if k' = k then JNull else jat x k')"
  and jhas_jerase [simp]: "jhas (jerase k x) k' \<longleftrightarrow> k' \<noteq> k \<and> jhas x k'"
  by (simp_all add: jat_def jhas_def map_of_jerase)

lemma jat_Nil [simp]: "jat [] k = JNull" and jhas_Nil [simp]: "\<not> jhas [] k"
  by (simp_all add: jat_def jhas_def)

lemma keys_jput: "fst ` set (jput k v x) = insert k (fst ` set x)"
  by (induction k v x rule: jput.induct) auto

lemma sorted_jput: "sorted_wrt (<) (map fst x) \<Longrightarrow> sorted_wrt (<) (map fst (jput k v x))"
proof (induction k v x rule: jput.induct)
  case (2 k v k' v' x)
  have "set (map fst (jput k v x)) = insert k (set (map fst x))" using keys_jput [of k v x] by simp
  then show ?case using 2 by (auto simp del: set_map)
qed simp

section \<open>Library functions\<close>

record json_lib =
  js_read :: "string \<Rightarrow> json"
  js_write :: "json \<Rightarrow> bool \<Rightarrow> string"
  js_lower :: "string \<Rightarrow> string"

text \<open>
  \<open>plain_json\<close>: the documents whose text determines them, without floating point numbers (printed
  with a fixed number of digits) and with printable text.
\<close>

definition plain_char :: "char \<Rightarrow> bool" where
  "plain_char c \<longleftrightarrow> 32 \<le> (of_char c :: nat) \<and> (of_char c :: nat) < 127"

fun plain_json :: "json \<Rightarrow> bool" where
  "plain_json JNull = True"
| "plain_json (JBool b) = True"
| "plain_json (JInt i) = (- (2 ^ 63) \<le> i \<and> i < 2 ^ 63)"
| "plain_json (JUInt n) = (2 ^ 63 \<le> n \<and> n < 2 ^ 64)"
| "plain_json (JReal r) = False"
| "plain_json (JStr s) = list_all plain_char s"
| "plain_json (JArr vs) = (\<forall>v \<in> set vs. plain_json v)"
| "plain_json (JObj x) = (sorted_wrt (<) (map fst x) \<and> (\<forall>(k, v) \<in> set x. list_all plain_char k \<and> plain_json v))"

lemma plain_json_jput:
  "plain_json (JObj x) \<Longrightarrow> list_all plain_char k \<Longrightarrow> plain_json v \<Longrightarrow> plain_json (JObj (jput k v x))"
proof -
  have "set (jput k v x) \<subseteq> insert (k, v) (set x)" for x
    by (induction k v x rule: jput.induct) auto
  then show "plain_json (JObj x) \<Longrightarrow> list_all plain_char k \<Longrightarrow> plain_json v \<Longrightarrow> plain_json (JObj (jput k v x))"
    using sorted_jput [of x k v] by fastforce
qed

text \<open>The documented behaviour of the library on which the key store relies.\<close>

definition js_roundtrip :: "json_lib \<Rightarrow> bool" where
  "js_roundtrip J \<longleftrightarrow> (\<forall>x p. plain_json (JObj x) \<longrightarrow> js_read J (js_write J (JObj x) p) = JObj x)"

lemma js_roundtripD: "js_roundtrip J \<Longrightarrow> plain_json (JObj x) \<Longrightarrow> js_read J (js_write J (JObj x) p) = JObj x"
  by (simp add: js_roundtrip_def)

text \<open>A concrete library: a document is written as the unary form of its number.\<close>

definition toy_json :: json_lib where
  "toy_json = \<lparr>js_read = (\<lambda>s. from_nat (length s)), js_write = (\<lambda>v p. replicate (to_nat v) CHR ''1''),
     js_lower = map (\<lambda>c. if c \<in> set ''ABCDEFGHIJKLMNOPQRSTUVWXYZ'' then char_of (of_char c + 32 :: nat) else c)\<rparr>"

lemma toy_json_roundtrip: "js_roundtrip toy_json"
  by (simp add: js_roundtrip_def toy_json_def)

section \<open>Numbers in text\<close>

text \<open>\<open>std::stoi\<close>: leading white space, a sign, then at least one decimal digit; the rest is ignored.\<close>

definition is_digit :: "char \<Rightarrow> bool" where
  "is_digit c \<longleftrightarrow> c \<in> set ''0123456789''"

definition digits_value :: "string \<Rightarrow> int" where
  "digits_value s = foldl (\<lambda>v c. v * 10 + (int (of_char c) - 48)) 0 s"

definition stoi :: "string \<Rightarrow> int result" where
  "stoi s =
     (let s = dropWhile (\<lambda>c. (of_char c :: nat) = 32 \<or> (9 \<le> (of_char c :: nat) \<and> (of_char c :: nat) \<le> 13)) s;
          (neg, s) = (case s of c # s' \<Rightarrow> if c = CHR ''-'' then (True, s') else if c = CHR ''+'' then (False, s') else (False, s)
                      | [] \<Rightarrow> (False, s));
          ds = takeWhile is_digit s;
          v = (if neg then - digits_value ds else digits_value ds)
      in if ds = '''' then Inl JsonError
         else if v < - (2 ^ 31) \<or> 2 ^ 31 \<le> v then Inl OutOfRange else Inr v)"

end
