(* ===== verification/Secret_Store.thy ===== *)
theory Secret_Store
  imports Json_Value Crypto_Common Rlp_Reader
begin

text \<open>
  libdevcrypto/SecretStore.cpp: the store of password-encrypted secret keys, one JSON file per key.
  An \<open>unordered_map\<close> is an association list in its order of iteration. The disk is the map from the
  canonical name of a file to its bytes; reading or writing it does not fail. Paths, JSON text and
  cryptography are library code, the fields of \<open>host\<close>; random values and the listing of a directory
  are arguments. A member function that changes the store returns the new store, also when it throws.
\<close>

record host =
  crypto :: crypto_lib
  jlib :: json_lib
  path_join :: "string \<Rightarrow> string \<Rightarrow> string"
  path_filename :: "string \<Rightarrow> string"
  path_parent :: "string \<Rightarrow> string"

section \<open>Files\<close>

type_synonym disk = "string \<rightharpoonup> bytes"

definition appendToFilename :: "host \<Rightarrow> string \<Rightarrow> string \<Rightarrow> string" where
  "appendToFilename H orig suffix =
     (if path_filename H orig = ''.'' \<or> path_filename H orig = ''..'' then path_join H orig suffix
      else path_join H (path_parent H orig) (path_filename H orig @ suffix))"

text \<open>With \<open>writeDeleteRename\<close> the data goes to a temporary file that then replaces the target.\<close>

definition writeFile :: "host \<Rightarrow> string \<Rightarrow> bytes \<Rightarrow> bool \<Rightarrow> disk \<Rightarrow> disk" where
  "writeFile H fname data writeDeleteRename d =
     (if writeDeleteRename then
        (let tempPath = appendToFilename H fname ''-%%%%%%''; d = d(tempPath \<mapsto> data)
         in (d(tempPath := None))(fname := d tempPath))
      else d(fname \<mapsto> data))"

definition contents :: "disk \<Rightarrow> string \<Rightarrow> bytes" where
  "contents d fname = (case d fname of None \<Rightarrow> [] | Some b \<Rightarrow> b)"

definition contentsString :: "disk \<Rightarrow> string \<Rightarrow> string" where
  "contentsString d fname = asString (contents d fname)"

section \<open>the format of a key file\<close>

definition c_keyFileVersion :: int where
  "c_keyFileVersion = 3"

definition jobj_at :: "jobj \<Rightarrow> string \<Rightarrow> jobj result" where
  "jobj_at x k = get_obj (jat x k)"

definition jstr_at :: "jobj \<Rightarrow> string \<Rightarrow> string result" where
  "jstr_at x k = get_str (jat x k)"

definition key_version :: "jobj \<Rightarrow> int result" where
  "key_version ret =
     (if jhas ret ''Version'' then rbind (jstr_at ret ''Version'') stoi
      else if jhas ret ''version'' then get_int (jat ret ''version'') else Inr 0)"

text \<open>Version 1 of the format is rewritten; \<open>s\<close> is the text it was read from.\<close>

definition upgrade1 :: "host \<Rightarrow> string \<Rightarrow> jobj \<Rightarrow> jobj result" where
  "upgrade1 H s old =
     rbind (jobj_at old ''Crypto'') (\<lambda>oc.
     rbind (jobj_at oc ''KeyHeader'') (\<lambda>kh.
     rbind (jobj_at kh ''KdfParams'') (\<lambda>kps.
       let c = jput ''ciphertext'' (jat oc ''CipherText'') [];
           c = jput ''cipher'' (JStr ''aes-128-cbc'') c;
           cp = jput ''iv'' (jat oc ''IV'') [];
           c = jput ''cipherparams'' (JObj cp) c;
           c = jput ''kdf'' (jat kh ''Kdf'') c;
           kp = jput ''salt'' (jat oc ''Salt'') [];
           kp = foldl (\<lambda>kp (k, v). if k \<noteq> ''SaltLen'' then jput (js_lower (jlib H) k) v kp else kp) kp kps;
           c = jput ''kdfparams'' (JObj kp) c;
           c = jput ''sillymac'' (jat oc ''MAC'') c;
           c = jput ''sillymacjson'' (JStr s) c
       in Inr (jput ''crypto'' (JObj c) (jput ''id'' (jat old ''Id'') [])))))"

definition upgraded :: "host \<Rightarrow> string \<Rightarrow> json result" where
  "upgraded H s =
     (case js_read (jlib H) s of
        JObj ret \<Rightarrow>
          rbind (key_version ret) (\<lambda>version.
          rbind (if version = 1 then rbind (upgrade1 H s ret) (\<lambda>ret. Inr (ret, 2)) else Inr (ret, version))
            (\<lambda>(ret, version).
          let ret = (if jhas ret ''Crypto'' \<and> \<not> jhas ret ''crypto''
                     then jerase ''Crypto'' (jput ''crypto'' (jat ret ''Crypto'') ret) else ret)
          in rbind (if version = 2
                    then rbind (jobj_at ret ''crypto'') (\<lambda>c.
                           let c = jput ''cipher'' (JStr ''aes-128-ctr'') c; c = jput ''compat'' (JStr ''2'') c
                           in Inr (jput ''crypto'' (JObj c) ret, 3))
                    else Inr (ret, version))
            (\<lambda>(ret, version). if version = c_keyFileVersion then Inr (JObj ret) else Inr JNull)))
      | _ \<Rightarrow> Inr JNull)"

section \<open>Encryption of a secret\<close>

datatype KDF = PBKDF2_SHA256 | Scrypt

definition u32 :: "int \<Rightarrow> nat" where "u32 i = nat (i mod 2 ^ 32)"
definition u64 :: "int \<Rightarrow> nat" where "u64 i = nat (i mod 2 ^ 64)"

definition deriveNewKey :: "host \<Rightarrow> bytes \<Rightarrow> string \<Rightarrow> KDF \<Rightarrow> jobj \<Rightarrow> (bytes \<times> jobj) result" where
  "deriveNewKey H salt pass kdf o_ret =
     (let dklen = 32; iterations = 2 ^ 18 in
      if kdf = Scrypt then
        (let p = 1; r = 8;
             o_ret = jput ''kdf'' (JStr ''scrypt'') o_ret;
             params = jput ''n'' (JInt (int iterations)) [];
             params = jput ''r'' (JInt (int r)) params;
             params = jput ''p'' (JInt (int p)) params;
             params = jput ''dklen'' (JInt (int dklen)) params;
             params = jput ''salt'' (JStr (toHex salt)) params;
             o_ret = jput ''kdfparams'' (JObj params) o_ret
         in rbind (scrypt (crypto H) pass salt iterations r p dklen) (\<lambda>k. Inr (k, o_ret)))
      else
        (let o_ret = jput ''kdf'' (JStr ''pbkdf2'') o_ret;
             params = jput ''prf'' (JStr ''hmac-sha256'') [];
             params = jput ''c'' (JInt (int iterations)) params;
             params = jput ''salt'' (JStr (toHex salt)) params;
             params = jput ''dklen'' (JInt (int dklen)) params;
             o_ret = jput ''kdfparams'' (JObj params) o_ret
         in rbind (pbkdf2 (crypto H) pass salt iterations dklen) (\<lambda>k. Inr (k, o_ret))))"

definition encrypt :: "host \<Rightarrow> bytes \<Rightarrow> bytes \<Rightarrow> bytes \<Rightarrow> string \<Rightarrow> KDF \<Rightarrow> string result" where
  "encrypt H salt iv v pass kdf =
     rbind (deriveNewKey H salt pass kdf []) (\<lambda>(derivedKey, ret).
       if derivedKey = [] then Inl CryptoException
       else
         (let ret = jput ''cipher'' (JStr ''aes-128-ctr'') ret;
              key = hash_of_bytes 16 AlignLeft derivedKey;
              params = jput ''iv'' (JStr (toHex iv)) [];
              ret = jput ''cipherparams'' (JObj params) ret;
              cipherText = encryptSymNoAuth (crypto H) key iv v
          in if cipherText = [] then Inl CryptoException
             else
               (let ret = jput ''ciphertext'' (JStr (toHex cipherText)) ret;
                    mac = sha3 (cropped derivedKey 16 16 @ cipherText);
                    ret = jput ''mac'' (JStr (toHex mac)) ret
                in Inr (js_write (jlib H) (JObj ret) True))))"

text \<open>
  The key derivation recorded in a document. \<open>None\<close> is the early return for an unknown function.
\<close>

definition pbkdf2_of :: "host \<Rightarrow> string \<Rightarrow> jobj \<Rightarrow> bytes result" where
  "pbkdf2_of H pass params =
     rbind (get_int (jat params ''c'')) (\<lambda>iterations.
     rbind (jstr_at params ''salt'') (\<lambda>salt.
     rbind (get_int (jat params ''dklen'')) (\<lambda>dklen.
       pbkdf2 (crypto H) pass (fromHex salt) (u32 iterations) (u32 dklen))))"

definition scrypt_of :: "host \<Rightarrow> string \<Rightarrow> jobj \<Rightarrow> bytes result" where
  "scrypt_of H pass p =
     rbind (jstr_at p ''salt'') (\<lambda>salt. rbind (get_int (jat p ''n'')) (\<lambda>n. rbind (get_int (jat p ''r'')) (\<lambda>r.
     rbind (get_int (jat p ''p'')) (\<lambda>pp. rbind (get_int (jat p ''dklen'')) (\<lambda>dklen.
       scrypt (crypto H) pass (fromHex salt) (u64 n) (u32 r) (u32 pp) (u32 dklen))))))"

definition stored_key :: "host \<Rightarrow> string \<Rightarrow> jobj \<Rightarrow> bytes option result" where
  "stored_key H pass ob =
     rbind (jstr_at ob ''kdf'') (\<lambda>kdf.
       if kdf = ''pbkdf2'' then
         rbind (jobj_at ob ''kdfparams'') (\<lambda>params. rbind (jstr_at params ''prf'') (\<lambda>prf.
           if prf \<noteq> ''hmac-sha256'' then Inr None
           else rbind (pbkdf2_of H pass params) (\<lambda>k. Inr (Some k))))
       else if kdf = ''scrypt'' then
         rbind (jobj_at ob ''kdfparams'') (\<lambda>p. rbind (scrypt_of H pass p) (\<lambda>k. Inr (Some k)))
       else Inr None)"

definition is_compat :: "jobj \<Rightarrow> bool result" where
  "is_compat ob = (if jhas ob ''compat'' then rbind (jstr_at ob ''compat'') (\<lambda>s. Inr (s = ''2'')) else Inr False)"

text \<open>The last 16 bytes; below that length the offset wraps and the view is empty.\<close>

definition tail16 :: "bytes \<Rightarrow> bytes" where
  "tail16 dk = cropped_from dk (if 16 \<le> length dk then length dk - 16 else 2 ^ 64 + length dk - 16)"

definition mac_ok :: "jobj \<Rightarrow> bytes \<Rightarrow> bytes \<Rightarrow> bool result" where
  "mac_ok ob derivedKey cipherText =
     (if jhas ob ''mac'' then
        rbind (rbind (jstr_at ob ''mac'') (hash_of_string 32 FromHex FailIfDifferent)) (\<lambda>mac.
        rbind (is_compat ob) (\<lambda>compat.
          Inr (mac = (if compat then sha3 (tail16 derivedKey @ cipherText)
                      else sha3 (cropped derivedKey 16 16 @ cipherText)))))
      else if jhas ob ''sillymac'' then
        rbind (rbind (jstr_at ob ''sillymac'') (hash_of_string 32 FromHex FailIfDifferent)) (\<lambda>mac.
        rbind (jstr_at ob ''sillymacjson'') (\<lambda>j.
          Inr (mac = sha3 (asBytes j @ tail16 derivedKey @ cipherText))))
      else Inr True)"

definition decrypt_cipher :: "host \<Rightarrow> jobj \<Rightarrow> bytes \<Rightarrow> bytes \<Rightarrow> bytes result" where
  "decrypt_cipher H ob derivedKey cipherText =
     rbind (jstr_at ob ''cipher'') (\<lambda>cipher.
       if cipher = ''aes-128-ctr'' then
         rbind (jobj_at ob ''cipherparams'') (\<lambda>params.
         rbind (rbind (jstr_at params ''iv'') (hash_of_string 16 FromHex FailIfDifferent)) (\<lambda>iv.
         rbind (is_compat ob) (\<lambda>compat.
           Inr (decryptSymNoAuth (crypto H)
                  (if compat then hash_of_hash 16 AlignRight (sha3 (tail16 derivedKey))
                   else hash_of_bytes 16 AlignLeft derivedKey) iv cipherText))))
       else Inr [])"

definition decrypt :: "host \<Rightarrow> string \<Rightarrow> string \<Rightarrow> bytes result" where
  "decrypt H v pass =
     rbind (get_obj (js_read (jlib H) v)) (\<lambda>ob.
     rbind (stored_key H pass ob) (\<lambda>dk.
       case dk of None \<Rightarrow> Inr []
       | Some derivedKey \<Rightarrow>
           rbind (if length derivedKey < 32 then rbind (is_compat ob) (\<lambda>c. Inr (\<not> c)) else Inr False) (\<lambda>short.
             if short then Inr []
             else rbind (jstr_at ob ''ciphertext'') (\<lambda>ct.
               let cipherText = fromHex ct in
               rbind (mac_ok ob derivedKey cipherText) (\<lambda>valid.
                 if \<not> valid then Inr [] else decrypt_cipher H ob derivedKey cipherText)))))"

section \<open>The store\<close>

record encrypted_key =
  encryptedKey :: string
  filename :: string
  address :: bytes

record secret_store =
  m_cached :: "(bytes \<times> bytes) list"
  m_keys :: "(bytes \<times> encrypted_key) list"
  m_path :: string
  ss_disk :: disk

definition ss_empty :: "disk \<Rightarrow> secret_store" where
  "ss_empty d = \<lparr>m_cached = [], m_keys = [], m_path = '''', ss_disk = d\<rparr>"

definition ss_keys :: "secret_store \<Rightarrow> bytes list" where
  "ss_keys s = map fst (m_keys s)"

definition ss_contains :: "secret_store \<Rightarrow> bytes \<Rightarrow> bool" where
  "ss_contains s k \<longleftrightarrow> map_of (m_keys s) k \<noteq> None"

definition ss_address :: "secret_store \<Rightarrow> bytes \<Rightarrow> bytes result" where
  "ss_address s uuid = (case map_of (m_keys s) uuid of Some k \<Rightarrow> Inr (address k) | None \<Rightarrow> Inl OutOfRange)"

text \<open>\<open>key\<close>: the first entry, in iteration order, with the address.\<close>

definition ss_key :: "secret_store \<Rightarrow> bytes \<Rightarrow> (bytes \<times> encrypted_key) option" where
  "ss_key s a = find (\<lambda>(u, k). address k = a) (m_keys s)"

definition noteAddress :: "bytes \<Rightarrow> bytes \<Rightarrow> secret_store \<Rightarrow> bool \<times> secret_store" where
  "noteAddress uuid a s =
     (case map_of (m_keys s) uuid of
        Some k \<Rightarrow> if address k = ZeroAddress then (True, s\<lparr>m_keys := al_put uuid (k\<lparr>address := a\<rparr>) (m_keys s)\<rparr>)
                  else (False, s)
      | None \<Rightarrow> (False, s))"

definition clearCache :: "secret_store \<Rightarrow> secret_store" where
  "clearCache s = s\<lparr>m_cached := []\<rparr>"

text \<open>
  \<open>save\<close> writes one canonical file per key and then removes the file the key came from.
\<close>

definition key_file :: "host \<Rightarrow> string \<Rightarrow> bytes \<Rightarrow> string" where
  "key_file H path u = path_join H path (toUUID u) @ ''.json''"

definition key_document :: "host \<Rightarrow> bytes \<Rightarrow> encrypted_key \<Rightarrow> json" where
  "key_document H u k =
     (let crypto = js_read (jlib H) (encryptedKey k);
          v = jput ''address'' (JStr (hash_hex (address k))) [];
          v = jput ''crypto'' crypto v;
          v = jput ''id'' (JStr (toUUID u)) v;
          v = jput ''version'' (JInt c_keyFileVersion) v
      in JObj v)"

fun save_keys :: "host \<Rightarrow> string \<Rightarrow> (bytes \<times> encrypted_key) list \<Rightarrow> disk \<Rightarrow> (bytes \<times> encrypted_key) list \<times> disk" where
  "save_keys H path [] d = ([], d)"
| "save_keys H path ((u, k) # ks) d =
     (let new = key_file H path u;
          d = writeFile H new (asBytes (js_write (jlib H) (key_document H u k) True)) False d;
          old = filename k;
          k = k\<lparr>filename := new\<rparr>;
          d = (if old \<noteq> '''' \<and> old \<noteq> new then d(old := None) else d);
          (ks, d) = save_keys H path ks d
      in ((u, k) # ks, d))"

definition save_to :: "host \<Rightarrow> string \<Rightarrow> secret_store \<Rightarrow> secret_store" where
  "save_to H path s = (case save_keys H path (m_keys s) (ss_disk s) of (ks, d) \<Rightarrow> s\<lparr>m_keys := ks, ss_disk := d\<rparr>)"

definition save :: "host \<Rightarrow> secret_store \<Rightarrow> secret_store" where
  "save H s = save_to H (m_path s) s"

text \<open>
  \<open>readKeyContent\<close> catches every exception; the null id reports a failure. The new entry replaces one
  with the same id.
\<close>

definition read_address :: "jobj \<Rightarrow> bytes result" where
  "read_address ob =
     (if jhas ob ''address'' then
        rbind (jstr_at ob ''address'') (\<lambda>a.
          if isHex a then hash_of_string 20 FromHex FailIfDifferent a else Inr ZeroAddress)
      else Inr ZeroAddress)"

definition readKeyContent :: "host \<Rightarrow> string \<Rightarrow> string \<Rightarrow> secret_store \<Rightarrow> bytes \<times> secret_store" where
  "readKeyContent H content fname s =
     (case rbind (upgraded H content) (\<lambda>u.
             case u of
               JObj ob \<Rightarrow> rbind (jstr_at ob ''id'') (\<lambda>i. rbind (read_address ob) (\<lambda>a.
                 Inr (Some (fromUUID i, \<lparr>encryptedKey = js_write (jlib H) (jat ob ''crypto'') False,
                                         filename = fname, address = a\<rparr>))))
             | _ \<Rightarrow> Inr None) of
        Inr (Some (uuid, k)) \<Rightarrow> (uuid, s\<lparr>m_keys := al_put uuid k (m_keys s)\<rparr>)
      | _ \<Rightarrow> (hash_empty 16, s))"

definition readKey :: "host \<Rightarrow> string \<Rightarrow> bool \<Rightarrow> secret_store \<Rightarrow> bytes \<times> secret_store" where
  "readKey H fname takeFileOwnership s =
     readKeyContent H (contentsString (ss_disk s) fname) (if takeFileOwnership then fname else '''') s"

text \<open>\<open>load\<close> reads the regular files of the directory in the order of its listing.\<close>

definition load :: "host \<Rightarrow> string list \<Rightarrow> secret_store \<Rightarrow> secret_store" where
  "load H listing s = foldl (\<lambda>s fname. snd (readKey H fname True s)) s listing"

definition setPath :: "host \<Rightarrow> string list \<Rightarrow> string \<Rightarrow> secret_store \<Rightarrow> secret_store" where
  "setPath H listing path s = load H listing (s\<lparr>m_path := path\<rparr>)"

definition SecretStore_open :: "host \<Rightarrow> string list \<Rightarrow> string \<Rightarrow> disk \<Rightarrow> secret_store" where
  "SecretStore_open H listing path d = load H listing ((ss_empty d)\<lparr>m_path := path\<rparr>)"

definition importKey :: "host \<Rightarrow> string \<Rightarrow> secret_store \<Rightarrow> bytes \<times> secret_store" where
  "importKey H fname s =
     (case readKey H fname False s of (ret, s) \<Rightarrow> if hash_bool ret then (ret, save H s) else (ret, s))"

definition importKeyContent :: "host \<Rightarrow> string \<Rightarrow> secret_store \<Rightarrow> bytes \<times> secret_store" where
  "importKeyContent H content s =
     (case readKeyContent H content '''' s of (ret, s) \<Rightarrow> if hash_bool ret then (ret, save H s) else (ret, s))"

section \<open>Secrets\<close>

text \<open>
  The password is asked for by a call that may change the caller's state \<open>c\<close>; it is called at most
  once, and only when the key has to be decrypted.
\<close>

definition secret_uuid ::
  "host \<Rightarrow> bytes \<Rightarrow> ('c \<Rightarrow> string result \<times> 'c) \<Rightarrow> bool \<Rightarrow> secret_store \<Rightarrow> 'c \<Rightarrow> bytes result \<times> secret_store \<times> 'c" where
  "secret_uuid H uuid pass useCache s c =
     (case (if useCache then map_of (m_cached s) uuid else None) of
        Some key \<Rightarrow> (Inr key, s, c)
      | None \<Rightarrow>
          (case map_of (m_keys s) uuid of
             None \<Rightarrow> (Inr [], s, c)
           | Some k \<Rightarrow>
               (case pass c of (p, c) \<Rightarrow>
                 (case rbind p (decrypt H (encryptedKey k)) of
                    Inl e \<Rightarrow> (Inl e, s, c)
                  | Inr key \<Rightarrow>
                      if key \<noteq> [] then
                        (let s = s\<lparr>m_cached := al_put uuid key (m_cached s)\<rparr>
                         in case toAddress_secret (crypto H) (hash_of_bytes 32 FailIfDifferent key) of
                              Inl e \<Rightarrow> (Inl e, s, c)
                            | Inr a \<Rightarrow> (Inr key, snd (noteAddress uuid a s), c))
                      else (Inr key, s, c)))))"

definition secret_address ::
  "host \<Rightarrow> bytes \<Rightarrow> ('c \<Rightarrow> string result \<times> 'c) \<Rightarrow> secret_store \<Rightarrow> 'c \<Rightarrow> bytes result \<times> 'c" where
  "secret_address H a pass s c =
     (case ss_key s a of
        None \<Rightarrow> (Inr [], c)
      | Some (u, k) \<Rightarrow> (case pass c of (p, c) \<Rightarrow> (rbind p (decrypt H (encryptedKey k)), c)))"

definition secret_content :: "host \<Rightarrow> string \<Rightarrow> string \<Rightarrow> bytes" where
  "secret_content H content pass =
     (case rbind (upgraded H content) (\<lambda>u.
             case u of JObj ob \<Rightarrow> decrypt H (js_write (jlib H) (jat ob ''crypto'') False) pass
             | _ \<Rightarrow> Inr []) of
        Inr b \<Rightarrow> b | Inl _ \<Rightarrow> [])"

text \<open>\<open>r\<close>, \<open>salt\<close> and \<open>iv\<close> are the random values drawn, in this order.\<close>

definition importSecret ::
  "host \<Rightarrow> bytes \<Rightarrow> bytes \<Rightarrow> bytes \<Rightarrow> bytes \<Rightarrow> string \<Rightarrow> secret_store \<Rightarrow> bytes result \<times> secret_store" where
  "importSecret H r salt iv sec pass s =
     (case rbind (encrypt H salt iv sec pass PBKDF2_SHA256) (\<lambda>e.
           rbind (KeyPair_of (crypto H) (hash_of_bytes 32 FailIfDifferent sec)) (\<lambda>kp.
             Inr \<lparr>encryptedKey = e, filename = toUUID r, address = m_address kp\<rparr>)) of
        Inl e \<Rightarrow> (Inl e, s)
      | Inr k \<Rightarrow>
          (Inr r, save H (s\<lparr>m_cached := al_put r sec (m_cached s), m_keys := al_put r k (m_keys s)\<rparr>)))"

definition kill :: "bytes \<Rightarrow> secret_store \<Rightarrow> secret_store" where
  "kill uuid s =
     (let s = s\<lparr>m_cached := al_del uuid (m_cached s)\<rparr>
      in case map_of (m_keys s) uuid of
           Some k \<Rightarrow> s\<lparr>ss_disk := (ss_disk s)(filename k := None), m_keys := al_del uuid (m_keys s)\<rparr>
         | None \<Rightarrow> s)"

text \<open>\<open>operator[]\<close> on a missing id creates an entry with empty fields.\<close>

definition recode_uuid ::
  "host \<Rightarrow> bytes \<Rightarrow> bytes \<Rightarrow> bytes \<Rightarrow> string \<Rightarrow> ('c \<Rightarrow> string result \<times> 'c) \<Rightarrow> KDF \<Rightarrow> secret_store \<Rightarrow> 'c
     \<Rightarrow> bool result \<times> secret_store \<times> 'c" where
  "recode_uuid H salt iv uuid newPass pass kdf s c =
     (case secret_uuid H uuid pass True s c of
        (Inl e, s, c) \<Rightarrow> (Inl e, s, c)
      | (Inr sec, s, c) \<Rightarrow>
          if sec = [] then (Inr False, s, c)
          else
            (let s = s\<lparr>m_cached := al_del uuid (m_cached s)\<rparr>;
                 k = (case map_of (m_keys s) uuid of Some k \<Rightarrow> k
                      | None \<Rightarrow> \<lparr>encryptedKey = '''', filename = '''', address = ZeroAddress\<rparr>)
             in case encrypt H salt iv sec newPass kdf of
                  Inl e \<Rightarrow> (Inl e, s, c)
                | Inr e \<Rightarrow> (Inr True, save H (s\<lparr>m_keys := al_put uuid (k\<lparr>encryptedKey := e\<rparr>) (m_keys s)\<rparr>), c)))"

definition recode_address ::
  "host \<Rightarrow> bytes \<Rightarrow> bytes \<Rightarrow> bytes \<Rightarrow> string \<Rightarrow> ('c \<Rightarrow> string result \<times> 'c) \<Rightarrow> KDF \<Rightarrow> secret_store \<Rightarrow> 'c
     \<Rightarrow> bool result \<times> secret_store \<times> 'c" where
  "recode_address H salt iv a newPass pass kdf s c =
     (case ss_key s a of
        None \<Rightarrow> (Inr False, s, c)
      | Some (u, k) \<Rightarrow>
          (case secret_address H a pass s c of
             (Inl e, c) \<Rightarrow> (Inl e, s, c)
           | (Inr sec, c) \<Rightarrow>
               if sec = [] then (Inr False, s, c)
               else case encrypt H salt iv sec newPass kdf of
                      Inl e \<Rightarrow> (Inl e, s, c)
                    | Inr e \<Rightarrow> (Inr True, save H (s\<lparr>m_keys := al_put u (k\<lparr>encryptedKey := e\<rparr>) (m_keys s)\<rparr>), c)))"

section \<open>Encryption under a stored key\<close>

text \<open>Unlike \<open>decrypt\<close>, an unknown pseudo-random function is only reported.\<close>

definition derive_from_stored :: "host \<Rightarrow> string \<Rightarrow> jobj \<Rightarrow> bytes result" where
  "derive_from_stored H pass ob =
     rbind (jstr_at ob ''kdf'') (\<lambda>kdf.
       if kdf = ''pbkdf2'' then
         rbind (jobj_at ob ''kdfparams'') (\<lambda>params. rbind (jstr_at params ''prf'') (\<lambda>prf. pbkdf2_of H pass params))
       else if kdf = ''scrypt'' then rbind (jobj_at ob ''kdfparams'') (scrypt_of H pass)
       else Inr [])"

definition stored_iv :: "jobj \<Rightarrow> bytes result" where
  "stored_iv ob = rbind (jobj_at ob ''cipherparams'') (\<lambda>params.
     rbind (jstr_at params ''iv'') (hash_of_string 16 FromHex FailIfDifferent))"

definition encryptUseEncryptedKey :: "host \<Rightarrow> bytes \<Rightarrow> bytes \<Rightarrow> string \<Rightarrow> secret_store \<Rightarrow> bytes result" where
  "encryptUseEncryptedKey H v a pass s =
     (case ss_key s a of
        None \<Rightarrow> Inr []
      | Some (u, k) \<Rightarrow>
          rbind (get_obj (js_read (jlib H) (encryptedKey k))) (\<lambda>ob.
          rbind (derive_from_stored H pass ob) (\<lambda>derivedKey.
            if derivedKey \<noteq> [] then
              rbind (jstr_at ob ''cipher'') (\<lambda>cipher.
                if cipher = ''aes-128-ctr'' then
                  rbind (stored_iv ob) (\<lambda>iv.
                    let cipherText = encryptSymNoAuth (crypto H) (hash_of_bytes 16 AlignLeft derivedKey) iv v
                    in if cipherText = [] then Inl CryptoException else Inr cipherText)
                else Inr [])
            else Inr [])))"

definition decryptUseEncryptedKey :: "host \<Rightarrow> bytes \<Rightarrow> bytes \<Rightarrow> string \<Rightarrow> secret_store \<Rightarrow> bytes result" where
  "decryptUseEncryptedKey H v a pass s =
     (case ss_key s a of
        None \<Rightarrow> Inr []
      | Some (u, k) \<Rightarrow>
          rbind (get_obj (js_read (jlib H) (encryptedKey k))) (\<lambda>ob.
          rbind (derive_from_stored H pass ob) (\<lambda>derivedKey.
            if derivedKey \<noteq> [] then
              rbind (jstr_at ob ''cipher'') (\<lambda>cipher.
                if cipher = ''aes-128-ctr'' then
                  rbind (stored_iv ob) (\<lambda>iv.
                    Inr (decryptSymNoAuth (crypto H) (hash_of_bytes 16 AlignLeft derivedKey) iv v))
                else Inr [])
            else Inr [])))"

end
