(* ===== verification/Effects.thy ===== *)
theory Effects
  imports Wallet_Prelude
begin

text \<open>
  State and exceptions together: a member function that may throw returns the outcome and the state
  of its object, also when it throws. \<open>sbind\<close> sequences two such calls, \<open>sreturn\<close>, \<open>smodify\<close> and
  \<open>slift\<close> embed values, assignments and fallible pure computations.
\<close>

type_synonym ('s, 'a) action = "'s \<Rightarrow> 'a result \<times> 's"

definition sreturn :: "'a \<Rightarrow> ('s, 'a) action" where
  "sreturn x s = (Inr x, s)"

definition slift :: "'a result \<Rightarrow> ('s, 'a) action" where
  "slift r s = (r, s)"

definition smodify :: "('s \<Rightarrow> 's) \<Rightarrow> ('s, unit) action" where
  "smodify f s = (Inr (), f s)"

definition sbind :: "('s, 'a) action \<Rightarrow> ('a \<Rightarrow> ('s, 'b) action) \<Rightarrow> ('s, 'b) action" where
  "sbind m f s = (case m s of (Inl e, s) \<Rightarrow> (Inl e, s) | (Inr x, s) \<Rightarrow> f x s)"

lemma action_simps [simp]:
  "sreturn x s = (Inr x, s)" "slift r s = (r, s)" "smodify f s = (Inr (), f s)"
  by (simp_all add: sreturn_def slift_def smodify_def)

lemma sbind_Inr: "m s = (Inr x, t) \<Longrightarrow> sbind m f s = f x t"
  and sbind_Inl: "m s = (Inl e, t) \<Longrightarrow> sbind m f s = (Inl e, t)"
  by (simp_all add: sbind_def)

lemma sbind_return [simp]: "sbind (sreturn x) f s = f x s"
  and sbind_lift_Inr [simp]: "sbind (slift (Inr x)) f s = f x s"
  and sbind_lift_Inl [simp]: "sbind (slift (Inl e)) f s = (Inl e, s)"
  by (simp_all add: sbind_def)

lemma sbind_modify [simp]: "sbind (smodify g) f s = f () (g s)"
  by (simp add: sbind_def)

text \<open>What an action keeps of the state, whatever its outcome.\<close>

definition keeps :: "('s \<Rightarrow> bool) \<Rightarrow> ('s, 'a) action \<Rightarrow> bool" where
  "keeps P m \<longleftrightarrow> (\<forall>s. P s \<longrightarrow> P (snd (m s)))"

named_theorems keeps_intros \<open>invariants of composed actions\<close>

lemma keepsD: "keeps P m \<Longrightarrow> P s \<Longrightarrow> P (snd (m s))"
  by (simp add: keeps_def)

lemma keeps_return [keeps_intros]: "keeps P (sreturn x)"
  and keeps_lift [keeps_intros]: "keeps P (slift r)"
  by (simp_all add: keeps_def)

lemma keeps_modify: "(\<And>s. P s \<Longrightarrow> P (f s)) \<Longrightarrow> keeps P (smodify f)"
  by (simp add: keeps_def)

lemma keeps_bind [keeps_intros]:
  assumes "keeps P m" "\<And>x. keeps P (f x)"
  shows "keeps P (sbind m f)"
  unfolding keeps_def
proof (intro allI impI)
  fix s assume "P s"
  obtain r t where m: "m s = (r, t)" by fastforce
  with assms(1) \<open>P s\<close> have "P t" by (auto simp: keeps_def)
  with assms(2) m show "P (snd (sbind m f s))" by (cases r) (auto simp: sbind_def keeps_def)
qed

lemma keeps_if [keeps_intros]: "keeps P a \<Longrightarrow> keeps P b \<Longrightarrow> keeps P (if c then a else b)"
  by simp

end
