(* ===== verification/Key_Manager.thy ===== *)
theory Key_Manager
  imports Secret_Store Effects
begin

text \<open>
  wallet/core/key_manager.cpp: the manager of the accounts. It relates addresses to the ids of the
  keys in the store, keeps for each account the hash of its password, its name and a hint, caches
  passwords under their hash, and writes all this, encrypted, to the keys file. A member function is
  an action on the record \<open>key_manager\<close>; a callback that asks the user for a password acts on a state
  \<open>c\<close> of its own. Random values are arguments.
\<close>

section \<open>State\<close>

record key_info =
  passHash :: bytes
  accountName :: string
  passwordHint :: string

record key_manager =
  m_uuidLookup :: "(bytes \<times> bytes) list"
  m_addrLookup :: "(bytes \<times> bytes) list"
  m_keyInfo :: "(bytes \<times> key_info) list"
  m_passwordHint :: "(bytes \<times> string) list"
  m_cachedPasswords :: "(bytes \<times> string) list"
  m_defaultPasswordDeprecated :: string
  m_keysFile :: string
  m_keysFileKey :: bytes
  m_master :: bytes
  m_store :: secret_store

definition UnknownPassword :: bytes where
  "UnknownPassword = hash_empty 32"

definition empty_info :: key_info where
  "empty_info = \<lparr>passHash = hash_empty 32, accountName = '''', passwordHint = ''''\<rparr>"

definition km_uuid :: "key_manager \<Rightarrow> bytes \<Rightarrow> bytes" where
  "km_uuid km a = (case map_of (m_addrLookup km) a of Some u \<Rightarrow> u | None \<Rightarrow> hash_empty 16)"

definition km_address :: "key_manager \<Rightarrow> bytes \<Rightarrow> bytes" where
  "km_address km u = (case map_of (m_uuidLookup km) u of Some a \<Rightarrow> a | None \<Rightarrow> hash_empty 20)"

text \<open>The constructor opens the store and relates every key in it to its address.\<close>

definition KeyManager_new :: "string \<Rightarrow> secret_store \<Rightarrow> key_manager" where
  "KeyManager_new keysFile store =
     foldl (\<lambda>km u. case ss_address (m_store km) u of
              Inr a \<Rightarrow> km\<lparr>m_addrLookup := al_put a u (m_addrLookup km), m_uuidLookup := al_put u a (m_uuidLookup km)\<rparr>
            | Inl _ \<Rightarrow> km)
       \<lparr>m_uuidLookup = [], m_addrLookup = [], m_keyInfo = [], m_passwordHint = [], m_cachedPasswords = [],
        m_defaultPasswordDeprecated = '''', m_keysFile = keysFile, m_keysFileKey = hash_empty 16,
        m_master = hash_empty 32, m_store = store\<rparr>
       (ss_keys store)"

definition km_exists :: "host \<Rightarrow> key_manager \<Rightarrow> bool" where
  "km_exists H km \<longleftrightarrow>
     contents (ss_disk (m_store km)) (appendToFilename H (m_keysFile km) ''.salt'') \<noteq> []
     \<and> contents (ss_disk (m_store km)) (m_keysFile km) \<noteq> []"

section \<open>Passwords\<close>

definition hashPassword :: "host \<Rightarrow> key_manager \<Rightarrow> string \<Rightarrow> bytes result" where
  "hashPassword H km pass =
     rbind (pbkdf2 (crypto H) pass (asBytes (m_defaultPasswordDeprecated km)) 262144 32)
       (\<lambda>k. Inr (hash_of_bytes 32 FailIfDifferent k))"

definition cachePassword :: "host \<Rightarrow> string \<Rightarrow> (key_manager, unit) action" where
  "cachePassword H pass km =
     sbind (slift (hashPassword H km pass))
       (\<lambda>h. smodify (\<lambda>km. km\<lparr>m_cachedPasswords := al_put h pass (m_cachedPasswords km)\<rparr>)) km"

definition noteHint :: "host \<Rightarrow> string \<Rightarrow> string \<Rightarrow> (key_manager, unit) action" where
  "noteHint H pass hint km =
     (if hint \<noteq> '''' then
        sbind (slift (hashPassword H km pass))
          (\<lambda>h. smodify (\<lambda>km. km\<lparr>m_passwordHint := al_put h hint (m_passwordHint km)\<rparr>)) km
      else (Inr (), km))"

definition haveHint :: "host \<Rightarrow> key_manager \<Rightarrow> string \<Rightarrow> bool result" where
  "haveHint H km pass = rbind (hashPassword H km pass) (\<lambda>h.
     Inr (case map_of (m_cachedPasswords km) h of Some p \<Rightarrow> p \<noteq> '''' | None \<Rightarrow> False))"

text \<open>An action on the manager, run beside the callback's state.\<close>

definition on_km :: "(key_manager, 'a) action \<Rightarrow> (key_manager \<times> 'c, 'a) action" where
  "on_km m s = (case s of (km, c) \<Rightarrow> case m km of (r, km) \<Rightarrow> (r, (km, c)))"

definition DontKnowThrow :: "unit \<Rightarrow> string result \<times> unit" where
  "DontKnowThrow c = (Inl PasswordUnknown, c)"

text \<open>At most ten questions; an empty answer gives up.\<close>

fun ask_loop ::
  "host \<Rightarrow> nat \<Rightarrow> bytes \<Rightarrow> ('c \<Rightarrow> string result \<times> 'c) \<Rightarrow> (key_manager \<times> 'c, string) action" where
  "ask_loop H 0 ph ask (km, c) = (Inr '''', (km, c))"
| "ask_loop H (Suc n) ph ask (km, c) =
     (case ask c of
        (Inl e, c) \<Rightarrow> (Inl e, (km, c))
      | (Inr p, c) \<Rightarrow>
          if p = '''' then (Inr '''', (km, c))
          else
            (case (if ph = UnknownPassword then Inr True else rbind (hashPassword H km p) (\<lambda>h. Inr (h = ph))) of
               Inl e \<Rightarrow> (Inl e, (km, c))
             | Inr True \<Rightarrow> sbind (on_km (cachePassword H p)) (\<lambda>_. sreturn p) (km, c)
             | Inr False \<Rightarrow> ask_loop H n ph ask (km, c)))"

definition getPassword_hash ::
  "host \<Rightarrow> bytes \<Rightarrow> ('c \<Rightarrow> string result \<times> 'c) \<Rightarrow> (key_manager \<times> 'c, string) action" where
  "getPassword_hash H ph ask s =
     (case map_of (m_cachedPasswords (fst s)) ph of
        Some p \<Rightarrow> (Inr p, s)
      | None \<Rightarrow> ask_loop H 10 ph ask s)"

definition getPassword_uuid ::
  "host \<Rightarrow> bytes \<Rightarrow> ('c \<Rightarrow> string result \<times> 'c) \<Rightarrow> (key_manager \<times> 'c, string) action" where
  "getPassword_uuid H u ask s =
     getPassword_hash H
       (case map_of (m_uuidLookup (fst s)) u of
          Some a \<Rightarrow> (case map_of (m_keyInfo (fst s)) a of Some i \<Rightarrow> passHash i | None \<Rightarrow> hash_empty 32)
        | None \<Rightarrow> hash_empty 32) ask s"

text \<open>\<open>getPassword\<close> and \<open>defaultPassword\<close> with the callback that never knows.\<close>

definition run_unit :: "(key_manager \<times> unit, 'a) action \<Rightarrow> (key_manager, 'a) action" where
  "run_unit m km = (case m (km, ()) of (r, (km, _)) \<Rightarrow> (r, km))"

definition defaultPassword :: "host \<Rightarrow> (key_manager, string) action" where
  "defaultPassword H km = run_unit (getPassword_hash H (m_master km) DontKnowThrow) km"

section \<open>The keys file\<close>

fun append_infos :: "key_manager \<Rightarrow> (bytes \<times> key_info) list \<Rightarrow> rlp_stream \<Rightarrow> rlp_stream result" where
  "append_infos km [] s = Inr s"
| "append_infos km ((a, ki) # infos) s =
     rbind (appendList 5 s) (\<lambda>s. rbind (append_bytes a False s) (\<lambda>s. rbind (append_bytes (km_uuid km a) False s) (\<lambda>s.
     rbind (append_bytes (passHash ki) False s) (\<lambda>s. rbind (append_bytes (asBytes (accountName ki)) False s) (\<lambda>s.
     rbind (append_bytes (asBytes (passwordHint ki)) False s) (append_infos km infos))))))"

fun append_hints :: "(bytes \<times> string) list \<Rightarrow> rlp_stream \<Rightarrow> rlp_stream result" where
  "append_hints [] s = Inr s"
| "append_hints ((h, hint) # hints) s =
     rbind (appendList 2 s) (\<lambda>s. rbind (append_bytes h False s) (\<lambda>s.
     rbind (append_bytes (asBytes hint) False s) (append_hints hints)))"

definition keys_stream :: "key_manager \<Rightarrow> bytes result" where
  "keys_stream km =
     rbind (appendList 4 empty_stream) (\<lambda>s. rbind (append_bigint 1 s) (\<lambda>s.
     rbind (appendList (length (m_keyInfo km)) s) (\<lambda>s. rbind (append_infos km (m_keyInfo km) s) (\<lambda>s.
     rbind (appendList (length (m_passwordHint km)) s) (\<lambda>s. rbind (append_hints (m_passwordHint km) s) (\<lambda>s.
     rbind (append_bytes (asBytes (m_defaultPasswordDeprecated km)) False s) stream_out))))))"

definition put_file :: "host \<Rightarrow> string \<Rightarrow> bytes \<Rightarrow> key_manager \<Rightarrow> key_manager" where
  "put_file H file_name data km =
     km\<lparr>m_store := (m_store km)\<lparr>ss_disk := writeFile H file_name data True (ss_disk (m_store km))\<rparr>\<rparr>"

definition write_key :: "host \<Rightarrow> bytes \<Rightarrow> string \<Rightarrow> (key_manager, unit) action" where
  "write_key H key keysFile km =
     sbind (slift (keys_stream km)) (\<lambda>out.
     sbind (smodify (put_file H keysFile (encryptSymNoAuth (crypto H) key (hash_empty 16) out))) (\<lambda>_.
     sbind (smodify (\<lambda>km. km\<lparr>m_keysFileKey := key\<rparr>)) (\<lambda>_.
     sbind (defaultPassword H) (cachePassword H)))) km"

definition km_write :: "host \<Rightarrow> (key_manager, bool) action" where
  "km_write H km =
     (if \<not> hash_bool (m_keysFileKey km) then (Inr False, km)
      else sbind (write_key H (m_keysFileKey km) (m_keysFile km)) (\<lambda>_. sreturn True) km)"

definition write_pass :: "host \<Rightarrow> bytes \<Rightarrow> string \<Rightarrow> string \<Rightarrow> (key_manager, unit) action" where
  "write_pass H salt pass keysFile km =
     sbind (smodify (put_file H (appendToFilename H keysFile ''.salt'') salt)) (\<lambda>_.
     sbind (slift (rbind (pbkdf2 (crypto H) pass salt 262144 16) (\<lambda>k. Inr (hash_of_bytes 16 FailIfDifferent k)))) (\<lambda>key.
     sbind (cachePassword H pass) (\<lambda>_.
     sbind (\<lambda>km. sbind (slift (hashPassword H km pass)) (\<lambda>h. smodify (\<lambda>km. km\<lparr>m_master := h\<rparr>)) km) (\<lambda>_.
       write_key H key keysFile)))) km"

definition km_save :: "host \<Rightarrow> bytes \<Rightarrow> string \<Rightarrow> (key_manager, unit) action" where
  "km_save H salt pass km = write_pass H salt pass (m_keysFile km) km"

definition create :: "host \<Rightarrow> bytes \<Rightarrow> bytes \<Rightarrow> string \<Rightarrow> (key_manager, unit) action" where
  "create H random salt pass km =
     sbind (smodify (\<lambda>km. km\<lparr>m_defaultPasswordDeprecated := asString random\<rparr>))
       (\<lambda>_. write_pass H salt pass (m_keysFile km)) km"

text \<open>
  Reading: a loop over an RLP list whose body changes the manager. \<open>rlp_get\<close> is a conversion of an
  item, through the object's cache.
\<close>

fun it_fold :: "nat \<Rightarrow> bytes \<Rightarrow> (bytes \<Rightarrow> ('s, unit) action) \<Rightarrow> rlp_iterator \<Rightarrow> ('s, unit) action" where
  "it_fold 0 d body it s = (Inl Diverges, s)"
| "it_fold (Suc fuel) d body it s =
     (if it_eq it (it_end d) then (Inr (), s)
      else sbind (slift (it_deref d it)) (\<lambda>i. sbind (body i) (\<lambda>_.
           sbind (slift (it_incr d it)) (it_fold fuel d body))) s)"

definition for_items :: "bytes \<Rightarrow> (bytes \<Rightarrow> ('s, unit) action) \<Rightarrow> ('s, unit) action" where
  "for_items d body = sbind (slift (it_begin d)) (it_fold (length d + 2) d body)"

definition rlp_get :: "(nat \<Rightarrow> bytes \<Rightarrow> 'a result) \<Rightarrow> nat \<Rightarrow> nat \<Rightarrow> rlp \<Rightarrow> 'a result \<times> rlp" where
  "rlp_get conv flags i r =
     (case rlp_index r i of (r, Inl e) \<Rightarrow> (Inl e, r) | (r, Inr x) \<Rightarrow> (conv flags (m_data x), r))"

definition load_info :: "bytes \<Rightarrow> (rlp, key_info) action" where
  "load_info i =
     sbind (rlp_get (toHash 32) Strict 2) (\<lambda>ph.
     sbind (rlp_get toString LaissezFaire 3) (\<lambda>name.
     sbind (slift (itemCount i)) (\<lambda>n.
     sbind (if n > 4 then rlp_get toString LaissezFaire 4 else sreturn '''') (\<lambda>hint.
       sreturn \<lparr>passHash = ph, accountName = name, passwordHint = hint\<rparr>))))"

definition load_entry :: "bytes \<Rightarrow> (key_manager \<times> bool, unit) action" where
  "load_entry i s =
     (case rlp_get (toHash 16) Strict 1 (rlp_of i) of
        (Inl e, _) \<Rightarrow> (Inl e, s)
      | (Inr u, r) \<Rightarrow>
          (case rlp_get (toHash 20) Strict 0 r of
             (Inl e, _) \<Rightarrow> (Inl e, s)
           | (Inr a, r) \<Rightarrow>
               if hash_bool u then
                 (if ss_contains (m_store (fst s)) u then
                    sbind (smodify (\<lambda>(km, b). (km\<lparr>m_addrLookup := al_put a u (m_addrLookup km)\<rparr>, b))) (\<lambda>_.
                    sbind (smodify (\<lambda>(km, b). (km\<lparr>m_uuidLookup := al_put u a (m_uuidLookup km)\<rparr>, b))) (\<lambda>_.
                    sbind (slift (fst (load_info i r))) (\<lambda>info.
                    sbind (smodify (\<lambda>(km, b). (km\<lparr>m_keyInfo := al_put a info (m_keyInfo km)\<rparr>, b))) (\<lambda>_.
                    smodify (\<lambda>(km, b). case noteAddress u a (m_store km) of (noted, st) \<Rightarrow> (km\<lparr>m_store := st\<rparr>, b \<or> noted)))))) s
                  else (Inr (), s))
               else
                 sbind (slift (fst (load_info i r)))
                   (\<lambda>info. smodify (\<lambda>(km, b). (km\<lparr>m_keyInfo := al_put a info (m_keyInfo km)\<rparr>, b))) s))"

definition load_hint :: "bytes \<Rightarrow> (key_manager, unit) action" where
  "load_hint i km =
     (case rlp_get (toHash 32) Strict 0 (rlp_of i) of
        (Inl e, _) \<Rightarrow> (Inl e, km)
      | (Inr h, r) \<Rightarrow>
          (case rlp_get toString LaissezFaire 1 r of
             (Inl e, _) \<Rightarrow> (Inl e, km)
           | (Inr hint, _) \<Rightarrow> (Inr (), km\<lparr>m_passwordHint := al_put h hint (m_passwordHint km)\<rparr>)))"

definition item_bytes :: "nat \<Rightarrow> rlp \<Rightarrow> bytes result \<times> rlp" where
  "item_bytes = rlp_get (\<lambda>_ d. Inr d) 0"

text \<open>The body for version 1, on the parsed document \<open>r\<close>; every exception ends it.\<close>

definition load_version1 :: "host \<Rightarrow> rlp \<Rightarrow> (key_manager, unit) action" where
  "load_version1 H r km =
     (case item_bytes 1 r of
        (Inl e, _) \<Rightarrow> (Inl e, km)
      | (Inr entries, r) \<Rightarrow>
          (case for_items entries load_entry (km, False) of
             (Inl e, (km, _)) \<Rightarrow> (Inl e, km)
           | (Inr _, (km, saveRequired)) \<Rightarrow>
               let km = (if saveRequired then km\<lparr>m_store := save H (m_store km)\<rparr> else km) in
               (case item_bytes 2 r of
                  (Inl e, _) \<Rightarrow> (Inl e, km)
                | (Inr hints, r) \<Rightarrow>
                    sbind (for_items hints load_hint) (\<lambda>_.
                    sbind (slift (fst (rlp_get toString LaissezFaire 3 r))) (\<lambda>p.
                    smodify (\<lambda>km. km\<lparr>m_defaultPasswordDeprecated := p\<rparr>))) km)))"

definition load_body :: "host \<Rightarrow> string \<Rightarrow> bytes \<Rightarrow> bytes \<Rightarrow> (key_manager, unit) action" where
  "load_body H pass salt encKeys km =
     sbind (slift (rbind (pbkdf2 (crypto H) pass salt 262144 16) (\<lambda>k. Inr (hash_of_bytes 16 FailIfDifferent k)))) (\<lambda>key.
     sbind (smodify (\<lambda>km. km\<lparr>m_keysFileKey := key\<rparr>)) (\<lambda>_.
     sbind (slift (RLP (decryptSymNoAuth (crypto H) key (hash_empty 16) encKeys) VeryStrict)) (\<lambda>r.
     (case rlp_get (\<lambda>f d. toInt f d :: 32 word result) Strict 0 r of
        (v, r) \<Rightarrow> sbind (slift v) (\<lambda>version.
          sbind (if version = 1 then load_version1 H r else sreturn ()) (\<lambda>_.
          sbind (\<lambda>km. cachePassword H (m_defaultPasswordDeprecated km) km) (\<lambda>_.
          sbind (\<lambda>km. cachePassword H (asString (m_keysFileKey km)) km) (\<lambda>_.
          sbind (\<lambda>km. sbind (slift (hashPassword H km pass)) (\<lambda>h. smodify (\<lambda>km. km\<lparr>m_master := h\<rparr>)) km) (\<lambda>_.
            cachePassword H pass))))))))) km"

definition km_load :: "host \<Rightarrow> string \<Rightarrow> key_manager \<Rightarrow> bool \<times> key_manager" where
  "km_load H pass km =
     (let salt = contents (ss_disk (m_store km)) (appendToFilename H (m_keysFile km) ''.salt'');
          encKeys = contents (ss_disk (m_store km)) (m_keysFile km)
      in if encKeys = [] then (False, km)
         else case load_body H pass salt encKeys km of (Inl _, km) \<Rightarrow> (False, km) | (Inr _, km) \<Rightarrow> (True, km))"

section \<open>Secrets\<close>

text \<open>
  The store asks for the password through the manager, whose cache it may extend. The store itself is
  not touched by the callback.
\<close>

definition km_secret_uuid ::
  "host \<Rightarrow> bytes \<Rightarrow> ('c \<Rightarrow> string result \<times> 'c) \<Rightarrow> bool \<Rightarrow> (key_manager \<times> 'c, bytes) action" where
  "km_secret_uuid H u ask usePasswordCache s =
     (case secret_uuid H u
             (if usePasswordCache then getPassword_uuid H u ask
              else (\<lambda>(km, c). case ask c of (p, c) \<Rightarrow> (p, (km, c))))
             usePasswordCache (m_store (fst s)) s of
        (r, st, (km, c)) \<Rightarrow>
          (rbind r (\<lambda>sec. Inr (hash_of_bytes 32 FailIfDifferent sec)), (km\<lparr>m_store := st\<rparr>, c)))"

definition km_secret_address ::
  "host \<Rightarrow> bytes \<Rightarrow> ('c \<Rightarrow> string result \<times> 'c) \<Rightarrow> bool \<Rightarrow> (key_manager \<times> 'c, bytes) action" where
  "km_secret_address H a ask usePasswordCache s =
     (case map_of (m_addrLookup (fst s)) a of
        None \<Rightarrow> (Inl OutOfRange, s)
      | Some u \<Rightarrow> km_secret_uuid H u ask usePasswordCache s)"

definition km_recode ::
  "host \<Rightarrow> bytes \<Rightarrow> bytes \<Rightarrow> bytes \<Rightarrow> string \<Rightarrow> string \<Rightarrow> ('c \<Rightarrow> string result \<times> 'c) \<Rightarrow> KDF \<Rightarrow> (key_manager \<times> 'c, bool) action" where
  "km_recode H salt iv a newPass hint ask kdf =
     sbind (on_km (noteHint H newPass hint)) (\<lambda>_ s.
       let u = km_uuid (fst s) a in
       (case recode_uuid H salt iv u newPass (getPassword_uuid H u ask) kdf (m_store (fst s)) s of
          (Inl e, st, (km, c)) \<Rightarrow> (Inl e, (km\<lparr>m_store := st\<rparr>, c))
        | (Inr False, st, (km, c)) \<Rightarrow> (Inr False, (km\<lparr>m_store := st\<rparr>, c))
        | (Inr True, st, (km, c)) \<Rightarrow>
            sbind (on_km (\<lambda>km. sbind (slift (hashPassword H km newPass)) (\<lambda>h.
                     smodify (\<lambda>km. km\<lparr>m_keyInfo := al_put a
                       ((case map_of (m_keyInfo km) a of Some i \<Rightarrow> i | None \<Rightarrow> empty_info)\<lparr>passHash := h\<rparr>) (m_keyInfo km)\<rparr>)) km))
              (\<lambda>_. sbind (on_km (km_write H)) (\<lambda>_. sreturn True)) (km\<lparr>m_store := st\<rparr>, c)))"

text \<open>The addresses of the entry: both lookups and the key's info.\<close>

definition relate :: "bytes \<Rightarrow> bytes \<Rightarrow> key_manager \<Rightarrow> key_manager" where
  "relate a u km = km\<lparr>m_addrLookup := al_put a u (m_addrLookup km), m_uuidLookup := al_put u a (m_uuidLookup km)\<rparr>"

definition km_import ::
  "host \<Rightarrow> bytes \<Rightarrow> bytes \<Rightarrow> bytes \<Rightarrow> bytes \<Rightarrow> string \<Rightarrow> string \<Rightarrow> string \<Rightarrow> (key_manager, bytes) action" where
  "km_import H r salt iv sec name pass hint km =
     sbind (slift (KeyPair_of (crypto H) sec)) (\<lambda>kp.
     sbind (slift (hashPassword H km pass)) (\<lambda>h.
     sbind (cachePassword H pass) (\<lambda>_.
     sbind (smodify (\<lambda>km. km\<lparr>m_passwordHint := al_put h hint (m_passwordHint km)\<rparr>)) (\<lambda>_.
     sbind (\<lambda>km. case importSecret H r salt iv sec pass (m_store km) of (u, st) \<Rightarrow> (u, km\<lparr>m_store := st\<rparr>)) (\<lambda>u.
     sbind (smodify (\<lambda>km. km\<lparr>m_keyInfo := al_put (m_address kp)
              \<lparr>passHash = h, accountName = name, passwordHint = ''''\<rparr> (m_keyInfo km)\<rparr>)) (\<lambda>_.
     sbind (smodify (relate (m_address kp) u)) (\<lambda>_.
     sbind (km_write H) (\<lambda>_. sreturn u)))))))) km"

text \<open>The form that uses the password of the keys file.\<close>

definition km_import_default ::
  "host \<Rightarrow> bytes \<Rightarrow> bytes \<Rightarrow> bytes \<Rightarrow> bytes \<Rightarrow> string \<Rightarrow> (key_manager, bytes) action" where
  "km_import_default H r salt iv sec name =
     sbind (defaultPassword H) (\<lambda>pass. km_import H r salt iv sec name pass '''')"

definition importExisting_info ::
  "host \<Rightarrow> bytes \<Rightarrow> string \<Rightarrow> bytes \<Rightarrow> bytes \<Rightarrow> string \<Rightarrow> (key_manager, unit) action" where
  "importExisting_info H u name a h hint =
     sbind (smodify (\<lambda>km. if map_of (m_passwordHint km) h = None
              then km\<lparr>m_passwordHint := al_put h hint (m_passwordHint km)\<rparr> else km)) (\<lambda>_.
     sbind (smodify (\<lambda>km. km\<lparr>m_uuidLookup := al_put u a (m_uuidLookup km)\<rparr>)) (\<lambda>_.
     sbind (smodify (\<lambda>km. km\<lparr>m_addrLookup := al_put a u (m_addrLookup km)\<rparr>)) (\<lambda>_.
     sbind (smodify (\<lambda>km. km\<lparr>m_keyInfo := al_put a
              ((case map_of (m_keyInfo km) a of Some i \<Rightarrow> i | None \<Rightarrow> empty_info)\<lparr>passHash := h, accountName := name\<rparr>)
              (m_keyInfo km)\<rparr>)) (\<lambda>_.
     sbind (km_write H) (\<lambda>_. sreturn ())))))"

definition importExisting ::
  "host \<Rightarrow> bytes \<Rightarrow> string \<Rightarrow> string \<Rightarrow> string \<Rightarrow> (key_manager, unit) action" where
  "importExisting H u info pass hint km =
     (case secret_uuid H u (\<lambda>c. (Inr pass, c)) True (m_store km) () of
        (Inl e, st, _) \<Rightarrow> (Inl e, km\<lparr>m_store := st\<rparr>)
      | (Inr key, st, _) \<Rightarrow>
          if key = [] then (Inr (), km\<lparr>m_store := st\<rparr>)
          else
            sbind (slift (KeyPair_of (crypto H) (hash_of_bytes 32 FailIfDifferent key))) (\<lambda>kp.
            sbind (slift (hashPassword H km pass)) (\<lambda>h.
            sbind (if map_of (m_cachedPasswords km) h = None then cachePassword H pass else sreturn ()) (\<lambda>_.
              importExisting_info H u info (m_address kp) h hint))) (km\<lparr>m_store := st\<rparr>))"

text \<open>\<open>m_addrLookup[a]\<close> adds the null id when the address is unknown; the entry is erased again.\<close>

definition forget :: "bytes \<Rightarrow> key_manager \<Rightarrow> key_manager" where
  "forget a km =
     km\<lparr>m_uuidLookup := al_del (km_uuid km a) (m_uuidLookup km), m_addrLookup := al_del a (m_addrLookup km),
        m_keyInfo := al_del a (m_keyInfo km)\<rparr>"

definition km_kill :: "host \<Rightarrow> bytes \<Rightarrow> (key_manager, unit) action" where
  "km_kill H a km =
     sbind (smodify (forget a)) (\<lambda>_.
     sbind (smodify (\<lambda>k. k\<lparr>m_store := kill (km_uuid km a) (m_store k)\<rparr>)) (\<lambda>_.
     sbind (km_write H) (\<lambda>_. sreturn ()))) km"

definition km_kill_uuid :: "host \<Rightarrow> bytes \<Rightarrow> (key_manager, unit) action" where
  "km_kill_uuid H u km = km_kill H (km_address km u) km"

definition km_clear :: "host \<Rightarrow> bytes \<Rightarrow> (key_manager, unit) action" where
  "km_clear H a km =
     sbind (smodify (forget a)) (\<lambda>_.
     sbind (smodify (\<lambda>k. k\<lparr>m_store := clearCache (m_store k)\<rparr>)) (\<lambda>_.
     sbind (km_write H) (\<lambda>_. sreturn ()))) km"

definition km_encryptUseEncryptedKey :: "host \<Rightarrow> bytes \<Rightarrow> bytes \<Rightarrow> (key_manager, bytes) action" where
  "km_encryptUseEncryptedKey H v a km =
     sbind (run_unit (getPassword_uuid H (km_uuid km a) DontKnowThrow)) (\<lambda>pass km.
       (if pass \<noteq> '''' then encryptUseEncryptedKey H v a pass (m_store km) else Inr [], km)) km"

definition km_decryptUseEncryptedKey :: "host \<Rightarrow> bytes \<Rightarrow> bytes \<Rightarrow> (key_manager, string) action" where
  "km_decryptUseEncryptedKey H v a km =
     sbind (run_unit (getPassword_uuid H (km_uuid km a) DontKnowThrow)) (\<lambda>pass km.
       (if pass \<noteq> '''' then rbind (decryptUseEncryptedKey H v a pass (m_store km)) (\<lambda>b. Inr (asString b)) else Inr '''', km)) km"

section \<open>Accounts\<close>

text \<open>A \<open>std::set\<close> of addresses is the list of its elements in increasing order.\<close>

fun addr_insert :: "bytes \<Rightarrow> bytes list \<Rightarrow> bytes list" where
  "addr_insert a [] = [a]"
| "addr_insert a (b # bs) =
     (if hash_less a b then a # b # bs else if hash_less b a then b # addr_insert a bs else b # bs)"

definition accounts :: "key_manager \<Rightarrow> bytes list" where
  "accounts km =
     (let s = foldl (\<lambda>s (a, _). addr_insert a s) [] (m_keyInfo km);
          s = foldl (\<lambda>s (_, k). addr_insert (address k) s) s (m_keys (m_store km))
      in dropWhile (\<lambda>a. \<not> hash_less (hash_empty 20) a) s)"

definition hasAccount :: "key_manager \<Rightarrow> bytes \<Rightarrow> bool" where
  "hasAccount km a \<longleftrightarrow>
     (if \<not> hash_bool a then False
      else if map_of (m_keyInfo km) a \<noteq> None then True
      else list_ex (\<lambda>(_, k). address k = a) (m_keys (m_store km)))"

definition km_accountName :: "key_manager \<Rightarrow> bytes \<Rightarrow> string" where
  "km_accountName km a = (case map_of (m_keyInfo km) a of Some i \<Rightarrow> accountName i | None \<Rightarrow> '''')"

definition km_passwordHint :: "key_manager \<Rightarrow> bytes \<Rightarrow> string" where
  "km_passwordHint km a =
     (case map_of (m_keyInfo km) a of
        None \<Rightarrow> ''''
      | Some info \<Rightarrow>
          if passwordHint info \<noteq> '''' then passwordHint info
          else (case map_of (m_passwordHint km) (passHash info) of Some h \<Rightarrow> h | None \<Rightarrow> ''''))"

text \<open>
  The presale wallet: the document is decrypted under the first answer and, while its address does not
  match, under further ones. The answers are an argument; the loop waits when there are no more.
\<close>

fun presale_loop :: "host \<Rightarrow> jobj \<Rightarrow> bytes \<Rightarrow> string \<Rightarrow> string list \<Rightarrow> KeyPair result" where
  "presale_loop H ob encseed p answers =
     rbind (fromEncryptedSeed (crypto H) encseed p) (\<lambda>k.
       case jat ob ''ethaddr'' of
         JStr s \<Rightarrow>
           rbind (hash_of_string 20 FromHex FailIfDifferent s) (\<lambda>a.
             if a \<noteq> m_address k then
               (case answers of
                  [] \<Rightarrow> Inl Diverges
                | p # answers \<Rightarrow> if p = '''' then Inl PasswordUnknown else presale_loop H ob encseed p answers)
             else Inr k)
       | _ \<Rightarrow> Inr k)"

declare presale_loop.simps [simp del]

definition presaleSecret :: "host \<Rightarrow> string \<Rightarrow> string \<Rightarrow> string list \<Rightarrow> KeyPair result" where
  "presaleSecret H json p answers =
     rbind (get_obj (js_read (jlib H) json)) (\<lambda>ob.
       case jat ob ''encseed'' of
         JStr s \<Rightarrow> presale_loop H ob (fromHex s) p answers
       | _ \<Rightarrow> Inl JsonError)"

end
