(* ===== verification/Transition_System.thy ===== *)
theory Transition_System
  imports Main
begin

text \<open>
  The interface of the stateful components: a state machine is a predicate for its initial states and
  a step relation, one constructor per operation. An invariant that holds initially and that every
  step keeps holds in every reachable state; one that also relies on another invariant is proved
  relative to it.
\<close>

definition reachable :: "('s \<Rightarrow> bool) \<Rightarrow> ('s \<Rightarrow> 's \<Rightarrow> bool) \<Rightarrow> 's \<Rightarrow> bool" where
  "reachable init step s \<longleftrightarrow> (\<exists>s0. init s0 \<and> step\<^sup>*\<^sup>* s0 s)"

lemma reachable_init: "init s \<Longrightarrow> reachable init step s"
  by (auto simp: reachable_def)

lemma reachable_step: "reachable init step s \<Longrightarrow> step s t \<Longrightarrow> reachable init step t"
  by (auto simp: reachable_def intro: rtranclp.rtrancl_into_rtrancl)

locale state_machine =
  fixes init :: "'s \<Rightarrow> bool" and step :: "'s \<Rightarrow> 's \<Rightarrow> bool" and inv :: "'s \<Rightarrow> bool"
  assumes init_inv: "init s \<Longrightarrow> inv s"
    and step_inv: "inv s \<Longrightarrow> step s t \<Longrightarrow> inv t"
begin

lemma steps_inv: "step\<^sup>*\<^sup>* s t \<Longrightarrow> inv s \<Longrightarrow> inv t"
  by (induction rule: rtranclp_induct) (auto intro: step_inv)

lemma reachable_inv: "reachable init step s \<Longrightarrow> inv s"
  by (auto simp: reachable_def intro: steps_inv init_inv)

end

locale refined_machine = state_machine +
  fixes good :: "'s \<Rightarrow> bool"
  assumes init_good: "init s \<Longrightarrow> good s"
    and step_good: "inv s \<Longrightarrow> good s \<Longrightarrow> step s t \<Longrightarrow> good t"
begin

lemma reachable_good: "reachable init step s \<Longrightarrow> good s"
proof -
  assume "reachable init step s"
  then obtain s0 where "init s0" "step\<^sup>*\<^sup>* s0 s" by (auto simp: reachable_def)
  from this(2) this(1) have "inv s \<and> good s"
    by (induction rule: rtranclp_induct) (auto intro: init_inv init_good step_inv step_good)
  then show ?thesis ..
qed

end

end
