(* ===== verification/Secret_Store_Facts.thy ===== *)
theory Secret_Store_Facts
  imports Secret_Store Transition_System
begin

text \<open>
  Properties of the key store: what is encrypted decrypts to itself and to nothing else, the
  operations keep the store consistent, a saved store is read back, and a store changed by one
  operation holds the secrets the others find.
\<close>

section \<open>Hypotheses on the libraries\<close>

text \<open>
  The counter mode of AES decrypts what it encrypted; the key derivations return the requested
  number of bytes when they succeed.
\<close>

definition ctr_inverse :: "crypto_lib \<Rightarrow> bool" where
  "ctr_inverse L \<longleftrightarrow> (\<forall>k iv m c. length k = 16 \<longrightarrow> ctr_encrypt L k iv m = Some c \<longrightarrow> ctr_decrypt L k iv c = Some m)"

definition kdf_lengths :: "crypto_lib \<Rightarrow> bool" where
  "kdf_lengths L \<longleftrightarrow> (\<forall>p s n d. length (snd (lib_pbkdf2 L p s n d)) = d)
     \<and> (\<forall>p s n r q d. length (snd (lib_scrypt L p s n r q d)) = d)"

lemma toy_lib_laws: "ctr_inverse toy_lib" "kdf_lengths toy_lib"
  by (simp_all add: ctr_inverse_def kdf_lengths_def toy_lib_def)

lemma scrypt_length: "kdf_lengths L \<Longrightarrow> scrypt L p s n r q d = Inr k \<Longrightarrow> length k = d"
  by (auto simp: scrypt_def kdf_lengths_def split: prod.splits if_splits) (metis snd_conv)

lemma pbkdf2_length: "kdf_lengths L \<Longrightarrow> pbkdf2 L p s n d = Inr k \<Longrightarrow> length k = d"
  by (auto simp: pbkdf2_def kdf_lengths_def split: prod.splits if_splits) (metis snd_conv)

lemma sym_roundtrip:
  "ctr_inverse L \<Longrightarrow> length k = 16 \<Longrightarrow> encryptSymNoAuth L k iv m = c \<Longrightarrow> c \<noteq> [] \<Longrightarrow> decryptSymNoAuth L k iv c = m"
  by (auto simp: ctr_inverse_def encryptSymNoAuth_def decryptSymNoAuth_def encryptAES128CTR_def
      decryptAES128CTR_def split: option.splits)

lemma length_hash_of_bytes [simp]: "length (hash_of_bytes n t b) = n"
proof -
  have "length (foldl (\<lambda>m i. m[f i := g i]) m is) = length m" for f g and m :: bytes and "is" :: "nat list"
    by (induction "is" arbitrary: m) simp_all
  then show ?thesis by (simp add: hash_of_bytes_def hash_copy_def hash_empty_def)
qed

section \<open>Documents\<close>

lemma fromHex_toHex_id [simp]: "fromHex (toHex b) = b"
  using fromHex_toHex' [of b DontThrow] by (simp add: fromHex_def)

lemma hash_of_string_toHex [simp]: "length b = n \<Longrightarrow> hash_of_string n FromHex FailIfDifferent (toHex b) = Inr b"
  using fromHex_toHex' [of b Throw] by (simp add: hash_of_string_def hash_of_bytes_def)

lemma plain_toHex [simp]: "list_all plain_char (toHex b)"
proof -
  have "list_all plain_char hexdigits" by code_simp
  then have "plain_char (hexdigits ! n)" if "n < 16" for n
    using that by (simp add: list_all_length hexdigits_def)
  then show ?thesis by (induction b) (auto simp: toHex_def toHex_prefix_def toHex_pair_eq nibbles_less)
qed

text \<open>
  \<open>encrypted_doc H ob pass v\<close>: the document \<open>ob\<close> holds \<open>v\<close>, encrypted under a key derived from
  \<open>pass\<close>, with the code that authenticates it.
\<close>

definition encrypted_doc :: "host \<Rightarrow> jobj \<Rightarrow> string \<Rightarrow> bytes \<Rightarrow> bytes \<Rightarrow> bytes \<Rightarrow> bytes \<Rightarrow> bool" where
  "encrypted_doc H ob pass dk iv ct v \<longleftrightarrow>
     plain_json (JObj ob) \<and> stored_key H pass ob = Inr (Some dk) \<and> derive_from_stored H pass ob = Inr dk
     \<and> length dk = 32 \<and> length iv = 16 \<and> jat ob ''cipher'' = JStr ''aes-128-ctr''
     \<and> jat ob ''cipherparams'' = JObj [(''iv'', JStr (toHex iv))] \<and> jat ob ''ciphertext'' = JStr (toHex ct)
     \<and> jhas ob ''mac'' \<and> jat ob ''mac'' = JStr (toHex (sha3 (cropped dk 16 16 @ ct))) \<and> \<not> jhas ob ''compat''
     \<and> ct \<noteq> [] \<and> encryptSymNoAuth (crypto H) (hash_of_bytes 16 AlignLeft dk) iv v = ct"

lemma iterations_fit: "sint (word_of_int 262144 :: 32 word) = 262144" "u32 262144 = 262144" "u64 262144 = 262144"
  "u32 32 = 32" "u32 8 = 8" "u32 1 = 1"
  by (simp_all add: u32_def u64_def)

lemma plain_keys:
  "list_all plain_char ''kdf''" "list_all plain_char ''kdfparams''" "list_all plain_char ''n''"
  "list_all plain_char ''r''" "list_all plain_char ''p''" "list_all plain_char ''dklen''"
  "list_all plain_char ''salt''" "list_all plain_char ''prf''" "list_all plain_char ''c''"
  "list_all plain_char ''cipher''" "list_all plain_char ''cipherparams''" "list_all plain_char ''iv''"
  "list_all plain_char ''ciphertext''" "list_all plain_char ''mac''" "list_all plain_char ''scrypt''"
  "list_all plain_char ''pbkdf2''" "list_all plain_char ''hmac-sha256''" "list_all plain_char ''aes-128-ctr''"
  by code_simp+

declare jput.simps(2) [simp del] plain_json.simps(8) [simp del]

lemma jat_Cons [simp]: "jat ((k, v) # x) k' = (if k' = k then v else jat x k')"
  and jhas_Cons [simp]: "jhas ((k, v) # x) k' \<longleftrightarrow> k' = k \<or> jhas x k'"
  by (simp_all add: jat_def jhas_def)

lemma plain_Nil: "plain_json (JObj [])"
  by (simp add: plain_json.simps(8))

lemmas plain_build = plain_json_jput plain_keys plain_Nil plain_toHex

lemma deriveNewKey_doc:
  assumes "deriveNewKey H salt pass kdf [] = Inr (dk, ret)" "kdf_lengths (crypto H)"
  shows "plain_json (JObj ret) \<and> length dk = 32 \<and> stored_key H pass ret = Inr (Some dk)
      \<and> derive_from_stored H pass ret = Inr dk \<and> \<not> jhas ret ''compat''"
proof (cases kdf)
  case Scrypt
  define params where "params = jput ''salt'' (JStr (toHex salt)) (jput ''dklen'' (JInt 32)
    (jput ''p'' (JInt 1) (jput ''r'' (JInt 8) (jput ''n'' (JInt 262144) []))))"
  from Scrypt assms(1) have k: "scrypt (crypto H) pass salt 262144 8 1 32 = Inr dk"
    and ret: "ret = jput ''kdfparams'' (JObj params) (jput ''kdf'' (JStr ''scrypt'') [])"
    by (auto simp: deriveNewKey_def params_def rbind_eq_Inr)
  have "plain_json (JObj params)" unfolding params_def by (intro plain_build) (simp_all only: plain_json.simps plain_build, simp_all)
  then have "plain_json (JObj ret)" unfolding ret by (intro plain_build) (simp_all only: plain_json.simps(6) plain_build)
  moreover have "scrypt_of H pass params = Inr dk"
    using k by (simp add: scrypt_of_def params_def jstr_at_def iterations_fit)
  moreover have "length dk = 32" by (rule scrypt_length [OF assms(2) k])
  ultimately show ?thesis unfolding ret by (simp add: stored_key_def derive_from_stored_def jstr_at_def jobj_at_def)
next
  case PBKDF2_SHA256
  define params where "params = jput ''dklen'' (JInt 32) (jput ''salt'' (JStr (toHex salt))
    (jput ''c'' (JInt 262144) (jput ''prf'' (JStr ''hmac-sha256'') [])))"
  from PBKDF2_SHA256 assms(1) have k: "pbkdf2 (crypto H) pass salt 262144 32 = Inr dk"
    and ret: "ret = jput ''kdfparams'' (JObj params) (jput ''kdf'' (JStr ''pbkdf2'') [])"
    by (auto simp: deriveNewKey_def params_def rbind_eq_Inr)
  have "plain_json (JObj params)" unfolding params_def by (intro plain_build) (simp_all only: plain_json.simps plain_build, simp_all)
  then have "plain_json (JObj ret)" unfolding ret by (intro plain_build) (simp_all only: plain_json.simps(6) plain_build)
  moreover have "pbkdf2_of H pass params = Inr dk" "jat params ''prf'' = JStr ''hmac-sha256''"
    using k by (simp_all add: pbkdf2_of_def params_def jstr_at_def iterations_fit)
  moreover have "length dk = 32" by (rule pbkdf2_length [OF assms(2) k])
  ultimately show ?thesis unfolding ret by (simp add: stored_key_def derive_from_stored_def jstr_at_def jobj_at_def)
qed

lemma stored_key_jput:
  "k \<noteq> ''kdf'' \<Longrightarrow> k \<noteq> ''kdfparams'' \<Longrightarrow> stored_key H pass (jput k v ob) = stored_key H pass ob"
  "k \<noteq> ''kdf'' \<Longrightarrow> k \<noteq> ''kdfparams'' \<Longrightarrow> derive_from_stored H pass (jput k v ob) = derive_from_stored H pass ob"
  by (simp_all add: stored_key_def derive_from_stored_def jstr_at_def jobj_at_def cong: if_cong)

lemma encrypt_doc:
  assumes "encrypt H salt iv v pass kdf = Inr e" "kdf_lengths (crypto H)" "length iv = 16"
  obtains ob dk ct where "e = js_write (jlib H) (JObj ob) True" "encrypted_doc H ob pass dk iv ct v"
proof -
  obtain dk ret where dk: "deriveNewKey H salt pass kdf [] = Inr (dk, ret)"
    using assms(1) by (auto simp: encrypt_def rbind_eq_Inr)
  define ct where "ct = encryptSymNoAuth (crypto H) (hash_of_bytes 16 AlignLeft dk) iv v"
  define ob where "ob = jput ''mac'' (JStr (toHex (sha3 (cropped dk 16 16 @ ct))))
    (jput ''ciphertext'' (JStr (toHex ct)) (jput ''cipherparams'' (JObj (jput ''iv'' (JStr (toHex iv)) []))
      (jput ''cipher'' (JStr ''aes-128-ctr'') ret)))"
  note d = deriveNewKey_doc [OF dk assms(2)]
  then have "dk \<noteq> []" by auto
  with assms(1) dk have e: "e = js_write (jlib H) (JObj ob) True" "ct \<noteq> []"
    by (auto simp: encrypt_def Let_def ct_def ob_def split: if_splits)
  have "plain_json (JObj ob)"
    unfolding ob_def using d by (intro plain_build) (simp_all only: plain_json.simps(6) plain_build)
  with d e(2) assms(3) have "encrypted_doc H ob pass dk iv ct v"
    by (simp add: encrypted_doc_def ob_def stored_key_jput ct_def)
  with e(1) show ?thesis by (rule that)
qed

section \<open>Decryption\<close>

lemma mac_of_doc:
  assumes "encrypted_doc H ob pass dk iv ct v"
  shows "mac_ok ob dk' ct = Inr (sha3 (cropped dk 16 16 @ ct) = sha3 (cropped dk' 16 16 @ ct))"
  using assms by (simp add: encrypted_doc_def mac_ok_def jstr_at_def is_compat_def)

lemma decrypt_cipher_doc:
  assumes "encrypted_doc H ob pass dk iv ct v" "ctr_inverse (crypto H)"
  shows "decrypt_cipher H ob dk ct = Inr v"
proof -
  have "decryptSymNoAuth (crypto H) (hash_of_bytes 16 AlignLeft dk) iv ct = v"
    using assms(1) by (intro sym_roundtrip [OF assms(2)]) (simp_all add: encrypted_doc_def)
  with assms show ?thesis
    by (simp add: encrypted_doc_def decrypt_cipher_def jstr_at_def jobj_at_def is_compat_def jat_def)
qed

lemma decrypt_doc:
  assumes "encrypted_doc H ob pass dk iv ct v" "ctr_inverse (crypto H)" "js_read (jlib H) e = JObj ob"
  shows "decrypt H e pass = Inr v"
  using assms mac_of_doc [OF assms(1)] decrypt_cipher_doc [OF assms(1,2)]
  by (simp add: decrypt_def encrypted_doc_def jstr_at_def)

lemma decrypt_encrypt':
  assumes "encrypt H salt iv v pass kdf = Inr e" "length iv = 16"
    "js_roundtrip (jlib H)" "kdf_lengths (crypto H)" "ctr_inverse (crypto H)"
  shows "decrypt H e pass = Inr v"
proof -
  obtain ob dk ct where e: "e = js_write (jlib H) (JObj ob) True" "encrypted_doc H ob pass dk iv ct v"
    using encrypt_doc [OF assms(1,4,2)] by blast
  then have "js_read (jlib H) e = JObj ob" using assms(3) by (simp add: js_roundtripD encrypted_doc_def)
  then show ?thesis by (rule decrypt_doc [OF e(2) assms(5)])
qed

text \<open>The host of the witnesses: the toy libraries, and paths that are plain concatenations.\<close>

definition toy_host :: host where
  "toy_host = \<lparr>crypto = toy_lib, jlib = toy_json, path_join = (\<lambda>p q. p @ ''/'' @ q),
     path_filename = (\<lambda>p. p), path_parent = (\<lambda>p. [])\<rparr>"

lemma toy_host_laws [simp]:
  "js_roundtrip (jlib toy_host)" "kdf_lengths (crypto toy_host)" "ctr_inverse (crypto toy_host)"
  by (simp_all add: toy_host_def toy_lib_laws toy_json_roundtrip)

text \<open>C8: a secret that was encrypted under a password, with either key derivation and any salt and
  initial vector, decrypts under that password to itself.\<close>

theorem decrypt_encrypt:
  assumes "encrypt H salt iv v pass kdf = Inr e" "length iv = 16"
    "js_roundtrip (jlib H)" "kdf_lengths (crypto H)" "ctr_inverse (crypto H)"
  shows "decrypt H e pass = Inr v"
  by (rule decrypt_encrypt' [OF assms])

lemma toy_encrypts: "v \<noteq> [] \<Longrightarrow> \<exists>e. encrypt toy_host salt iv v pass kdf = Inr e"
  by (cases kdf)
     (auto simp: encrypt_def deriveNewKey_def toy_host_def toy_lib_def scrypt_def pbkdf2_def
       encryptSymNoAuth_def encryptAES128CTR_def Let_def)

theorem decrypt_encrypt_witness:
  "\<exists>e. encrypt toy_host [1] (replicate 16 2) [3, 4] ''pw'' Scrypt = Inr e \<and> decrypt toy_host e ''pw'' = Inr [3, 4]"
proof -
  obtain e where "encrypt toy_host [1] (replicate 16 2) [3, 4] ''pw'' Scrypt = Inr e"
    using toy_encrypts [of "[3, 4]"] by blast
  with decrypt_encrypt [OF this] show ?thesis by simp
qed

text \<open>A wrong password does not fail and does not return bytes: the result is the empty secret,
  unless the digest of the second halves of the two derived keys collides on the cipher text.\<close>

theorem decrypt_wrong_password:
  assumes "encrypt H salt iv v pass kdf = Inr (js_write (jlib H) (JObj ob) True)" "length iv = 16"
    "plain_json (JObj ob)" "js_roundtrip (jlib H)" "kdf_lengths (crypto H)"
    "stored_key H pass ob = Inr (Some dk)" "stored_key H pass' ob = Inr (Some dk')"
  shows "decrypt H (js_write (jlib H) (JObj ob) True) pass' = Inr []
    \<or> (\<exists>c. jat ob ''ciphertext'' = JStr (toHex c) \<and> sha3 (drop 16 dk @ c) = sha3 (cropped dk' 16 16 @ c))"
proof -
  obtain ob' dk'' ct where e: "js_write (jlib H) (JObj ob) True = js_write (jlib H) (JObj ob') True"
      "encrypted_doc H ob' pass dk'' iv ct v"
    using encrypt_doc [OF assms(1,5,2)] by blast
  then have "JObj ob' = JObj ob" using assms(3,4) js_roundtripD by (metis encrypted_doc_def)
  with e(2) assms(6) have doc: "encrypted_doc H ob pass dk iv ct v" by (simp add: encrypted_doc_def)
  then have "is_compat ob = Inr False" "jstr_at ob ''ciphertext'' = Inr (toHex ct)"
    "cropped dk 16 16 = drop 16 dk" "jat ob ''ciphertext'' = JStr (toHex ct)"
    by (simp_all add: encrypted_doc_def is_compat_def jstr_at_def cropped_def)
  then show ?thesis using assms(3,4,7) mac_of_doc [OF doc, of dk'] by (auto simp: decrypt_def js_roundtripD)
qed

text \<open>The document the toy host writes for the secret \<open>[3, 4]\<close> under a password of two characters.\<close>

definition toy_doc :: jobj where
  "toy_doc =
     jput ''mac'' (JStr (toHex (sha3 (cropped (replicate 32 2) 16 16 @ [3, 4]))))
       (jput ''ciphertext'' (JStr (toHex [3, 4])) (jput ''cipherparams'' (JObj (jput ''iv'' (JStr (toHex (replicate 16 2))) []))
         (jput ''cipher'' (JStr ''aes-128-ctr'')
           (jput ''kdfparams'' (JObj (jput ''dklen'' (JInt 32) (jput ''salt'' (JStr (toHex [1]))
               (jput ''c'' (JInt 262144) (jput ''prf'' (JStr ''hmac-sha256'') [])))))
             (jput ''kdf'' (JStr ''pbkdf2'') [])))))"

lemma toy_doc_encrypt:
  "encrypt toy_host [1] (replicate 16 2) [3, 4] ''pw'' PBKDF2_SHA256 = Inr (js_write (jlib toy_host) (JObj toy_doc) True)"
  by (simp add: encrypt_def deriveNewKey_def toy_host_def toy_lib_def pbkdf2_def Let_def toy_doc_def
      encryptSymNoAuth_def encryptAES128CTR_def)

lemma toy_doc_plain: "plain_json (JObj toy_doc)"
  unfolding toy_doc_def by (intro plain_build) (simp_all only: plain_json.simps(3,6) plain_build, simp_all)

lemma toy_doc_key: "stored_key toy_host pass toy_doc = Inr (Some (replicate 32 (of_nat (length pass))))"
  by (simp add: toy_doc_def stored_key_def jstr_at_def jobj_at_def pbkdf2_of_def iterations_fit pbkdf2_def
      toy_host_def toy_lib_def)

theorem decrypt_wrong_password_witness:
  "decrypt toy_host (js_write (jlib toy_host) (JObj toy_doc) True) ''pwd'' = Inr []
    \<or> (\<exists>c. jat toy_doc ''ciphertext'' = JStr (toHex c)
           \<and> sha3 (drop 16 (replicate 32 2) @ c) = sha3 (cropped (replicate 32 3) 16 16 @ c))"
  by (rule decrypt_wrong_password [OF toy_doc_encrypt]) (simp_all add: toy_doc_plain toy_doc_key)

section \<open>Consistency of the store\<close>

text \<open>
  Ids are unique, and a decrypted secret is cached only for a key the store holds. \<open>recode\<close> relies on
  the latter: its \<open>operator[]\<close> would otherwise create a key without file and address.
\<close>

definition ss_inv :: "secret_store \<Rightarrow> bool" where
  "ss_inv s \<longleftrightarrow> al_wf (m_keys s) \<and> al_wf (m_cached s)
     \<and> fst ` set (m_cached s) \<subseteq> fst ` set (m_keys s)"

lemma map_of_keys_iff: "map_of ks u \<noteq> None \<longleftrightarrow> u \<in> fst ` set ks"
  by (simp add: map_of_eq_None_iff)

lemma map_of_Some_key: "map_of ks u = Some k \<Longrightarrow> u \<in> fst ` set ks"
  by (force dest: map_of_SomeD)

lemma save_keys_Cons:
  "\<exists>k' d'. fst (save_keys H path ((u, k) # ks) d) = (u, k') # fst (save_keys H path ks d')"
  by (auto simp: Let_def case_prod_unfold)

lemma fst_save_keys [simp]: "map fst (fst (save_keys H path ks d)) = map fst ks"
proof (induction ks arbitrary: d)
  case (Cons p ks)
  obtain u k where "p = (u, k)" by fastforce
  then show ?case using save_keys_Cons [of H path u k ks d] Cons by auto
qed simp

lemma set_save_keys [simp]: "fst ` set (fst (save_keys H path ks d)) = fst ` set ks"
  using arg_cong [OF fst_save_keys [of H path ks d], of set] by (simp only: set_map)

lemma save_to_simps:
  "m_keys (save_to H path s) = fst (save_keys H path (m_keys s) (ss_disk s))"
  "ss_disk (save_to H path s) = snd (save_keys H path (m_keys s) (ss_disk s))"
  "m_cached (save_to H path s) = m_cached s" "m_path (save_to H path s) = m_path s"
  by (simp_all add: save_to_def split: prod.split)

lemma save_to_inv [simp]: "ss_inv (save_to H path s) \<longleftrightarrow> ss_inv s"
  by (simp add: ss_inv_def save_to_simps)

lemma save_inv [simp]: "ss_inv (save H s) \<longleftrightarrow> ss_inv s"
  by (simp add: save_def)

lemma put_key_inv: "ss_inv s \<Longrightarrow> ss_inv (s\<lparr>m_keys := al_put u k (m_keys s)\<rparr>)"
  by (auto simp: ss_inv_def)

lemma put_cached_inv:
  "ss_inv s \<Longrightarrow> map_of (m_keys s) u = Some k \<Longrightarrow> ss_inv (s\<lparr>m_cached := al_put u b (m_cached s)\<rparr>)"
  by (auto simp: ss_inv_def map_of_Some_key)

lemma del_cached_inv: "ss_inv s \<Longrightarrow> ss_inv (s\<lparr>m_cached := al_del u (m_cached s)\<rparr>)"
  by (auto simp: ss_inv_def)

lemma noteAddress_inv: "ss_inv s \<Longrightarrow> ss_inv (snd (noteAddress u a s))"
  by (auto simp: noteAddress_def put_key_inv split: option.split)

lemma noteAddress_cached [simp]: "m_cached (snd (noteAddress u a s)) = m_cached s"
  and noteAddress_dom: "fst ` set (m_keys (snd (noteAddress u a s))) = fst ` set (m_keys s)"
  by (auto simp: noteAddress_def dest: map_of_Some_key split: option.split)

lemma clearCache_inv: "ss_inv s \<Longrightarrow> ss_inv (clearCache s)"
  by (simp add: ss_inv_def clearCache_def)

lemma readKeyContent_inv: "ss_inv s \<Longrightarrow> ss_inv (snd (readKeyContent H content fname s))"
  by (auto simp: readKeyContent_def put_key_inv split: sum.split option.split)

lemma readKey_inv: "ss_inv s \<Longrightarrow> ss_inv (snd (readKey H fname own s))"
  by (simp add: readKey_def readKeyContent_inv)

lemma load_inv: "ss_inv s \<Longrightarrow> ss_inv (load H listing s)"
  by (induction listing arbitrary: s) (simp_all add: load_def readKey_inv)

lemma importKey_inv: "ss_inv s \<Longrightarrow> ss_inv (snd (importKey H fname s))"
  using readKey_inv [of s H fname False] by (auto simp: importKey_def split: prod.split)

lemma importKeyContent_inv: "ss_inv s \<Longrightarrow> ss_inv (snd (importKeyContent H content s))"
  using readKeyContent_inv [of s H content "''''"] by (auto simp: importKeyContent_def split: prod.split)

lemma importSecret_inv: "ss_inv s \<Longrightarrow> ss_inv (snd (importSecret H r salt iv sec pass s))"
proof -
  assume "ss_inv s"
  then have "ss_inv (s\<lparr>m_cached := al_put r sec (m_cached s), m_keys := al_put r k (m_keys s)\<rparr>)" for k
    by (auto simp: ss_inv_def)
  with \<open>ss_inv s\<close> show ?thesis by (auto simp: importSecret_def split: sum.split)
qed

lemma kill_inv: "ss_inv s \<Longrightarrow> ss_inv (kill u s)"
  by (auto simp: kill_def Let_def ss_inv_def map_of_eq_None_iff split: option.split)

lemma secret_uuid_inv: "ss_inv s \<Longrightarrow> ss_inv (fst (snd (secret_uuid H u pass cache s c)))"
  by (auto simp: secret_uuid_def Let_def noteAddress_inv put_cached_inv
      dest: map_of_Some_key split: option.split prod.split sum.split)

lemma recode_uuid_inv: "ss_inv s \<Longrightarrow> ss_inv (fst (snd (recode_uuid H salt iv u np pass kdf s c)))"
proof -
  assume i: "ss_inv s"
  obtain r s' c' where q: "secret_uuid H u pass True s c = (r, s', c')" by (metis prod_cases3)
  with secret_uuid_inv [OF i, of H u pass True c] have "ss_inv s'" by simp
  then have "ss_inv (s'\<lparr>m_cached := al_del u (m_cached s')\<rparr>)" by (rule del_cached_inv)
  from this put_key_inv [OF this] \<open>ss_inv s'\<close> show ?thesis
    by (auto simp: recode_uuid_def q Let_def split: sum.split)
qed

lemma recode_address_inv: "ss_inv s \<Longrightarrow> ss_inv (fst (snd (recode_address H salt iv a np pass kdf s c)))"
  by (auto simp: recode_address_def put_key_inv split: option.split prod.split sum.split)

text \<open>One constructor per public operation that changes the store.\<close>

inductive ss_step :: "host \<Rightarrow> secret_store \<Rightarrow> secret_store \<Rightarrow> bool" for H where
  step_setPath: "ss_step H s (setPath H listing path s)"
| step_save: "ss_step H s (save_to H path s)"
| step_clearCache: "ss_step H s (clearCache s)"
| step_note: "ss_step H s (snd (noteAddress u a s))"
| step_readKey: "ss_step H s (snd (readKey H fname own s))"
| step_readContent: "ss_step H s (snd (readKeyContent H content fname s))"
| step_importKey: "ss_step H s (snd (importKey H fname s))"
| step_importContent: "ss_step H s (snd (importKeyContent H content s))"
| step_importSecret: "length r = 16 \<Longrightarrow> ss_step H s (snd (importSecret H r salt iv sec pass s))"
| step_kill: "ss_step H s (kill u s)"
| step_secret: "ss_step H s (fst (snd (secret_uuid H u ask useCache s ())))"
| step_recode_uuid: "ss_step H s (fst (snd (recode_uuid H salt iv u newPass ask kdf s ())))"
| step_recode_address: "ss_step H s (fst (snd (recode_address H salt iv a newPass ask kdf s ())))"

inductive_cases ss_stepE: "ss_step H s t"

definition ss_init :: "host \<Rightarrow> secret_store \<Rightarrow> bool" where
  "ss_init H s \<longleftrightarrow> (\<exists>listing path d. s = SecretStore_open H listing path d) \<or> (\<exists>d. s = ss_empty d)"

lemma m_path_inv: "ss_inv s \<Longrightarrow> ss_inv (s\<lparr>m_path := p\<rparr>)"
  by (simp add: ss_inv_def)

lemma ss_init_inv: "ss_init H s \<Longrightarrow> ss_inv s"
proof -
  have e: "ss_inv ((ss_empty d)\<lparr>m_path := p\<rparr>)" "ss_inv (ss_empty d)" for d p by (simp_all add: ss_inv_def ss_empty_def)
  show "ss_init H s \<Longrightarrow> ss_inv s" using e load_inv [OF e(1)] by (auto simp: ss_init_def SecretStore_open_def)
qed

lemma ss_step_inv: "ss_inv s \<Longrightarrow> ss_step H s t \<Longrightarrow> ss_inv t"
  by (erule ss_stepE)
     (simp_all add: setPath_def load_inv m_path_inv clearCache_inv noteAddress_inv readKey_inv readKeyContent_inv
       importKey_inv importKeyContent_inv importSecret_inv kill_inv secret_uuid_inv recode_uuid_inv recode_address_inv)

interpretation ss: state_machine "ss_init H" "ss_step H" ss_inv for H
  by unfold_locales (fact ss_init_inv ss_step_inv)+

lemma secret_uuid_dom:
  "fst ` set (m_keys (fst (snd (secret_uuid H u ask b s c)))) = fst ` set (m_keys s)"
  by (auto simp: secret_uuid_def Let_def noteAddress_dom split: option.split prod.split sum.split)

lemma secret_uuid_stored:
  "ss_inv s \<Longrightarrow> secret_uuid H u ask b s c = (Inr sec, s', c') \<Longrightarrow> sec \<noteq> [] \<Longrightarrow> map_of (m_keys s) u \<noteq> None"
proof (rule notI)
  assume a: "ss_inv s" "secret_uuid H u ask b s c = (Inr sec, s', c')" "sec \<noteq> []" "map_of (m_keys s) u = None"
  then have "map_of (m_cached s) u = None" by (auto simp: ss_inv_def map_of_eq_None_iff)
  with a show False by (cases b) (simp_all add: secret_uuid_def)
qed

lemma save_dom [simp]: "fst ` set (m_keys (save H s)) = fst ` set (m_keys s)"
  by (simp add: save_def save_to_simps)

lemma recode_uuid_dom:
  assumes "ss_inv s"
  shows "fst ` set (m_keys (fst (snd (recode_uuid H salt iv u np ask kdf s c)))) = fst ` set (m_keys s)"
proof -
  obtain r s' c' where q: "secret_uuid H u ask True s c = (r, s', c')" by (metis prod_cases3)
  have d: "fst ` set (m_keys s') = fst ` set (m_keys s)" using secret_uuid_dom [of H u ask True s c] q by simp
  have "u \<in> fst ` set (m_keys s)" if "r = Inr sec" "sec \<noteq> []" for sec
    using secret_uuid_stored [OF assms, of H u ask True c sec s' c'] q that by (simp add: map_of_eq_None_iff)
  then show ?thesis using d by (auto simp: recode_uuid_def q Let_def insert_absorb split: sum.split)
qed

text \<open>In every state the store can reach, ids are unique and a secret is cached only for a key
  that is stored, so \<open>recode\<close> never creates a key.\<close>

theorem secret_store_consistent:
  assumes "reachable (ss_init H) (ss_step H) s"
  shows "distinct (ss_keys s) \<and> (\<forall>u \<in> fst ` set (m_cached s). ss_contains s u)
    \<and> (\<forall>salt iv u newPass ask kdf. set (ss_keys (fst (snd (recode_uuid H salt iv u newPass ask kdf s ())))) = set (ss_keys s))"
proof -
  have i: "ss_inv s" by (rule ss.reachable_inv [OF assms])
  then have "\<forall>u \<in> fst ` set (m_cached s). ss_contains s u"
    by (auto simp: ss_inv_def ss_contains_def map_of_eq_None_iff)
  with i show ?thesis by (simp add: ss_inv_def ss_keys_def recode_uuid_dom [OF i])
qed

theorem secret_store_consistent_witness:
  "distinct (ss_keys (snd (importSecret toy_host (replicate 16 5) [1] (replicate 16 2) (replicate 32 7) ''pw'' (ss_empty Map.empty))))"
  by (rule secret_store_consistent [where H = toy_host, THEN conjunct1])
     (rule reachable_step, rule reachable_init [where s = "ss_empty Map.empty"],
      auto simp: ss_init_def intro: ss_step.step_importSecret)

section \<open>Secrets in the store\<close>

lemma map_of_save_keys:
  "map_of (fst (save_keys H path ks d)) u = map_option (\<lambda>k. k\<lparr>filename := key_file H path u\<rparr>) (map_of ks u)"
  by (induction ks arbitrary: d) (auto simp: Let_def case_prod_unfold)

lemma map_of_save: "map_of (m_keys (save H s)) u = map_option (\<lambda>k. k\<lparr>filename := key_file H (m_path s) u\<rparr>) (map_of (m_keys s) u)"
  by (simp add: save_def save_to_simps map_of_save_keys)

lemma secret_uncached:
  assumes "map_of (m_keys s) u = Some k" "map_of (m_cached s) u = None \<or> \<not> b"
    "ask c = (Inr pass, c')" "decrypt H (encryptedKey k) pass = Inr sec"
    "toPublic (crypto H) (hash_of_bytes 32 FailIfDifferent sec) = Inr p"
  shows "fst (secret_uuid H u ask b s c) = Inr sec"
  using assms by (auto simp: secret_uuid_def toAddress_secret_def Let_def split: option.split)

text \<open>An imported secret is returned for its id, from the cache without asking and, once the cache
  has been cleared, by decrypting its file under the password it was imported with.\<close>

theorem import_then_secret:
  assumes "importSecret H r salt iv sec pass s = (Inr u, s')" "length iv = 16"
    "js_roundtrip (jlib H)" "kdf_lengths (crypto H)" "ctr_inverse (crypto H)"
  shows "u = r \<and> fst (secret_uuid H u ask True s' c) = Inr sec
    \<and> fst (secret_uuid H u (\<lambda>c. (Inr pass, c)) True (clearCache s') c) = Inr sec"
proof -
  obtain e kp where e: "encrypt H salt iv sec pass PBKDF2_SHA256 = Inr e"
    and kp: "KeyPair_of (crypto H) (hash_of_bytes 32 FailIfDifferent sec) = Inr kp"
    and s': "u = r" "s' = save H (s\<lparr>m_cached := al_put r sec (m_cached s),
        m_keys := al_put r \<lparr>encryptedKey = e, filename = toUUID r, address = m_address kp\<rparr> (m_keys s)\<rparr>)"
    using assms(1) by (auto simp: importSecret_def rbind_eq_Inr split: sum.splits)
  obtain p where p: "toPublic (crypto H) (hash_of_bytes 32 FailIfDifferent sec) = Inr p"
    using kp by (auto simp: KeyPair_of_def rbind_eq_Inr)
  have "decrypt H e pass = Inr sec" by (rule decrypt_encrypt' [OF e assms(2-5)])
  then have "fst (secret_uuid H r (\<lambda>c. (Inr pass, c)) True (clearCache s') c) = Inr sec"
    using p by (intro secret_uncached [where pass = pass and p = p
      and k = "\<lparr>encryptedKey = e, filename = key_file H (m_path s) r, address = m_address kp\<rparr>"]) (simp_all add: s'(2) clearCache_def map_of_save)
  moreover have "fst (secret_uuid H r ask True s' c) = Inr sec"
    by (simp add: s'(2) secret_uuid_def save_def save_to_simps)
  ultimately show ?thesis using s'(1) by simp
qed

lemma toy_import:
  "\<exists>s'. importSecret toy_host r salt (replicate 16 2) (replicate 32 7) pass s = (Inr r, s')"
proof -
  have "\<exists>e. encrypt toy_host salt (replicate 16 2) (replicate 32 7) pass PBKDF2_SHA256 = Inr e"
    by (rule toy_encrypts) simp
  moreover have "KeyPair_of (crypto toy_host) (hash_of_bytes 32 FailIfDifferent (replicate 32 7))
      = Inr \<lparr>m_secret = replicate 32 7, m_public = replicate 64 7, m_address = toAddress_public (replicate 64 7)\<rparr>"
    by (simp add: KeyPair_of_def toPublic_def toy_host_def toy_lib_def public_of_serialized_def hash_bool_def
        hash_of_bytes_def list_ex_iff replicate_add [symmetric])
  ultimately show ?thesis by (auto simp: importSecret_def)
qed

theorem import_then_secret_witness:
  "\<exists>s'. importSecret toy_host (replicate 16 5) [1] (replicate 16 2) (replicate 32 7) ''pw'' (ss_empty Map.empty) = (Inr (replicate 16 5), s')
    \<and> fst (secret_uuid toy_host (replicate 16 5) (\<lambda>c. (Inr ''pw'', c)) True (clearCache s') ()) = Inr (replicate 32 7)"
proof -
  obtain s' where s: "importSecret toy_host (replicate 16 5) [1] (replicate 16 2) (replicate 32 7) ''pw'' (ss_empty Map.empty)
      = (Inr (replicate 16 5), s')"
    using toy_import by blast
  then show ?thesis using import_then_secret [OF s, of "\<lambda>c. (Inr ''pw'', c)" "()"] by simp
qed

text \<open>\<open>recode\<close> changes the password: it returns true only after asking for the old one (or from the
  cache), and then the same secret decrypts under the new password, for the address and the id.\<close>

theorem recode_then_secret:
  assumes "recode_uuid H salt iv u newPass ask kdf s c = (Inr True, s', c')" "length iv = 16"
    "js_roundtrip (jlib H)" "kdf_lengths (crypto H)" "ctr_inverse (crypto H)" "ss_inv s"
  shows "\<exists>sec k. fst (secret_uuid H u ask True s c) = Inr sec \<and> sec \<noteq> []
    \<and> map_of (m_keys s') u = Some k \<and> decrypt H (encryptedKey k) newPass = Inr sec
    \<and> map_of (m_cached s') u = None"
proof -
  obtain r t d where q: "secret_uuid H u ask True s c = (r, t, d)" by (metis prod_cases3)
  with assms(1) obtain sec e where sec: "r = Inr sec" "sec \<noteq> []" and e: "encrypt H salt iv sec newPass kdf = Inr e"
    by (auto simp: recode_uuid_def Let_def split: sum.splits if_splits)
  define k0 where "k0 = (case map_of (m_keys t) u of Some k \<Rightarrow> k | None \<Rightarrow> \<lparr>encryptedKey = '''', filename = '''', address = ZeroAddress\<rparr>)"
  have "s' = save H (t\<lparr>m_cached := al_del u (m_cached t), m_keys := al_put u (k0\<lparr>encryptedKey := e\<rparr>) (m_keys t)\<rparr>)"
    using assms(1) q sec e by (auto simp: recode_uuid_def Let_def k0_def split: if_splits)
  then have "map_of (m_keys s') u = Some (k0\<lparr>encryptedKey := e, filename := key_file H (m_path t) u\<rparr>)"
    "map_of (m_cached s') u = None"
    by (simp_all add: map_of_save, simp add: save_def save_to_simps)
  moreover have "decrypt H e newPass = Inr sec" by (rule decrypt_encrypt' [OF e assms(2-5)])
  ultimately show ?thesis using q sec by simp
qed

theorem recode_then_secret_witness:
  "\<exists>s s' c'. recode_uuid toy_host [3] (replicate 16 4) (replicate 16 5) ''new'' (\<lambda>c. (Inr ''pw'', c)) Scrypt s () = (Inr True, s', c')
    \<and> map_of (m_cached s') (replicate 16 5) = None"
proof -
  define s where "s = (ss_empty Map.empty)\<lparr>m_keys := [(replicate 16 5, \<lparr>encryptedKey = '''', filename = '''', address = []\<rparr>)],
    m_cached := [(replicate 16 5, replicate 32 7)]\<rparr>"
  have "\<exists>e. encrypt toy_host [3] (replicate 16 4) (replicate 32 7) ''new'' Scrypt = Inr e"
    by (rule toy_encrypts) simp
  then obtain s' c' where r: "recode_uuid toy_host [3] (replicate 16 4) (replicate 16 5) ''new'' (\<lambda>c. (Inr ''pw'', c)) Scrypt s () = (Inr True, s', c')"
    by (auto simp: recode_uuid_def secret_uuid_def s_def)
  moreover have "ss_inv s" by (simp add: ss_inv_def s_def)
  ultimately show ?thesis using recode_then_secret [OF r] by auto
qed

text \<open>\<open>kill\<close> removes the key from memory, its secret from the cache and its file from the disk,
  and leaves the other keys alone.\<close>

theorem kill_forgets:
  assumes "map_of (m_keys s) u = Some k"
  shows "\<not> ss_contains (kill u s) u \<and> ss_disk (kill u s) (filename k) = None
    \<and> secret_uuid H u ask b (kill u s) c = (Inr [], kill u s, c)
    \<and> (\<forall>u'. u' \<noteq> u \<longrightarrow> map_of (m_keys (kill u s)) u' = map_of (m_keys s) u' \<and> map_of (m_cached (kill u s)) u' = map_of (m_cached s) u')"
  using assms by (simp add: kill_def Let_def ss_contains_def secret_uuid_def)

theorem kill_forgets_witness:
  "\<not> ss_contains (kill [1] ((ss_empty Map.empty)\<lparr>m_keys := [([1], \<lparr>encryptedKey = '''', filename = ''f'', address = []\<rparr>)]\<rparr>)) [1]"
  by (rule kill_forgets [THEN conjunct1]) simp

section \<open>Saving and reopening\<close>

definition key_text :: "host \<Rightarrow> bytes \<Rightarrow> encrypted_key \<Rightarrow> bytes" where
  "key_text H u k = asBytes (js_write (jlib H) (key_document H u k) True)"

text \<open>
  \<open>separate\<close>: canonical names differ, and no key was read from the file that is canonical for another.
\<close>

definition separate :: "host \<Rightarrow> string \<Rightarrow> (bytes \<times> encrypted_key) list \<Rightarrow> bool" where
  "separate H path ks \<longleftrightarrow> (\<forall>u \<in> fst ` set ks. \<forall>(u', k) \<in> set ks. u \<noteq> u' \<longrightarrow>
     key_file H path u \<noteq> key_file H path u' \<and> filename k \<noteq> key_file H path u)"

lemma separate_Cons: "separate H path (p # ks) \<Longrightarrow> separate H path ks"
  by (auto simp: separate_def)

lemma save_keys_disk_Cons:
  "snd (save_keys H path ((u, k) # ks) d) =
     snd (save_keys H path ks
       (let d = d(key_file H path u \<mapsto> key_text H u k)
        in if filename k \<noteq> '''' \<and> filename k \<noteq> key_file H path u then d(filename k := None) else d))"
  by (simp add: writeFile_def key_text_def Let_def case_prod_unfold)

lemma save_keys_other:
  "\<forall>(u, k) \<in> set ks. f \<noteq> key_file H path u \<and> f \<noteq> filename k \<Longrightarrow> snd (save_keys H path ks d) f = d f"
  by (induction ks arbitrary: d) (auto simp: save_keys_disk_Cons Let_def simp del: save_keys.simps(2))

lemma save_keys_file:
  "al_wf ks \<Longrightarrow> separate H path ks \<Longrightarrow> (u, k) \<in> set ks
     \<Longrightarrow> snd (save_keys H path ks d) (key_file H path u) = Some (key_text H u k)"
proof (induction ks arbitrary: d)
  case (Cons p ks)
  obtain v l where p: "p = (v, l)" by fastforce
  show ?case
  proof (cases "(u, k) = p")
    case True
    have "\<forall>(u', k') \<in> set ks. key_file H path u \<noteq> key_file H path u' \<and> key_file H path u \<noteq> filename k'"
    proof safe
      fix u' k' assume m: "(u', k') \<in> set ks"
      then have n: "u \<noteq> u'" using Cons.prems(1) True p by (force simp: image_iff)
      have "u \<in> fst ` set (p # ks)" "(u', k') \<in> set (p # ks)" using True m by force+
      then have "key_file H path u \<noteq> key_file H path u' \<and> filename k' \<noteq> key_file H path u"
        using Cons.prems(2) n unfolding separate_def by blast
      then show "key_file H path u = key_file H path u' \<Longrightarrow> False" "key_file H path u = filename k' \<Longrightarrow> False"
        by simp_all
    qed
    from save_keys_other [OF this] True p show ?thesis
      by (simp add: save_keys_disk_Cons Let_def del: save_keys.simps(2))
  next
    case False
    with Cons p separate_Cons show ?thesis by (simp add: save_keys_disk_Cons del: save_keys.simps(2)) blast
  qed
qed simp

text \<open>What \<open>readKeyContent\<close> makes of a saved document.\<close>

definition reread :: "host \<Rightarrow> string \<Rightarrow> encrypted_key \<Rightarrow> encrypted_key" where
  "reread H fname k = k\<lparr>encryptedKey := js_write (jlib H) (js_read (jlib H) (encryptedKey k)) False, filename := fname\<rparr>"

lemma plain_toUUID: "list_all plain_char (toUUID u)"
proof -
  have "list_all plain_char (insert_at i c s)" if "plain_char c" "list_all plain_char s" for i c s
    using that unfolding insert_at_def list_all_iff by (auto dest: in_set_takeD in_set_dropD)
  moreover have "plain_char CHR ''-''" by code_simp
  ultimately show ?thesis by (simp add: toUUID_def)
qed

lemma plain_document: "plain_json (js_read (jlib H) (encryptedKey k)) \<Longrightarrow> plain_json (key_document H u k)"
proof -
  have "list_all plain_char ''address''" "list_all plain_char ''crypto''" "list_all plain_char ''id''"
    "list_all plain_char ''version''" by code_simp+
  then show "plain_json (js_read (jlib H) (encryptedKey k)) \<Longrightarrow> plain_json (key_document H u k)"
    unfolding key_document_def Let_def hash_hex_def c_keyFileVersion_def
    by (intro plain_json_jput plain_Nil) (simp_all only: plain_json.simps(6) plain_toHex plain_toUUID, simp_all)
qed

lemma readKeyContent_document:
  assumes "js_roundtrip (jlib H)" "plain_json (js_read (jlib H) (encryptedKey k))" "length u = 16" "length (address k) = 20"
  shows "readKeyContent H (asString (key_text H u k)) fname s = (u, s\<lparr>m_keys := al_put u (reread H fname k) (m_keys s)\<rparr>)"
proof -
  obtain v where v: "key_document H u k = JObj v" and
    at: "jat v ''address'' = JStr (toHex (address k))" "jat v ''crypto'' = js_read (jlib H) (encryptedKey k)"
      "jat v ''id'' = JStr (toUUID u)" "jat v ''version'' = JInt 3" and
    has: "jhas v ''address''" "jhas v ''version''" "\<not> jhas v ''Version''" "\<not> jhas v ''Crypto''"
    by (simp add: key_document_def hash_hex_def c_keyFileVersion_def)
  have "js_read (jlib H) (asString (key_text H u k)) = JObj v"
    using plain_document [OF assms(2), of u] assms(1) v by (simp add: key_text_def js_roundtripD)
  then have "upgraded H (asString (key_text H u k)) = Inr (JObj v)"
    using at has by (simp add: upgraded_def key_version_def c_keyFileVersion_def)
  moreover have "isHex (toHex (address k))"
    using fromHex_iff_isHex' fromHex_toHex' [of "address k" Throw] by blast
  then have "read_address v = Inr (address k)"
    using at has assms(4) by (simp add: read_address_def jstr_at_def)
  ultimately show ?thesis
    using at assms(3) by (cases k) (simp add: readKeyContent_def jstr_at_def fromUUID_toUUID' reread_def)
qed

lemma load_documents:
  assumes "js_roundtrip (jlib H)"
    "\<forall>f \<in> set listing. \<exists>u k. f = key_file H path u \<and> map_of ks u = Some k"
    "\<forall>u k. map_of ks u = Some k \<longrightarrow> length u = 16 \<and> length (address k) = 20
       \<and> plain_json (js_read (jlib H) (encryptedKey k)) \<and> d (key_file H path u) = Some (key_text H u k)"
    "inj_on (key_file H path) (dom (map_of ks))" "ss_disk s = d"
  shows "map_of (m_keys (load H listing s)) u =
     (if map_of ks u \<noteq> None \<and> key_file H path u \<in> set listing
      then Some (reread H (key_file H path u) (the (map_of ks u))) else map_of (m_keys s) u)"
  using assms(2,5)
proof (induction listing arbitrary: s)
  case (Cons f listing)
  obtain v k where f: "f = key_file H path v" "map_of ks v = Some k" using Cons.prems(1) by auto
  define t where "t = s\<lparr>m_keys := al_put v (reread H f k) (m_keys s)\<rparr>"
  have "d f = Some (key_text H v k)" using assms(3) f by blast
  then have r: "readKey H f True s = (v, t)"
    using f assms(3) Cons.prems(2) readKeyContent_document [OF assms(1), of k v f s]
    by (simp add: readKey_def contentsString_def contents_def t_def)
  have "load H (f # listing) s = load H listing t" by (simp add: load_def r)
  moreover have "map_of (m_keys (load H listing t)) u =
     (if map_of ks u \<noteq> None \<and> key_file H path u \<in> set listing
      then Some (reread H (key_file H path u) (the (map_of ks u))) else map_of (m_keys t) u)"
    by (rule Cons.IH) (use Cons.prems in \<open>auto simp: t_def\<close>)
  moreover have "key_file H path u = f \<longleftrightarrow> u = v" if "map_of ks u \<noteq> None"
    using inj_onD [OF assms(4), of u v] f that by auto
  ultimately show ?case using f by (cases "u = v") (auto simp: t_def)
qed (simp add: load_def)





section \<open>Encryption under a stored key\<close>

lemma UseEncryptedKey_roundtrip':
  assumes "encryptUseEncryptedKey H v a pass s = Inr ct" "ct \<noteq> []" "ctr_inverse (crypto H)"
  shows "decryptUseEncryptedKey H ct a pass s = Inr v"
proof -
  obtain u k where k: "ss_key s a = Some (u, k)"
    using assms(1,2) by (auto simp: encryptUseEncryptedKey_def split: option.splits)
  obtain ob dk iv where r: "get_obj (js_read (jlib H) (encryptedKey k)) = Inr ob" "derive_from_stored H pass ob = Inr dk"
    "dk \<noteq> []" "jstr_at ob ''cipher'' = Inr ''aes-128-ctr''" "stored_iv ob = Inr iv"
    "encryptSymNoAuth (crypto H) (hash_of_bytes 16 AlignLeft dk) iv v = ct"
    using assms(1,2) k by (auto simp: encryptUseEncryptedKey_def rbind_eq_Inr Let_def split: if_splits)
  then show ?thesis using k sym_roundtrip [OF assms(3) _ r(6) assms(2)]
    by (simp add: decryptUseEncryptedKey_def)
qed

text \<open>Data encrypted under a key of the store decrypts under it. Unlike a stored secret it is not
  authenticated: under a wrong password bytes of the same cipher are returned instead of nothing.\<close>

theorem UseEncryptedKey_roundtrip:
  assumes "encryptUseEncryptedKey H v a pass s = Inr ct" "ct \<noteq> []" "ctr_inverse (crypto H)"
  shows "decryptUseEncryptedKey H ct a pass s = Inr v"
  by (rule UseEncryptedKey_roundtrip' [OF assms])

lemma toy_derive: "derive_from_stored toy_host pass toy_doc = Inr (replicate 32 (of_nat (length pass)))"
  by (simp add: toy_doc_def derive_from_stored_def jstr_at_def jobj_at_def pbkdf2_of_def iterations_fit pbkdf2_def
      toy_host_def toy_lib_def)

theorem UseEncryptedKey_roundtrip_witness:
  "decryptUseEncryptedKey toy_host [1, 2, 3] (replicate 20 9) ''pw''
     ((ss_empty Map.empty)\<lparr>m_keys := [(replicate 16 5, \<lparr>encryptedKey = js_write (jlib toy_host) (JObj toy_doc) True, filename = '''', address = replicate 20 9\<rparr>)]\<rparr>)
   = Inr [1, 2, 3]"
proof (rule UseEncryptedKey_roundtrip)
  have j: "js_read (jlib toy_host) (js_write (jlib toy_host) (JObj toy_doc) True) = JObj toy_doc"
    by (rule js_roundtripD [OF _ toy_doc_plain]) simp
  have c: "jstr_at toy_doc ''cipher'' = Inr ''aes-128-ctr''" "stored_iv toy_doc = Inr (replicate 16 2)"
    by (simp_all add: toy_doc_def jstr_at_def stored_iv_def jobj_at_def)
  have "encryptSymNoAuth (crypto toy_host) (hash_of_bytes 16 AlignLeft (replicate 32 2)) (replicate 16 2) [1, 2, 3] = [1, 2, 3]"
    by (simp add: encryptSymNoAuth_def encryptAES128CTR_def toy_host_def toy_lib_def)
  with j c toy_derive [of "''pw''"] show "encryptUseEncryptedKey toy_host [1, 2, 3] (replicate 20 9) ''pw''
     ((ss_empty Map.empty)\<lparr>m_keys := [(replicate 16 5, \<lparr>encryptedKey = js_write (jlib toy_host) (JObj toy_doc) True, filename = '''', address = replicate 20 9\<rparr>)]\<rparr>)
   = Inr [1, 2, 3]"
    by (simp add: encryptUseEncryptedKey_def ss_key_def)
qed simp_all

end
