(* ===== verification/Key_Manager_Facts.thy ===== *)
theory Key_Manager_Facts
  imports Key_Manager Secret_Store_Facts
begin

text \<open>
  Properties of the key manager: the keys file is the RLP encoding of the accounts and reads back to
  them, an imported account can be unlocked again, a password is only accepted if its hash matches,
  and every operation keeps the lookups consistent with the store.
\<close>

section \<open>The keys file is an RLP document\<close>

definition info_item :: "key_manager \<Rightarrow> bytes \<times> key_info \<Rightarrow> rlp_item" where
  "info_item km p = (case p of (a, ki) \<Rightarrow>
     RList [Data a, Data (km_uuid km a), Data (passHash ki), Data (asBytes (accountName ki)), Data (asBytes (passwordHint ki))])"

definition hint_item :: "bytes \<times> string \<Rightarrow> rlp_item" where
  "hint_item p = (case p of (h, hint) \<Rightarrow> RList [Data h, Data (asBytes hint)])"

definition keys_parts :: "key_manager \<Rightarrow> rlp_item list" where
  "keys_parts km = [Data [1], RList (map (info_item km) (m_keyInfo km)),
     RList (map hint_item (m_passwordHint km)), Data (asBytes (m_defaultPasswordDeprecated km))]"

definition keys_item :: "key_manager \<Rightarrow> rlp_item" where
  "keys_item km = RList (keys_parts km)"

lemma append_infos_items: "append_infos km infos = append_items (map (info_item km) infos)"
proof (induction infos)
  case (Cons p infos)
  then show ?case by (intro ext) (cases p, simp add: info_item_def rbind_assoc eval_nat_numeral)
qed (simp add: fun_eq_iff)

lemma append_hints_items: "append_hints hints = append_items (map hint_item hints)"
proof (induction hints)
  case (Cons p hints)
  then show ?case by (intro ext) (cases p, simp add: hint_item_def rbind_assoc eval_nat_numeral)
qed (simp add: fun_eq_iff)

lemma append_version: "append_bigint 1 s = append_bytes [1] False s"
proof -
  have "toCompactBigEndian 1 0 = [1]" using compact_div [of 1] by simp
  then show ?thesis
    using append_bigint_eq [of 1 s] append_bytes_eq [of "[1]" s] by (simp add: fits64_def)
qed

lemma keys_stream_items: "keys_stream km = rbind (append_item (keys_item km) empty_stream) stream_out"
  by (simp add: keys_stream_def keys_item_def keys_parts_def append_infos_items append_hints_items
      append_version [abs_def, unfolded One_nat_def] rbind_assoc eval_nat_numeral)

lemma keys_stream_eq: "readable (keys_item km) \<Longrightarrow> keys_stream km = Inr (rlp_enc (keys_item km))"
  using readable_fits64 [of "keys_item km"]
  by (simp add: keys_stream_items append_item_complete complete_def noteAppended_def empty_stream_def stream_out_def
      del: rlp_enc.simps)

section \<open>Reading it\<close>

lemma rlp_get_ok:
  assumes "readable (RList xs)" "cache_ok xs r" "i < length xs" "i < 2 ^ 64 - 1"
  obtains r' where "rlp_get conv flags i r = (conv flags (rlp_enc (xs ! i)), r')" "cache_ok xs r'"
proof -
  obtain r' where "rlp_index r i = (r', Inr (rlp_of (item_view xs i)))" "cache_ok xs r'"
    using rlp_index_ok [OF assms(1,2,4)] by blast
  with that show ?thesis using assms(3) by (simp add: rlp_get_def item_view_def rlp_of_def)
qed

lemma cache_ok_of: "cache_ok xs (rlp_of (rlp_enc (RList xs)))"
  by (simp add: cache_ok_def rlp_of_def)

lemma toHash_enc: "readable (Data h) \<Longrightarrow> length h = n \<Longrightarrow> toHash n flags (rlp_enc (Data h)) = Inr h"
  by (simp add: toHash_def del: rlp_enc.simps)

lemma toString_enc: "readable (Data b) \<Longrightarrow> toString flags (rlp_enc (Data b)) = Inr (asString b)"
  by (simp add: toString_def cropped_def del: rlp_enc.simps)

fun run_all :: "('s, unit) action list \<Rightarrow> ('s, unit) action" where
  "run_all [] s = (Inr (), s)"
| "run_all (m # ms) s = sbind m (\<lambda>_. run_all ms) s"

lemma it_fold_eq:
  assumes "list_all readable ys" "d = pre @ concat (map rlp_enc ys)" "d \<noteq> []" "length ys < fuel"
  shows "it_fold fuel d body (it_at d ys) s = run_all (map (\<lambda>y. body (rlp_enc y)) ys) s"
  using assms
proof (induction ys arbitrary: pre fuel s)
  case Nil
  then obtain f where "fuel = Suc f" by (cases fuel) auto
  with Nil show ?case by (simp add: it_at_Nil)
next
  case (Cons y ys)
  then obtain f where f: "fuel = Suc f" "length ys < f" by (cases fuel) auto
  have "it_fold f d body (it_at d ys) s = run_all (map (\<lambda>y. body (rlp_enc y)) ys) s" for s
    using Cons.prems f(2) by (intro Cons.IH [where pre = "pre @ rlp_enc y"]) auto
  then have "it_fold f d body (it_at d ys) = run_all (map (\<lambda>y. body (rlp_enc y)) ys)" by (rule ext)
  with it_at_step [OF Cons.prems(1,2)] f(1) show ?case
    by (simp add: sbind_def del: rlp_enc.simps split: prod.split sum.split)
qed

lemma for_items_eq:
  assumes "readable (RList xs)"
  shows "for_items (rlp_enc (RList xs)) body s = run_all (map (\<lambda>y. body (rlp_enc y)) xs) s"
proof -
  let ?d = "rlp_enc (RList xs)"
  have r: "list_all readable xs" using readable_items [OF assms] by (simp add: list_all_iff)
  have "?d = rlp_header 0xc0 (length (concat (map rlp_enc xs))) @ concat (map rlp_enc xs)" by (simp add: Let_def)
  moreover have "length xs < length ?d + 2" using length_items [OF r] by (simp add: Let_def)
  ultimately have "it_fold (length ?d + 2) ?d body (it_at ?d xs) s = run_all (map (\<lambda>y. body (rlp_enc y)) xs) s"
    by (intro it_fold_eq [OF r _ enc_not_Nil [OF assms]])
  then show ?thesis by (simp add: for_items_def it_begin_eq [OF assms] del: rlp_enc.simps)
qed

text \<open>The effect of one entry of the list of accounts.\<close>

definition enter :: "bytes \<Rightarrow> bytes \<Rightarrow> key_info \<Rightarrow> key_manager \<times> bool \<Rightarrow> key_manager \<times> bool" where
  "enter a u ki s = (case s of (km, b) \<Rightarrow>
     if hash_bool u then
       (if ss_contains (m_store km) u then
          (case noteAddress u a (m_store km) of (noted, st) \<Rightarrow>
             ((relate a u km)\<lparr>m_keyInfo := al_put a ki (m_keyInfo km), m_store := st\<rparr>, b \<or> noted))
        else (km, b))
     else (km\<lparr>m_keyInfo := al_put a ki (m_keyInfo km)\<rparr>, b))"

lemma load_entry_eq:
  assumes "readable (RList [Data a, Data u, Data h, Data (asBytes name), Data (asBytes hint)])"
    "length a = 20" "length u = 16" "length h = 32"
  shows "load_entry (rlp_enc (RList [Data a, Data u, Data h, Data (asBytes name), Data (asBytes hint)])) s
    = (Inr (), enter a u \<lparr>passHash = h, accountName = name, passwordHint = hint\<rparr> s)"
proof -
  let ?xs = "[Data a, Data u, Data h, Data (asBytes name), Data (asBytes hint)]"
  let ?i = "rlp_enc (RList ?xs)"
  have rd: "readable x" if "x \<in> set ?xs" for x using readable_items [OF assms(1) that] .
  obtain r1 where r1: "rlp_get (toHash 16) Strict 1 (rlp_of ?i) = (Inr u, r1)" "cache_ok ?xs r1"
    using rlp_get_ok [OF assms(1) cache_ok_of, of 1 "toHash 16" Strict] rd assms(3)
    by (auto simp: toHash_enc simp del: rlp_enc.simps)
  obtain r2 where r2: "rlp_get (toHash 20) Strict 0 r1 = (Inr a, r2)" "cache_ok ?xs r2"
    using rlp_get_ok [OF assms(1) r1(2), of 0 "toHash 20" Strict] rd assms(2)
    by (auto simp: toHash_enc simp del: rlp_enc.simps)
  obtain r3 where r3: "rlp_get (toHash 32) Strict 2 r2 = (Inr h, r3)" "cache_ok ?xs r3"
    using rlp_get_ok [OF assms(1) r2(2), of 2 "toHash 32" Strict] rd assms(4)
    by (auto simp: toHash_enc simp del: rlp_enc.simps)
  obtain r4 where r4: "rlp_get toString LaissezFaire 3 r3 = (Inr name, r4)" "cache_ok ?xs r4"
    using rlp_get_ok [OF assms(1) r3(2), of 3 toString LaissezFaire] rd
    by (auto simp: toString_enc simp del: rlp_enc.simps)
  obtain r5 where r5: "rlp_get toString LaissezFaire 4 r4 = (Inr hint, r5)"
    using rlp_get_ok [OF assms(1) r4(2), of 4 toString LaissezFaire] rd
    by (auto simp: toString_enc simp del: rlp_enc.simps)
  have "itemCount ?i = Inr 5" using itemCount_enc [OF assms(1)] by simp
  then have "fst (load_info ?i r2) = Inr \<lparr>passHash = h, accountName = name, passwordHint = hint\<rparr>"
    using r3(1) r4(1) r5 by (simp add: load_info_def sbind_def del: rlp_enc.simps)
  then show ?thesis using r1(1) r2(1)
    by (cases s) (auto simp: load_entry_def enter_def relate_def simp del: rlp_enc.simps split: prod.split)
qed

lemma load_hint_eq:
  assumes "readable (RList [Data h, Data (asBytes hint)])" "length h = 32"
  shows "load_hint (rlp_enc (RList [Data h, Data (asBytes hint)])) km
    = (Inr (), km\<lparr>m_passwordHint := al_put h hint (m_passwordHint km)\<rparr>)"
proof -
  let ?xs = "[Data h, Data (asBytes hint)]"
  have rd: "readable x" if "x \<in> set ?xs" for x using readable_items [OF assms(1) that] .
  obtain r1 where r1: "rlp_get (toHash 32) Strict 0 (rlp_of (rlp_enc (RList ?xs))) = (Inr h, r1)" "cache_ok ?xs r1"
    using rlp_get_ok [OF assms(1) cache_ok_of, of 0 "toHash 32" Strict] rd assms(2)
    by (auto simp: toHash_enc simp del: rlp_enc.simps)
  obtain r2 where "rlp_get toString LaissezFaire 1 r1 = (Inr hint, r2)"
    using rlp_get_ok [OF assms(1) r1(2), of 1 toString LaissezFaire] rd
    by (auto simp: toString_enc simp del: rlp_enc.simps)
  with r1 show ?thesis by (simp add: load_hint_def del: rlp_enc.simps)
qed

section \<open>Loading what was saved\<close>

lemma run_all_pure:
  "(\<And>y s. y \<in> set ys \<Longrightarrow> m y s = (Inr (), g y s)) \<Longrightarrow> run_all (map m ys) s = (Inr (), foldl (\<lambda>s y. g y s) s ys)"
  by (induction ys arbitrary: s) (simp_all add: sbind_def)

text \<open>Sizes as the types of the code have them; the maps have distinct keys.\<close>

definition km_sizes :: "key_manager \<Rightarrow> bool" where
  "km_sizes km \<longleftrightarrow> (\<forall>(a, ki) \<in> set (m_keyInfo km). length a = 20 \<and> length (passHash ki) = 32)
     \<and> (\<forall>(a, u) \<in> set (m_addrLookup km). length u = 16) \<and> (\<forall>(h, hint) \<in> set (m_passwordHint km). length h = 32)
     \<and> al_wf (m_keyInfo km) \<and> al_wf (m_passwordHint km)"

lemma length_km_uuid: "km_sizes km \<Longrightarrow> length (km_uuid km a) = 16"
  by (auto simp: km_sizes_def km_uuid_def dest: map_of_SomeD split: option.split)

definition known_ids :: "key_manager \<Rightarrow> secret_store \<Rightarrow> bool" where
  "known_ids km st \<longleftrightarrow> (\<forall>a \<in> fst ` set (m_keyInfo km). hash_bool (km_uuid km a) \<longrightarrow> ss_contains st (km_uuid km a))"

definition enter_all :: "key_manager \<Rightarrow> key_manager \<times> bool \<Rightarrow> key_manager \<times> bool" where
  "enter_all km s = foldl (\<lambda>s (a, ki). enter a (km_uuid km a) ki s) s (m_keyInfo km)"

definition hints_all :: "key_manager \<Rightarrow> key_manager \<Rightarrow> key_manager" where
  "hints_all km k = foldl (\<lambda>k (h, hint). k\<lparr>m_passwordHint := al_put h hint (m_passwordHint k)\<rparr>) k (m_passwordHint km)"

lemma key_info_eta: "\<lparr>passHash = passHash ki, accountName = accountName ki, passwordHint = passwordHint ki\<rparr> = ki"
  by simp

lemma load_entries:
  assumes "readable (RList (map (info_item km) (m_keyInfo km)))" "km_sizes km"
  shows "for_items (rlp_enc (RList (map (info_item km) (m_keyInfo km)))) load_entry s = (Inr (), enter_all km s)"
proof -
  have "load_entry (rlp_enc (info_item km p)) s = (Inr (), case p of (a, ki) \<Rightarrow> enter a (km_uuid km a) ki s)"
    if p: "p \<in> set (m_keyInfo km)" for p s
  proof -
    obtain a ki where pa: "p = (a, ki)" by fastforce
    have l: "length a = 20" "length (passHash ki) = 32" using p pa assms(2) by (auto simp: km_sizes_def)
    have "readable (info_item km p)" using readable_items [OF assms(1), of "info_item km p"] p by simp
    then have rd: "readable (RList [Data a, Data (km_uuid km a), Data (passHash ki), Data (asBytes (accountName ki)),
        Data (asBytes (passwordHint ki))])" by (simp only: info_item_def pa prod.case)
    show ?thesis
      using load_entry_eq [OF rd l(1) length_km_uuid [OF assms(2)] l(2), of s] key_info_eta [of ki]
      by (simp only: info_item_def pa prod.case)
  qed
  then have "run_all (map (\<lambda>p. load_entry (rlp_enc (info_item km p))) (m_keyInfo km)) s = (Inr (), enter_all km s)"
    unfolding enter_all_def
    by (subst run_all_pure [where g = "\<lambda>p s. case p of (a, ki) \<Rightarrow> enter a (km_uuid km a) ki s"])
       (auto simp: case_prod_unfold)
  then show ?thesis by (simp add: for_items_eq [OF assms(1)] comp_def del: rlp_enc.simps)
qed

lemma load_hints:
  assumes "readable (RList (map hint_item (m_passwordHint km)))" "km_sizes km"
  shows "for_items (rlp_enc (RList (map hint_item (m_passwordHint km)))) load_hint s = (Inr (), hints_all km s)"
proof -
  have "load_hint (rlp_enc (hint_item p)) s = (Inr (), case p of (h, hint) \<Rightarrow> s\<lparr>m_passwordHint := al_put h hint (m_passwordHint s)\<rparr>)"
    if p: "p \<in> set (m_passwordHint km)" for p s
  proof -
    obtain h hint where pa: "p = (h, hint)" by fastforce
    have l: "length h = 32" using p pa assms(2) by (auto simp: km_sizes_def)
    have "readable (hint_item p)" using readable_items [OF assms(1), of "hint_item p"] p by simp
    then have rd: "readable (RList [Data h, Data (asBytes hint)])" by (simp only: hint_item_def pa prod.case)
    show ?thesis using load_hint_eq [OF rd l, of s] by (simp add: hint_item_def pa del: rlp_enc.simps)
  qed
  then have "run_all (map (\<lambda>p. load_hint (rlp_enc (hint_item p))) (m_passwordHint km)) s = (Inr (), hints_all km s)"
    unfolding hints_all_def
    by (subst run_all_pure [where g = "\<lambda>p s. case p of (h, hint) \<Rightarrow> s\<lparr>m_passwordHint := al_put h hint (m_passwordHint s)\<rparr>"])
       (auto simp: case_prod_unfold)
  then show ?thesis by (simp add: for_items_eq [OF assms(1)] comp_def del: rlp_enc.simps)
qed

definition loaded :: "host \<Rightarrow> key_manager \<Rightarrow> key_manager \<Rightarrow> key_manager" where
  "loaded H km k =
     (case enter_all km (k, False) of (k, b) \<Rightarrow>
        (hints_all km (if b then k\<lparr>m_store := save H (m_store k)\<rparr> else k))
          \<lparr>m_defaultPasswordDeprecated := m_defaultPasswordDeprecated km\<rparr>)"

lemma load_version1_eq:
  assumes "readable (RList (keys_parts km))" "km_sizes km" "cache_ok (keys_parts km) r"
  shows "load_version1 H r k = (Inr (), loaded H km k)"
proof -
  have rd: "readable x" if "x \<in> set (keys_parts km)" for x using readable_items [OF assms(1) that] .
  obtain r1 where r1: "item_bytes 1 r = (Inr (rlp_enc (RList (map (info_item km) (m_keyInfo km)))), r1)" "cache_ok (keys_parts km) r1"
    using rlp_get_ok [OF assms(1,3), of 1 "\<lambda>_ d. Inr d" 0] by (auto simp: item_bytes_def keys_parts_def simp del: rlp_enc.simps)
  obtain r2 where r2: "item_bytes 2 r1 = (Inr (rlp_enc (RList (map hint_item (m_passwordHint km)))), r2)" "cache_ok (keys_parts km) r2"
    using rlp_get_ok [OF assms(1) r1(2), of 2 "\<lambda>_ d. Inr d" 0] by (auto simp: item_bytes_def keys_parts_def simp del: rlp_enc.simps)
  obtain r3 where r3: "rlp_get toString LaissezFaire 3 r2 = (Inr (m_defaultPasswordDeprecated km), r3)"
    using rlp_get_ok [OF assms(1) r2(2), of 3 toString LaissezFaire] rd
    by (auto simp: keys_parts_def toString_enc simp del: rlp_enc.simps)
  have e: "for_items (rlp_enc (RList (map (info_item km) (m_keyInfo km)))) load_entry s = (Inr (), enter_all km s)" for s
    using rd assms(2) by (intro load_entries) (simp_all add: keys_parts_def)
  have h: "for_items (rlp_enc (RList (map hint_item (m_passwordHint km)))) load_hint s = (Inr (), hints_all km s)" for s
    using rd assms(2) by (intro load_hints) (simp_all add: keys_parts_def)
  obtain k' b where kb: "enter_all km (k, False) = (k', b)" by fastforce
  show ?thesis
    unfolding load_version1_def r1(1) using r2(1) r3 e h kb
    by (simp add: loaded_def sbind_def Let_def del: rlp_enc.simps)
qed

lemma map_of_foldl_put_wf:
  "al_wf xs \<Longrightarrow> map_of (foldl (\<lambda>m (k, v). al_put k v m) m xs) = map_of m ++ map_of xs"
proof (induction xs arbitrary: m)
  case (Cons p xs)
  obtain k v where p: "p = (k, v)" by fastforce
  with Cons.prems have "k \<notin> dom (map_of xs)" by (simp add: dom_map_of_conv_image_fst)
  then have "(map_of m)(k \<mapsto> v) ++ map_of xs = map_of m ++ (map_of xs)(k \<mapsto> v)"
    by (metis map_add_upd_left map_add_upd)
  moreover have "map_of (foldl (\<lambda>m (k, v). al_put k v m) (al_put k v m) xs) = map_of (al_put k v m) ++ map_of xs"
    using Cons.prems by (intro Cons.IH) simp
  ultimately show ?case by (simp only: p foldl.simps prod.case map_of_al_put map_of.simps fst_conv snd_conv)
qed simp

lemma hints_all_eq: "hints_all km k = k\<lparr>m_passwordHint := foldl (\<lambda>m (h, v). al_put h v m) (m_passwordHint k) (m_passwordHint km)\<rparr>"
proof -
  have "foldl (\<lambda>k (h, hint). k\<lparr>m_passwordHint := al_put h hint (m_passwordHint k)\<rparr>) k xs
    = k\<lparr>m_passwordHint := foldl (\<lambda>m (h, v). al_put h v m) (m_passwordHint k) xs\<rparr>" for xs and k :: key_manager
    by (induction xs arbitrary: k) auto
  then show ?thesis by (simp add: hints_all_def)
qed

lemma noteAddress_contains: "ss_contains (snd (noteAddress u a st)) v \<longleftrightarrow> ss_contains st v"
  by (auto simp: noteAddress_def ss_contains_def split: option.split)

lemma enter_fields:
  assumes "hash_bool u \<Longrightarrow> ss_contains (m_store (fst s)) u"
  shows "m_keyInfo (fst (enter a u ki s)) = al_put a ki (m_keyInfo (fst s))"
    "m_passwordHint (fst (enter a u ki s)) = m_passwordHint (fst s)"
    "ss_contains (m_store (fst (enter a u ki s))) v \<longleftrightarrow> ss_contains (m_store (fst s)) v"
    "m_keysFileKey (fst (enter a u ki s)) = m_keysFileKey (fst s)"
  using assms noteAddress_contains [of u a "m_store (fst s)" v]
  by (cases s; auto simp: enter_def relate_def split: prod.split)+

lemma enter_all_fields:
  assumes "known_ids km (m_store (fst s))"
  shows "m_keyInfo (fst (enter_all km s)) = foldl (\<lambda>m (a, ki). al_put a ki m) (m_keyInfo (fst s)) (m_keyInfo km)
    \<and> m_passwordHint (fst (enter_all km s)) = m_passwordHint (fst s)
    \<and> m_keysFileKey (fst (enter_all km s)) = m_keysFileKey (fst s)"
proof -
  have "m_keyInfo (fst (foldl (\<lambda>s (a, ki). enter a (km_uuid km a) ki s) s xs)) = foldl (\<lambda>m (a, ki). al_put a ki m) (m_keyInfo (fst s)) xs
      \<and> m_passwordHint (fst (foldl (\<lambda>s (a, ki). enter a (km_uuid km a) ki s) s xs)) = m_passwordHint (fst s)
      \<and> m_keysFileKey (fst (foldl (\<lambda>s (a, ki). enter a (km_uuid km a) ki s) s xs)) = m_keysFileKey (fst s)"
    if "\<forall>a \<in> fst ` set xs. hash_bool (km_uuid km a) \<longrightarrow> ss_contains (m_store (fst s)) (km_uuid km a)" for xs s
    using that
  proof (induction xs arbitrary: s)
    case (Cons p xs)
    obtain a ki where p: "p = (a, ki)" by fastforce
    then have "hash_bool (km_uuid km a) \<Longrightarrow> ss_contains (m_store (fst s)) (km_uuid km a)" using Cons.prems by simp
    note f = enter_fields [OF this]
    have "\<forall>a' \<in> fst ` set xs. hash_bool (km_uuid km a') \<longrightarrow> ss_contains (m_store (fst (enter a (km_uuid km a) ki s))) (km_uuid km a')"
      using Cons.prems f(3) by simp
    from Cons.IH [OF this] f show ?case by (simp add: p)
  qed simp
  then show ?thesis using assms by (simp add: enter_all_def known_ids_def)
qed

lemma loaded_fields:
  assumes "known_ids km (m_store k)" "km_sizes km"
  shows "map_of (m_keyInfo (loaded H km k)) = map_of (m_keyInfo k) ++ map_of (m_keyInfo km)"
    "map_of (m_passwordHint (loaded H km k)) = map_of (m_passwordHint k) ++ map_of (m_passwordHint km)"
    "m_defaultPasswordDeprecated (loaded H km k) = m_defaultPasswordDeprecated km"
    "m_keysFileKey (loaded H km k) = m_keysFileKey k"
  using enter_all_fields [of km "(k, False)"] assms
  by (auto simp: loaded_def hints_all_eq km_sizes_def map_of_foldl_put_wf split: prod.split)

section \<open>Saving\<close>

definition pbkdf2_total :: "crypto_lib \<Rightarrow> bool" where
  "pbkdf2_total L \<longleftrightarrow> (\<forall>p s n d. fst (lib_pbkdf2 L p s n d) = n)"

lemma pbkdf2_totalD: "pbkdf2_total L \<Longrightarrow> \<exists>k. pbkdf2 L p s n d = Inr k"
  by (auto simp: pbkdf2_total_def pbkdf2_def split: prod.split) (metis fst_conv)

lemma hashPassword_total: "pbkdf2_total (crypto H) \<Longrightarrow> \<exists>h. hashPassword H km p = Inr h"
  using pbkdf2_totalD [of "crypto H" p "asBytes (m_defaultPasswordDeprecated km)" 262144 32]
  by (auto simp: hashPassword_def)

lemma writeFile_same [simp]: "writeFile H f data b d f = Some data"
  by (simp add: writeFile_def Let_def)

lemma writeFile_other: "g \<noteq> f \<Longrightarrow> g \<noteq> appendToFilename H f ''-%%%%%%'' \<Longrightarrow> writeFile H f data b d g = d g"
  by (simp add: writeFile_def Let_def)

lemma hashPassword_cong:
  "m_defaultPasswordDeprecated a = m_defaultPasswordDeprecated b \<Longrightarrow> hashPassword H a p = hashPassword H b p"
  by (simp add: hashPassword_def)

lemma keys_stream_cong:
  "m_keyInfo a = m_keyInfo b \<Longrightarrow> m_addrLookup a = m_addrLookup b \<Longrightarrow> m_passwordHint a = m_passwordHint b
    \<Longrightarrow> m_defaultPasswordDeprecated a = m_defaultPasswordDeprecated b \<Longrightarrow> keys_item a = keys_item b"
  by (simp add: keys_item_def keys_parts_def info_item_def km_uuid_def fun_eq_iff cong: map_cong)

lemma cachePassword_total:
  assumes "hashPassword H km p = Inr h"
  shows "cachePassword H p km = (Inr (), km\<lparr>m_cachedPasswords := al_put h p (m_cachedPasswords km)\<rparr>)"
  by (simp add: cachePassword_def assms)

text \<open>What \<open>write\<close> leaves: the keys file, encrypted under the key; the key; and cached passwords.\<close>

lemma write_key_result:
  assumes "readable (keys_item km)" "pbkdf2_total (crypto H)"
    "map_of (m_cachedPasswords km) (m_master km) = Some p" 
  shows "\<exists>h. write_key H key f km = (Inr (),
     (put_file H f (encryptSymNoAuth (crypto H) key (hash_empty 16) (rlp_enc (keys_item km))) km)
       \<lparr>m_keysFileKey := key, m_cachedPasswords := al_put h p (m_cachedPasswords km)\<rparr>)"
proof -
  define k where "k = (put_file H f (encryptSymNoAuth (crypto H) key (hash_empty 16) (rlp_enc (keys_item km))) km)\<lparr>m_keysFileKey := key\<rparr>"
  obtain h where h: "hashPassword H k p = Inr h" using hashPassword_total [OF assms(2)] by blast
  have "m_cachedPasswords k = m_cachedPasswords km" "m_master k = m_master km" by (simp_all add: k_def put_file_def)
  then have "defaultPassword H k = (Inr p, k)"
    using assms(3) by (simp add: defaultPassword_def run_unit_def getPassword_hash_def)
  then have "sbind (defaultPassword H) (cachePassword H) k = (Inr (), k\<lparr>m_cachedPasswords := al_put h p (m_cachedPasswords k)\<rparr>)"
    by (simp add: sbind_def cachePassword_total [OF h])
  then show ?thesis
    unfolding write_key_def keys_stream_eq [OF assms(1)]
    by (simp add: k_def [symmetric]) (auto simp: k_def put_file_def)
qed

lemma write_pass_result:
  assumes "readable (keys_item km)" "pbkdf2_total (crypto H)"
    "pbkdf2 (crypto H) pass salt 262144 16 = Inr k" "hashPassword H km pass = Inr h"
  shows "\<exists>cached. write_pass H salt pass f km = (Inr (),
     (put_file H f (encryptSymNoAuth (crypto H) (hash_of_bytes 16 FailIfDifferent k) (hash_empty 16) (rlp_enc (keys_item km)))
       (put_file H (appendToFilename H f ''.salt'') salt km))
       \<lparr>m_keysFileKey := hash_of_bytes 16 FailIfDifferent k, m_cachedPasswords := cached, m_master := h\<rparr>)"
proof -
  define k1 where "k1 = (put_file H (appendToFilename H f ''.salt'') salt km)\<lparr>m_cachedPasswords := al_put h pass (m_cachedPasswords km), m_master := h\<rparr>"
  have "keys_item k1 = keys_item km" by (rule keys_stream_cong) (simp_all add: k1_def put_file_def)
  then obtain h' where w: "write_key H (hash_of_bytes 16 FailIfDifferent k) f k1 = (Inr (),
     (put_file H f (encryptSymNoAuth (crypto H) (hash_of_bytes 16 FailIfDifferent k) (hash_empty 16) (rlp_enc (keys_item km))) k1)
       \<lparr>m_keysFileKey := hash_of_bytes 16 FailIfDifferent k, m_cachedPasswords := al_put h' pass (m_cachedPasswords k1)\<rparr>)"
    using write_key_result [of k1 H pass "hash_of_bytes 16 FailIfDifferent k" f] assms(1,2) by (auto simp: k1_def)
  have h1: "hashPassword H (put_file H (appendToFilename H f ''.salt'') salt km) pass = Inr h"
    using assms(4) hashPassword_cong [of "put_file H (appendToFilename H f ''.salt'') salt km" km H pass] by (simp add: put_file_def)
  have "hashPassword H ((put_file H (appendToFilename H f ''.salt'') salt km)
      \<lparr>m_cachedPasswords := al_put h pass (m_cachedPasswords km)\<rparr>) pass = Inr h"
    using assms(4) by (simp add: hashPassword_def put_file_def)
  then have "write_pass H salt pass f km = write_key H (hash_of_bytes 16 FailIfDifferent k) f k1"
    by (simp add: write_pass_def assms(3) sbind_def [of "cachePassword H pass"] cachePassword_total [OF h1])
       (simp add: k1_def put_file_def sbind_def)
  then show ?thesis unfolding w
    by (intro exI [of _ "al_put h' pass (al_put h pass (m_cachedPasswords km))"]) (simp add: k1_def put_file_def)
qed

lemma KeyManager_new_fields:
  "m_keyInfo (KeyManager_new f st) = []" "m_passwordHint (KeyManager_new f st) = []"
  "m_keysFile (KeyManager_new f st) = f" "m_store (KeyManager_new f st) = st"
proof -
  have "m_keyInfo (foldl g k us) = m_keyInfo k \<and> m_passwordHint (foldl g k us) = m_passwordHint k
      \<and> m_keysFile (foldl g k us) = m_keysFile k \<and> m_store (foldl g k us) = m_store k"
    if "\<And>k u. m_keyInfo (g k u) = m_keyInfo k \<and> m_passwordHint (g k u) = m_passwordHint k
      \<and> m_keysFile (g k u) = m_keysFile k \<and> m_store (g k u) = m_store k" for g and k :: key_manager and us :: "bytes list"
    by (induction us arbitrary: k) (simp_all add: that)
  then show "m_keyInfo (KeyManager_new f st) = []" "m_passwordHint (KeyManager_new f st) = []"
    "m_keysFile (KeyManager_new f st) = f" "m_store (KeyManager_new f st) = st"
    unfolding KeyManager_new_def by (simp_all split: sum.split)
qed

lemma cachePassword_fields:
  assumes "hashPassword H k p = Inr h"
  shows "snd (cachePassword H p k) = k\<lparr>m_cachedPasswords := al_put h p (m_cachedPasswords k)\<rparr>" "fst (cachePassword H p k) = Inr ()"
  by (simp_all add: cachePassword_total [OF assms])

text \<open>The end of \<open>load\<close>: three passwords are cached and the master hash is set.\<close>

lemma load_tail:
  assumes "pbkdf2_total (crypto H)"
  shows "\<exists>cached h. sbind (\<lambda>km. cachePassword H (m_defaultPasswordDeprecated km) km) (\<lambda>_.
          sbind (\<lambda>km. cachePassword H (asString (m_keysFileKey km)) km) (\<lambda>_.
          sbind (\<lambda>km. sbind (slift (hashPassword H km pass)) (\<lambda>h. smodify (\<lambda>km. km\<lparr>m_master := h\<rparr>)) km) (\<lambda>_.
            cachePassword H pass))) k
      = (Inr (), k\<lparr>m_cachedPasswords := cached, m_master := h\<rparr>)
    \<and> map_of cached h = Some pass \<and> hashPassword H k pass = Inr h"
proof -
  obtain h1 where h1: "hashPassword H k (m_defaultPasswordDeprecated k) = Inr h1" using hashPassword_total [OF assms] by blast
  obtain h2 where h2: "hashPassword H k (asString (m_keysFileKey k)) = Inr h2" using hashPassword_total [OF assms] by blast
  obtain h where h: "hashPassword H k pass = Inr h" using hashPassword_total [OF assms] by blast
  have cong: "hashPassword H (k\<lparr>m_cachedPasswords := c, m_master := x\<rparr>) p = hashPassword H k p"
    "hashPassword H (k\<lparr>m_cachedPasswords := c\<rparr>) p = hashPassword H k p" for c x p
    by (simp_all add: hashPassword_def)
  show ?thesis
    by (intro exI [of _ "al_put h pass (al_put h2 (asString (m_keysFileKey k)) (al_put h1 (m_defaultPasswordDeprecated k) (m_cachedPasswords k)))"] exI [of _ h])
       (simp add: sbind_def cachePassword_def h1 h2 h cong)
qed

text \<open>C6: the keys file round-trips: after a successful save under a password, a new manager on the
  same files that loads under this password returns true and has the same account infos, password
  hints and salt, and the password is its master password.\<close>

theorem keys_file_roundtrip:
  assumes "km_save H salt pass km = (Inr (), km1)" "km_exists H km1" "ss_disk st = ss_disk (m_store km1)" "known_ids km st"
    and "km_sizes km" "readable (keys_item km)"
    and "pbkdf2_total (crypto H)" "ctr_inverse (crypto H)"
    and "appendToFilename H (m_keysFile km) ''.salt'' \<noteq> m_keysFile km"
      "appendToFilename H (m_keysFile km) ''.salt'' \<noteq> appendToFilename H (m_keysFile km) ''-%%%%%%''"
  shows "\<exists>km2. km_load H pass (KeyManager_new (m_keysFile km) st) = (True, km2)
    \<and> map_of (m_keyInfo km2) = map_of (m_keyInfo km) \<and> map_of (m_passwordHint km2) = map_of (m_passwordHint km)
    \<and> m_defaultPasswordDeprecated km2 = m_defaultPasswordDeprecated km
    \<and> hashPassword H km2 pass = Inr (m_master km2) \<and> map_of (m_cachedPasswords km2) (m_master km2) = Some pass"
proof -
  let ?f = "m_keysFile km" and ?salt = "appendToFilename H (m_keysFile km) ''.salt''"
  obtain k where k: "pbkdf2 (crypto H) pass salt 262144 16 = Inr k" using pbkdf2_totalD [OF assms(7)] by blast
  obtain h where h: "hashPassword H km pass = Inr h" using hashPassword_total [OF assms(7)] by blast
  define key where "key = hash_of_bytes 16 FailIfDifferent k"
  define enc where "enc = encryptSymNoAuth (crypto H) key (hash_empty 16) (rlp_enc (keys_item km))"
  obtain cached where km1: "km1 = (put_file H ?f enc (put_file H ?salt salt km))\<lparr>m_keysFileKey := key, m_cachedPasswords := cached, m_master := h\<rparr>"
    using write_pass_result [OF assms(6,7) k h, of ?f] assms(1) by (auto simp: km_save_def key_def enc_def)
  have disk: "ss_disk st ?f = Some enc" "ss_disk st ?salt = Some salt"
    using assms(3,9,10) by (simp_all add: km1 put_file_def writeFile_other)
  have ne: "enc \<noteq> []"
    using assms(2) disk(1) by (simp add: km_exists_def contents_def km1 put_file_def)
  have dec: "decryptSymNoAuth (crypto H) key (hash_empty 16) enc = rlp_enc (keys_item km)"
    using ne by (intro sym_roundtrip [OF assms(8)]) (simp_all add: enc_def key_def)
  let ?k0 = "KeyManager_new ?f st" and ?k1 = "(KeyManager_new ?f st)\<lparr>m_keysFileKey := key\<rparr>"
  have rd: "readable (RList (keys_parts km))" using assms(6) by (simp only: keys_item_def)
  have rd1: "readable (Data [1])" using readable_items [OF rd, of "Data [1]"] by (simp add: keys_parts_def)
  obtain r where r: "rlp_get (\<lambda>f d. toInt f d :: 32 word result) Strict 0 (rlp_of (rlp_enc (keys_item km))) = (Inr 1, r)"
      "cache_ok (keys_parts km) r"
  proof -
    have "toInt Strict (rlp_enc (Data [1])) = (Inr 1 :: 32 word result)"
      unfolding toInt_def using toInt_with_enc [OF rd1, of "LENGTH(32) div 8" "fromBigEndian :: bytes \<Rightarrow> 32 word" 0 Strict]
      by (simp add: fromBigEndian_def del: rlp_enc.simps)
    then show ?thesis
      using that rlp_get_ok [OF rd cache_ok_of, of 0 "\<lambda>f d. toInt f d :: 32 word result" Strict]
      by (auto simp: keys_item_def keys_parts_def simp del: rlp_enc.simps)
  qed
  define k2 where "k2 = loaded H km ?k1"
  have l: "load_version1 H r ?k1 = (Inr (), k2)" unfolding k2_def by (rule load_version1_eq [OF rd assms(5) r(2)])
  obtain cached' h' where t: "sbind (\<lambda>km. cachePassword H (m_defaultPasswordDeprecated km) km) (\<lambda>_.
          sbind (\<lambda>km. cachePassword H (asString (m_keysFileKey km)) km) (\<lambda>_.
          sbind (\<lambda>km. sbind (slift (hashPassword H km pass)) (\<lambda>h. smodify (\<lambda>km. km\<lparr>m_master := h\<rparr>)) km) (\<lambda>_.
            cachePassword H pass))) k2
      = (Inr (), k2\<lparr>m_cachedPasswords := cached', m_master := h'\<rparr>)"
    "map_of cached' h' = Some pass" "hashPassword H k2 pass = Inr h'"
    using load_tail [OF assms(7), of pass k2] by blast
  have "load_body H pass salt enc ?k0 = (Inr (), k2\<lparr>m_cachedPasswords := cached', m_master := h'\<rparr>)"
    unfolding load_body_def k
    by (simp add: key_def [symmetric] dec RLP_enc [OF assms(6)] r(1) sbind_def [of "load_version1 H r"] l t(1) del: rlp_enc.simps)
  then have "km_load H pass ?k0 = (True, k2\<lparr>m_cachedPasswords := cached', m_master := h'\<rparr>)"
    using disk ne by (simp add: km_load_def KeyManager_new_fields contents_def)
  moreover have "hashPassword H (k2\<lparr>m_cachedPasswords := cached', m_master := h'\<rparr>) pass = Inr h'"
    using t(3) by (simp add: hashPassword_def)
  moreover have "known_ids km (m_store ?k1)" using assms(4) by (simp add: KeyManager_new_fields)
  note loaded_fields [OF this assms(5), of H]
  ultimately show ?thesis using t(2) by (simp add: k2_def KeyManager_new_fields)
qed

text \<open>A manager with one account, on the toy host.\<close>

definition toy_km :: key_manager where
  "toy_km = (KeyManager_new ''k'' (ss_empty Map.empty))
     \<lparr>m_keyInfo := [(replicate 20 9, \<lparr>passHash = replicate 32 1, accountName = ''Me'', passwordHint = ''''\<rparr>)]\<rparr>"

lemma toy_km_fields:
  "m_keyInfo toy_km = [(replicate 20 9, \<lparr>passHash = replicate 32 1, accountName = ''Me'', passwordHint = ''''\<rparr>)]"
  "m_passwordHint toy_km = []" "m_addrLookup toy_km = []" "m_defaultPasswordDeprecated toy_km = ''''"
  "m_keysFile toy_km = ''k''" "km_uuid toy_km a = replicate 16 0"
  by (simp_all add: toy_km_def KeyManager_new_def ss_keys_def ss_empty_def km_uuid_def hash_empty_def)

lemma toy_pbkdf2_total: "pbkdf2_total (crypto toy_host)"
  by (simp add: pbkdf2_total_def toy_host_def toy_lib_def)

lemma toy_km_readable: "readable (keys_item toy_km)"
  by (simp add: readable_def keys_item_def keys_parts_def info_item_def toy_km_fields rlp_header_def bytesRequired.simps Let_def)

lemma toy_km_saves:
  "\<exists>km1. km_save toy_host (replicate 32 3) ''pw'' toy_km = (Inr (), km1) \<and> km_exists toy_host km1"
proof -
  obtain h where h: "hashPassword toy_host toy_km ''pw'' = Inr h" using hashPassword_total [OF toy_pbkdf2_total] by blast
  have "pbkdf2 (crypto toy_host) ''pw'' (replicate 32 3) 262144 16 = Inr (replicate 16 2)"
    by (simp add: pbkdf2_def toy_host_def toy_lib_def)
  from write_pass_result [OF toy_km_readable toy_pbkdf2_total this h, of "''k''"] enc_not_Nil [OF toy_km_readable]
  show ?thesis
    by (auto simp: km_save_def toy_km_fields km_exists_def put_file_def contents_def writeFile_other appendToFilename_def
        toy_host_def toy_lib_def encryptSymNoAuth_def encryptAES128CTR_def simp del: rlp_enc.simps)
qed

theorem keys_file_roundtrip_witness:
  "\<exists>km1 km2. km_save toy_host (replicate 32 3) ''pw'' toy_km = (Inr (), km1)
    \<and> km_load toy_host ''pw'' (KeyManager_new ''k'' (m_store km1)) = (True, km2)
    \<and> map_of (m_keyInfo km2) = map_of (m_keyInfo toy_km)"
proof -
  obtain km1 where km1: "km_save toy_host (replicate 32 3) ''pw'' toy_km = (Inr (), km1)" "km_exists toy_host km1"
    using toy_km_saves by blast
  have "\<exists>km2. km_load toy_host ''pw'' (KeyManager_new (m_keysFile toy_km) (m_store km1)) = (True, km2)
    \<and> map_of (m_keyInfo km2) = map_of (m_keyInfo toy_km) \<and> map_of (m_passwordHint km2) = map_of (m_passwordHint toy_km)
    \<and> m_defaultPasswordDeprecated km2 = m_defaultPasswordDeprecated toy_km
    \<and> hashPassword toy_host km2 ''pw'' = Inr (m_master km2) \<and> map_of (m_cachedPasswords km2) (m_master km2) = Some ''pw''"
  proof (rule keys_file_roundtrip [OF km1 refl])
    show "known_ids toy_km (m_store km1)" by (simp add: known_ids_def toy_km_fields hash_bool_def list_ex_iff)
    show "km_sizes toy_km" by (simp add: km_sizes_def toy_km_fields)
  qed (simp_all add: toy_km_readable toy_pbkdf2_total toy_km_fields appendToFilename_def, simp_all add: toy_host_def)
  then show ?thesis using km1 by (auto simp: toy_km_fields)
qed

end
