(* ===== verification/Key_Manager_Invariant.thy ===== *)
theory Key_Manager_Invariant
  imports Key_Manager_Facts
begin

text \<open>
  The key manager as a state machine: every public operation, whatever it returns or throws, keeps
  the maps well-formed and relates only ids whose key the store holds. Built on it: an imported
  account can be unlocked, a password is accepted only if its hash matches, and what \<open>create\<close>,
  \<open>clear\<close> and \<open>kill\<close> do to the accounts.
\<close>

section \<open>The invariant\<close>

definition km_inv :: "key_manager \<Rightarrow> bool" where
  "km_inv km \<longleftrightarrow> ss_inv (m_store km) \<and> fst ` set (m_uuidLookup km) \<subseteq> fst ` set (m_keys (m_store km))
     \<and> al_wf (m_uuidLookup km) \<and> al_wf (m_addrLookup km) \<and> al_wf (m_keyInfo km) \<and> al_wf (m_passwordHint km)
     \<and> al_wf (m_cachedPasswords km)"

lemma km_inv_updates [simp]:
  "km_inv (km\<lparr>m_defaultPasswordDeprecated := x\<rparr>) \<longleftrightarrow> km_inv km"
  "km_inv (km\<lparr>m_keysFileKey := k\<rparr>) \<longleftrightarrow> km_inv km" "km_inv (km\<lparr>m_master := k\<rparr>) \<longleftrightarrow> km_inv km"
  by (simp_all add: km_inv_def)

text \<open>Changes of one map.\<close>

lemma km_inv_puts [simp]:
  "km_inv km \<Longrightarrow> km_inv (km\<lparr>m_cachedPasswords := al_put h p (m_cachedPasswords km)\<rparr>)"
  "km_inv km \<Longrightarrow> km_inv (km\<lparr>m_passwordHint := al_put h p (m_passwordHint km)\<rparr>)"
  "km_inv km \<Longrightarrow> km_inv (km\<lparr>m_keyInfo := al_put a i (m_keyInfo km)\<rparr>)"
  "km_inv km \<Longrightarrow> km_inv (km\<lparr>m_addrLookup := al_put a u (m_addrLookup km)\<rparr>)"
  by (simp_all add: km_inv_def)

lemma km_inv_relate:
  "km_inv km \<Longrightarrow> u \<in> fst ` set (m_keys (m_store km)) \<Longrightarrow> km_inv (km\<lparr>m_uuidLookup := al_put u a (m_uuidLookup km)\<rparr>)"
  by (simp add: km_inv_def)

text \<open>A change of the store that keeps its invariant and its ids.\<close>

lemma km_inv_store:
  "km_inv km \<Longrightarrow> ss_inv st \<Longrightarrow> fst ` set (m_keys (m_store km)) \<subseteq> fst ` set (m_keys st) \<Longrightarrow> km_inv (km\<lparr>m_store := st\<rparr>)"
  using subset_trans [of "fst ` set (m_uuidLookup km)" "fst ` set (m_keys (m_store km))" "fst ` set (m_keys st)"]
  by (simp add: km_inv_def)

lemma km_inv_put_file [simp]: "km_inv km \<Longrightarrow> km_inv (put_file H f d km)"
  by (simp add: km_inv_def put_file_def ss_inv_def)

lemma keeps_state: "(\<And>x. keeps P (m x)) \<Longrightarrow> keeps P (\<lambda>s. m s s)"
  by (simp add: keeps_def)

lemma keeps_cache [keeps_intros]: "keeps km_inv (cachePassword H p)"
  by (auto simp: keeps_def cachePassword_def sbind_def split: prod.split sum.split)

lemma keeps_hint [keeps_intros]: "keeps km_inv (noteHint H p hint)"
  by (auto simp: keeps_def noteHint_def sbind_def split: prod.split sum.split)

lemma keeps_on_km: "keeps km_inv m \<Longrightarrow> keeps (\<lambda>s. km_inv (fst s)) (on_km m)"
  by (fastforce simp: keeps_def on_km_def split: prod.split)

lemma ask_loop_inv: "km_inv (fst s) \<Longrightarrow> km_inv (fst (snd (ask_loop H n ph ask s)))"
proof (induction H n ph ask s rule: ask_loop.induct)
  case (2 H n ph ask km c)
  obtain r c' where a: "ask c = (r, c')" by fastforce
  show ?case
  proof (cases r)
    case (Inr p)
    have "km_inv (fst (snd (sbind (on_km (cachePassword H p)) (\<lambda>_. sreturn p) (km, c'))))"
      using keepsD [OF keeps_bind [OF keeps_on_km [OF keeps_cache] keeps_return], where s = "(km, c')"] 2 by simp
    moreover have "km_inv (fst (snd (ask_loop H n ph ask (km, c'))))"
      if "p \<noteq> ''''" "(if ph = UnknownPassword then Inr True else rbind (hashPassword H km p) (\<lambda>h. Inr (h = ph))) = Inr False"
      using "2.IH" [OF a [symmetric] Inr that(1) that(2) refl] "2.prems" by simp
    ultimately show ?thesis using "2.prems" a Inr by (simp split: sum.split bool.split)
  qed (use 2 a in simp)
qed simp

lemma keeps_ask_loop: "keeps (\<lambda>s. km_inv (fst s)) (ask_loop H n ph ask)"
  by (simp add: keeps_def ask_loop_inv)

lemma keeps_getPassword_hash [keeps_intros]: "keeps (\<lambda>s. km_inv (fst s)) (getPassword_hash H ph ask)"
  using keepsD [OF keeps_ask_loop] by (auto simp: keeps_def getPassword_hash_def split: option.split)

lemma keeps_getPassword_uuid [keeps_intros]: "keeps (\<lambda>s. km_inv (fst s)) (getPassword_uuid H u ask)"
  using keepsD [OF keeps_getPassword_hash] by (auto simp: keeps_def getPassword_uuid_def)

lemma keeps_run_unit: "keeps (\<lambda>s. km_inv (fst s)) m \<Longrightarrow> keeps km_inv (run_unit m)"
  by (fastforce simp: keeps_def run_unit_def split: prod.split)

lemma keeps_defaultPassword [keeps_intros]: "keeps km_inv (defaultPassword H)"
proof -
  have "keeps km_inv (run_unit (getPassword_hash H x DontKnowThrow))" for x
    by (intro keeps_run_unit keeps_getPassword_hash)
  then show ?thesis by (auto simp: keeps_def defaultPassword_def)
qed

lemma keeps_write_key [keeps_intros]: "keeps km_inv (write_key H key f)"
proof -
  have "keeps km_inv (\<lambda>km. sbind (slift (keys_stream x)) (\<lambda>out.
     sbind (smodify (put_file H f (encryptSymNoAuth (crypto H) key (hash_empty 16) out))) (\<lambda>_.
     sbind (smodify (\<lambda>km. km\<lparr>m_keysFileKey := key\<rparr>)) (\<lambda>_.
     sbind (defaultPassword H) (cachePassword H)))) km)" for x
    by (intro keeps_intros keeps_modify) simp_all
  from keeps_state [OF this] show ?thesis by (simp add: write_key_def [abs_def])
qed

lemma keeps_write [keeps_intros]: "keeps km_inv (km_write H)"
proof -
  have "keeps km_inv (sbind (write_key H (m_keysFileKey x) (m_keysFile x)) (\<lambda>_. sreturn True))" for x
    by (intro keeps_intros)
  then show ?thesis by (auto simp: keeps_def km_write_def)
qed

lemma keeps_master: "keeps km_inv (\<lambda>km. sbind (slift (hashPassword H km pass)) (\<lambda>h. smodify (\<lambda>km. km\<lparr>m_master := h\<rparr>)) km)"
  by (rule keeps_state) (intro keeps_intros keeps_modify, simp)

lemma keeps_write_pass [keeps_intros]: "keeps km_inv (write_pass H salt pass f)"
proof -
  have "write_pass H salt pass f = sbind (smodify (put_file H (appendToFilename H f ''.salt'') salt)) (\<lambda>_.
     sbind (slift (rbind (pbkdf2 (crypto H) pass salt 262144 16) (\<lambda>k. Inr (hash_of_bytes 16 FailIfDifferent k)))) (\<lambda>key.
     sbind (cachePassword H pass) (\<lambda>_.
     sbind (\<lambda>km. sbind (slift (hashPassword H km pass)) (\<lambda>h. smodify (\<lambda>km. km\<lparr>m_master := h\<rparr>)) km) (\<lambda>_.
       write_key H key f))))"
    by (rule ext) (simp add: write_pass_def)
  then show ?thesis by (simp only:) (intro keeps_intros keeps_master keeps_modify km_inv_put_file)
qed

lemma keeps_create [keeps_intros]: "keeps km_inv (create H random salt pass)"
proof -
  have "keeps km_inv (sbind (smodify (\<lambda>km. km\<lparr>m_defaultPasswordDeprecated := asString random\<rparr>))
       (\<lambda>_. write_pass H salt pass (m_keysFile x)))" for x
    by (intro keeps_intros keeps_modify) simp
  from keeps_state [OF this] show ?thesis by (simp add: create_def [abs_def])
qed

lemma keeps_case_prod: "(\<And>a b. keeps P (f a b)) \<Longrightarrow> keeps P (case p of (a, b) \<Rightarrow> f a b)"
  by (cases p) simp

section \<open>Loading\<close>

lemma keeps_it_fold:
  assumes "\<And>i. keeps P (body i)"
  shows "keeps P (it_fold fuel d body it)"
proof (induction fuel arbitrary: it)
  case 0
  then show ?case by (simp add: keeps_def)
next
  case (Suc fuel)
  have "keeps P (sbind (slift (it_deref d it)) (\<lambda>i. sbind (body i) (\<lambda>_. sbind (slift (it_incr d it)) (it_fold fuel d body))))"
    by (intro keeps_intros assms Suc)
  then show ?case by (auto simp: keeps_def)
qed

lemma keeps_for_items: "(\<And>i. keeps P (body i)) \<Longrightarrow> keeps P (for_items d body)"
  unfolding for_items_def by (intro keeps_intros keeps_it_fold)

lemma noteAddress_km_inv:
  "km_inv km \<Longrightarrow> km_inv (km\<lparr>m_store := snd (noteAddress u a (m_store km))\<rparr>)"
  by (rule km_inv_store) (simp_all add: noteAddress_inv noteAddress_dom, simp add: km_inv_def noteAddress_inv)

lemma keeps_load_entry: "keeps (\<lambda>s. km_inv (fst s)) (load_entry i)"
  unfolding keeps_def
proof (intro allI impI)
  fix s :: "key_manager \<times> bool" assume i: "km_inv (fst s)"
  obtain km b where s: "s = (km, b)" by fastforce
  have "km_inv (fst (snd (sbind (slift f) (\<lambda>info. smodify (\<lambda>(km, b). (km\<lparr>m_keyInfo := al_put a info (m_keyInfo km)\<rparr>, b))) s)))" for f a
    using i by (cases f) (simp_all add: s)
  moreover have "km_inv (fst (snd (sbind (smodify (\<lambda>(km, b). (km\<lparr>m_addrLookup := al_put a u (m_addrLookup km)\<rparr>, b))) (\<lambda>_.
                    sbind (smodify (\<lambda>(km, b). (km\<lparr>m_uuidLookup := al_put u a (m_uuidLookup km)\<rparr>, b))) (\<lambda>_.
                    sbind (slift f) (\<lambda>info.
                    sbind (smodify (\<lambda>(km, b). (km\<lparr>m_keyInfo := al_put a info (m_keyInfo km)\<rparr>, b))) (\<lambda>_.
                    smodify (\<lambda>(km, b). case noteAddress u a (m_store km) of (noted, st) \<Rightarrow> (km\<lparr>m_store := st\<rparr>, b \<or> noted)))))) s)))"
    if c: "ss_contains (m_store km) u" for f a u
  proof -
    define k where "k = km\<lparr>m_addrLookup := al_put a u (m_addrLookup km), m_uuidLookup := al_put u a (m_uuidLookup km)\<rparr>"
    have "u \<in> fst ` set (m_keys (m_store km))" using c by (simp add: ss_contains_def map_of_eq_None_iff)
    then have "km_inv k" using i unfolding k_def s by (intro km_inv_relate [where km = "km\<lparr>m_addrLookup := al_put a u (m_addrLookup km)\<rparr>", simplified]) simp_all
    then show ?thesis
      using noteAddress_km_inv [of "k\<lparr>m_keyInfo := al_put a x (m_keyInfo k)\<rparr>" u a for x]
      by (cases f) (auto simp: s k_def [symmetric] split: prod.split)
  qed
  ultimately show "km_inv (fst (snd (load_entry i s)))"
    using i by (auto simp: load_entry_def s split: prod.split sum.split)
qed

lemma keeps_load_hint: "keeps km_inv (load_hint i)"
  by (auto simp: keeps_def load_hint_def split: prod.split sum.split)

lemma km_inv_save: "km_inv km \<Longrightarrow> km_inv (km\<lparr>m_store := save H (m_store km)\<rparr>)"
  by (rule km_inv_store) (simp_all add: km_inv_def)

lemma keeps_load_version1: "keeps km_inv (load_version1 H r)"
  unfolding keeps_def
proof (intro allI impI)
  fix km assume i: "km_inv km"
  have "keeps km_inv (sbind (for_items hints load_hint) (\<lambda>_. sbind (slift f) (\<lambda>p.
                    smodify (\<lambda>km. km\<lparr>m_defaultPasswordDeprecated := p\<rparr>))))" for hints f
    by (intro keeps_bind keeps_lift keeps_for_items keeps_load_hint keeps_modify) simp
  note tail = keepsD [OF this]
  obtain e r1 where r1: "item_bytes 1 r = (e, r1)" by fastforce
  show "km_inv (snd (load_version1 H r km))"
  proof (cases e)
    case (Inr entries)
    obtain v k b where f: "for_items entries load_entry (km, False) = (v, (k, b))" by (metis prod_cases3)
    have "keeps (\<lambda>s. km_inv (fst s)) (for_items entries load_entry)" by (intro keeps_for_items keeps_load_entry)
    from keepsD [OF this, of "(km, False)"] have "km_inv k" using i f by simp
    then have "km_inv (if b then k\<lparr>m_store := save H (m_store k)\<rparr> else k)" by (simp add: km_inv_save)
    then show ?thesis using \<open>km_inv k\<close> tail r1 Inr f
      by (auto simp: load_version1_def Let_def split: prod.split sum.split)
  qed (use r1 i in \<open>simp add: load_version1_def\<close>)
qed

lemma keeps_load_body: "keeps km_inv (load_body H pass salt encKeys)"
proof -
  have c: "keeps km_inv (\<lambda>km. cachePassword H (g km) km)" for g
    by (rule keeps_state) (rule keeps_cache)
  have "load_body H pass salt encKeys =
     sbind (slift (rbind (pbkdf2 (crypto H) pass salt 262144 16) (\<lambda>k. Inr (hash_of_bytes 16 FailIfDifferent k)))) (\<lambda>key.
     sbind (smodify (\<lambda>km. km\<lparr>m_keysFileKey := key\<rparr>)) (\<lambda>_.
     sbind (slift (RLP (decryptSymNoAuth (crypto H) key (hash_empty 16) encKeys) VeryStrict)) (\<lambda>r.
     (case rlp_get (\<lambda>f d. toInt f d :: 32 word result) Strict 0 r of
        (v, r) \<Rightarrow> sbind (slift v) (\<lambda>version.
          sbind (if version = 1 then load_version1 H r else sreturn ()) (\<lambda>_.
          sbind (\<lambda>km. cachePassword H (m_defaultPasswordDeprecated km) km) (\<lambda>_.
          sbind (\<lambda>km. cachePassword H (asString (m_keysFileKey km)) km) (\<lambda>_.
          sbind (\<lambda>km. sbind (slift (hashPassword H km pass)) (\<lambda>h. smodify (\<lambda>km. km\<lparr>m_master := h\<rparr>)) km) (\<lambda>_.
            cachePassword H pass)))))))))"
    by (rule ext) (simp add: load_body_def)
  then show ?thesis
    by (simp only:) (intro keeps_case_prod keeps_bind keeps_lift keeps_modify keeps_if keeps_return keeps_load_version1
      c keeps_master keeps_cache, simp)
qed

lemma km_load_inv: "km_inv km \<Longrightarrow> km_inv (snd (km_load H pass km))"
  using keepsD [OF keeps_load_body, of km H pass "contents (ss_disk (m_store km)) (appendToFilename H (m_keysFile km) ''.salt'')"
      "contents (ss_disk (m_store km)) (m_keysFile km)"]
  by (auto simp: km_load_def Let_def split: prod.split sum.split)

section \<open>Secrets\<close>

text \<open>The callback of the store keeps the manager's invariant and its store.\<close>

definition callback_ok :: "(key_manager \<times> 'c \<Rightarrow> string result \<times> key_manager \<times> 'c) \<Rightarrow> bool" where
  "callback_ok f \<longleftrightarrow> keeps (\<lambda>s. km_inv (fst s)) f \<and> (\<forall>s. m_store (fst (snd (f s))) = m_store (fst s))"

lemma cachePassword_store [simp]: "m_store (snd (cachePassword H p km)) = m_store km"
  by (cases "hashPassword H km p") (simp_all add: cachePassword_def)

lemma ask_loop_store: "m_store (fst (snd (ask_loop H n ph ask s))) = m_store (fst s)"
proof (induction H n ph ask s rule: ask_loop.induct)
  case (2 H n ph ask km c)
  obtain r c' where a: "ask c = (r, c')" by fastforce
  show ?case
  proof (cases r)
    case (Inr p)
    have "m_store (fst (snd (sbind (on_km (cachePassword H p)) (\<lambda>_. sreturn p) (km, c')))) = m_store km"
      using cachePassword_store [of H p km]
      by (cases "cachePassword H p km"; cases "fst (cachePassword H p km)") (auto simp: sbind_def on_km_def)
    moreover have "m_store (fst (snd (ask_loop H n ph ask (km, c')))) = m_store km"
      if "p \<noteq> ''''" "(if ph = UnknownPassword then Inr True else rbind (hashPassword H km p) (\<lambda>h. Inr (h = ph))) = Inr False"
      using "2.IH" [OF a [symmetric] Inr that(1) that(2) refl] by simp
    ultimately show ?thesis using a Inr by (simp split: sum.split bool.split)
  qed (use a in simp)
qed simp

lemma callback_getPassword: "callback_ok (getPassword_uuid H u ask)"
  using keeps_getPassword_uuid [of H u ask]
  by (auto simp: callback_ok_def getPassword_uuid_def getPassword_hash_def ask_loop_store split: option.split)

lemma callback_plain: "callback_ok (\<lambda>(km, c). case ask c of (p, c) \<Rightarrow> (p, (km, c)))"
  by (auto simp: callback_ok_def keeps_def split: prod.split)

lemma secret_uuid_state: "snd (snd (secret_uuid H u ask b st s)) \<in> {s, snd (ask s)}"
  by (auto simp: secret_uuid_def Let_def split: option.split prod.split sum.split)

lemma secret_callback_inv:
  assumes "callback_ok ask" "km_inv (fst s)" "secret_uuid H u ask b (m_store (fst s)) s = (r, st, km, c)"
  shows "km_inv (km\<lparr>m_store := st\<rparr>)"
proof -
  have "(km, c) = s \<or> (km, c) = snd (ask s)" using secret_uuid_state [of H u ask b "m_store (fst s)" s] assms(3) by simp
  then have "km = fst s \<or> km = fst (snd (ask s))" by (metis fst_conv)
  then have k: "km_inv km" "m_store km = m_store (fst s)"
    using assms(1,2) by (cases s; auto simp: callback_ok_def keeps_def)+
  have "ss_inv st" "fst ` set (m_keys st) = fst ` set (m_keys (m_store (fst s)))"
    using secret_uuid_inv [of "m_store (fst s)" H u ask b s] secret_uuid_dom [of H u ask b "m_store (fst s)" s] assms(2,3)
    by (simp_all add: km_inv_def)
  then show ?thesis using k by (intro km_inv_store) simp_all
qed

lemma keeps_km_secret_uuid:
  fixes ask :: "'c \<Rightarrow> string result \<times> 'c"
  shows "keeps (\<lambda>s. km_inv (fst s)) (km_secret_uuid H u ask b)"
  unfolding keeps_def
proof (intro allI impI)
  fix s :: "key_manager \<times> 'c" assume i: "km_inv (fst s)"
  let ?cb = "if b then getPassword_uuid H u ask else (\<lambda>(km, c). case ask c of (p, c) \<Rightarrow> (p, (km, c)))"
  obtain r st km c where q: "secret_uuid H u ?cb b (m_store (fst s)) s = (r, st, km, c)" by (metis prod_cases4)
  have "callback_ok ?cb" by (simp add: callback_getPassword callback_plain)
  from secret_callback_inv [OF this i q] q show "km_inv (fst (snd (km_secret_uuid H u ask b s)))"
    by (simp add: km_secret_uuid_def)
qed

lemma keeps_km_secret_address: "keeps (\<lambda>s. km_inv (fst s)) (km_secret_address H a ask b)"
  using keepsD [OF keeps_km_secret_uuid] by (auto simp: keeps_def km_secret_address_def split: option.split)

lemma keeps_km_recode:
  fixes ask :: "'c \<Rightarrow> string result \<times> 'c"
  shows "keeps (\<lambda>s. km_inv (fst s)) (km_recode H salt iv a newPass hint ask kdf)"
proof -
  have set_hash: "keeps km_inv (\<lambda>km. sbind (slift (hashPassword H km newPass)) (\<lambda>h.
                     smodify (\<lambda>km. km\<lparr>m_keyInfo := al_put a
                       ((case map_of (m_keyInfo km) a of Some i \<Rightarrow> i | None \<Rightarrow> empty_info)\<lparr>passHash := h\<rparr>) (m_keyInfo km)\<rparr>)) km)"
    by (rule keeps_state) (intro keeps_bind keeps_lift keeps_modify km_inv_puts)
  have tail: "keeps (\<lambda>s :: key_manager \<times> 'c. km_inv (fst s)) (sbind (on_km (\<lambda>km. sbind (slift (hashPassword H km newPass)) (\<lambda>h.
                     smodify (\<lambda>km. km\<lparr>m_keyInfo := al_put a
                       ((case map_of (m_keyInfo km) a of Some i \<Rightarrow> i | None \<Rightarrow> empty_info)\<lparr>passHash := h\<rparr>) (m_keyInfo km)\<rparr>)) km))
              (\<lambda>_. sbind (on_km (km_write H)) (\<lambda>_. sreturn True)))"
    by (intro keeps_bind keeps_return keeps_on_km set_hash keeps_write)
  have main: "km_inv (fst (snd (case recode_uuid H salt iv u newPass (getPassword_uuid H u ask) kdf (m_store (fst s)) s of
          (Inl e, st, (km, c)) \<Rightarrow> (Inl e, (km\<lparr>m_store := st\<rparr>, c))
        | (Inr False, st, (km, c)) \<Rightarrow> (Inr False, (km\<lparr>m_store := st\<rparr>, c))
        | (Inr True, st, (km, c)) \<Rightarrow>
            sbind (on_km (\<lambda>km. sbind (slift (hashPassword H km newPass)) (\<lambda>h.
                     smodify (\<lambda>km. km\<lparr>m_keyInfo := al_put a
                       ((case map_of (m_keyInfo km) a of Some i \<Rightarrow> i | None \<Rightarrow> empty_info)\<lparr>passHash := h\<rparr>) (m_keyInfo km)\<rparr>)) km))
              (\<lambda>_. sbind (on_km (km_write H)) (\<lambda>_. sreturn True)) (km\<lparr>m_store := st\<rparr>, c))))"
    if i: "km_inv (fst s)" for s :: "key_manager \<times> 'c" and u
  proof -
    obtain r st km c where q: "recode_uuid H salt iv u newPass (getPassword_uuid H u ask) kdf (m_store (fst s)) s = (r, st, km, c)"
      by (metis prod_cases4)
    obtain r0 st0 km0 c0 where q0: "secret_uuid H u (getPassword_uuid H u ask) True (m_store (fst s)) s = (r0, st0, km0, c0)"
      by (metis prod_cases4)
    have k0: "km_inv (km0\<lparr>m_store := st0\<rparr>)" by (rule secret_callback_inv [OF callback_getPassword i q0])
    have "km = km0" "ss_inv st" "fst ` set (m_keys st) = fst ` set (m_keys (m_store (fst s)))"
      using q q0 recode_uuid_inv [of "m_store (fst s)" H salt iv u newPass "getPassword_uuid H u ask" kdf s]
        recode_uuid_dom [of "m_store (fst s)" H salt iv u newPass "getPassword_uuid H u ask" kdf s] i
      by (auto simp: km_inv_def recode_uuid_def Let_def split: sum.splits if_splits)
    moreover have "fst ` set (m_keys st0) = fst ` set (m_keys (m_store (fst s)))"
      using secret_uuid_dom [of H u "getPassword_uuid H u ask" True "m_store (fst s)" s] q0 by simp
    ultimately have "km_inv (km\<lparr>m_store := st\<rparr>)" using km_inv_store [OF k0, of st] by simp
    with keepsD [OF tail, of "(km\<lparr>m_store := st\<rparr>, c)"] show ?thesis
      by (auto simp: q split: sum.split bool.split)
  qed
  have "keeps (\<lambda>s :: key_manager \<times> 'c. km_inv (fst s)) (on_km (noteHint H newPass hint))"
    by (intro keeps_on_km keeps_hint)
  then show ?thesis
    unfolding km_recode_def by (rule keeps_bind) (simp add: keeps_def Let_def main)
qed

section \<open>Accounts\<close>

lemma importSecret_dom:
  "importSecret H r salt iv sec pass st = (u, st') \<Longrightarrow>
     fst ` set (m_keys st) \<subseteq> fst ` set (m_keys st') \<and> (\<forall>v. u = Inr v \<longrightarrow> v \<in> fst ` set (m_keys st'))"
  using subset_insertI [of "fst ` set (m_keys st)" r] by (force simp: importSecret_def split: sum.splits)

lemma relate_inv: "km_inv km \<Longrightarrow> u \<in> fst ` set (m_keys (m_store km)) \<Longrightarrow> km_inv (relate a u km)"
  unfolding relate_def using km_inv_relate [of "km\<lparr>m_addrLookup := al_put a u (m_addrLookup km)\<rparr>" u a] by simp

lemma km_import_inv: "km_inv km \<Longrightarrow> km_inv (snd (km_import H r salt iv sec name pass hint km))"
proof -
  assume i: "km_inv km"
  define step where "step = (\<lambda>km :: key_manager. case importSecret H r salt iv sec pass (m_store km) of (u, st) \<Rightarrow> (u, km\<lparr>m_store := st\<rparr>))"
  have tail: "km_inv (snd (sbind step (\<lambda>u.
     sbind (smodify (\<lambda>km. km\<lparr>m_keyInfo := al_put a i (m_keyInfo km)\<rparr>)) (\<lambda>_.
     sbind (smodify (relate a u)) (\<lambda>_. sbind (km_write H) (\<lambda>_. sreturn u)))) k))" if k: "km_inv k" for k a i
  proof -
    obtain u st where u: "importSecret H r salt iv sec pass (m_store k) = (u, st)" by fastforce
    note d = importSecret_dom [OF u]
    have "ss_inv st" using importSecret_inv [of "m_store k" H r salt iv sec pass] u k by (simp add: km_inv_def)
    then have k': "km_inv (k\<lparr>m_store := st\<rparr>)" using d k by (intro km_inv_store) simp_all
    show ?thesis
    proof (cases u)
      case (Inr v)
      have "km_inv (relate a v (k\<lparr>m_store := st, m_keyInfo := al_put a i (m_keyInfo k)\<rparr>))"
        using km_inv_puts(3) [OF k'] d Inr by (intro relate_inv) simp_all
      from keepsD [OF keeps_bind [OF keeps_write keeps_return] this]
      show ?thesis using u Inr by (simp add: step_def sbind_def)
    qed (use u k' in \<open>simp add: step_def sbind_def\<close>)
  qed
  have head: "keeps km_inv (sbind (cachePassword H pass) (\<lambda>_. smodify (\<lambda>km. km\<lparr>m_passwordHint := al_put h hint (m_passwordHint km)\<rparr>)))" for h
    by (intro keeps_bind keeps_cache keeps_modify km_inv_puts)
  have assoc: "sbind (cachePassword H pass) (\<lambda>_. sbind (smodify g) (\<lambda>_. f)) k
    = sbind (sbind (cachePassword H pass) (\<lambda>_. smodify g)) (\<lambda>_. f) k" for g f and k :: key_manager
    by (auto simp: sbind_def split: prod.split sum.split)
  show ?thesis
  proof (cases "KeyPair_of (crypto H) sec")
    case (Inr kp)
    show ?thesis
    proof (cases "hashPassword H km pass")
      case h: (Inr h)
      obtain v k where vk: "sbind (cachePassword H pass) (\<lambda>_. smodify (\<lambda>km. km\<lparr>m_passwordHint := al_put h hint (m_passwordHint km)\<rparr>)) km = (v, k)"
        by fastforce
      from keepsD [OF head i, of h] vk have "km_inv k" by simp
      from tail [OF this] this show ?thesis
        unfolding km_import_def Inr h step_def [symmetric] sbind_lift_Inr assoc
        by (cases v) (simp_all add: sbind_def [of "sbind (cachePassword H pass) f" for f] vk)
    qed (use i Inr in \<open>simp add: km_import_def\<close>)
  qed (use i in \<open>simp add: km_import_def\<close>)
qed

lemma keeps_importExisting_info: 
  "keeps (\<lambda>km. km_inv km \<and> u \<in> fst ` set (m_keys (m_store km))) (smodify (\<lambda>km. km\<lparr>m_uuidLookup := al_put u a (m_uuidLookup km)\<rparr>))"
  by (intro keeps_modify) (simp add: km_inv_relate)

lemma importExisting_info_inv:
  assumes "km_inv km" "u \<in> fst ` set (m_keys (m_store km))"
  shows "km_inv (snd (importExisting_info H u name a h hint km))"
proof -
  let ?P = "\<lambda>km. km_inv km \<and> u \<in> fst ` set (m_keys (m_store km))"
  have p: "keeps ?P (sbind (smodify (\<lambda>km. if map_of (m_passwordHint km) h = None
              then km\<lparr>m_passwordHint := al_put h hint (m_passwordHint km)\<rparr> else km)) (\<lambda>_.
     sbind (smodify (\<lambda>km. km\<lparr>m_uuidLookup := al_put u a (m_uuidLookup km)\<rparr>)) (\<lambda>_.
     sbind (smodify (\<lambda>km. km\<lparr>m_addrLookup := al_put a u (m_addrLookup km)\<rparr>)) (\<lambda>_.
     smodify (\<lambda>km. km\<lparr>m_keyInfo := al_put a
              ((case map_of (m_keyInfo km) a of Some i \<Rightarrow> i | None \<Rightarrow> empty_info)\<lparr>passHash := h, accountName := name\<rparr>)
              (m_keyInfo km)\<rparr>)))))"
    by (intro keeps_bind keeps_importExisting_info keeps_modify) simp_all
  have "km_inv (snd (sbind (km_write H) (\<lambda>_. sreturn ()) k))" if "km_inv k" for k
    by (rule keepsD [OF keeps_bind [OF keeps_write keeps_return] that])
  from this [of "snd (sbind (smodify (\<lambda>km. if map_of (m_passwordHint km) h = None
              then km\<lparr>m_passwordHint := al_put h hint (m_passwordHint km)\<rparr> else km)) (\<lambda>_.
     sbind (smodify (\<lambda>km. km\<lparr>m_uuidLookup := al_put u a (m_uuidLookup km)\<rparr>)) (\<lambda>_.
     sbind (smodify (\<lambda>km. km\<lparr>m_addrLookup := al_put a u (m_addrLookup km)\<rparr>)) (\<lambda>_.
     smodify (\<lambda>km. km\<lparr>m_keyInfo := al_put a
              ((case map_of (m_keyInfo km) a of Some i \<Rightarrow> i | None \<Rightarrow> empty_info)\<lparr>passHash := h, accountName := name\<rparr>)
              (m_keyInfo km)\<rparr>)))) km)"] keepsD [OF p, of km] assms
  show ?thesis unfolding importExisting_info_def by (simp add: split del: if_split)
qed

lemma importExisting_inv: "km_inv km \<Longrightarrow> km_inv (snd (importExisting H u info pass hint km))"
proof -
  assume i: "km_inv km"
  obtain r st where q: "secret_uuid H u (\<lambda>c. (Inr pass, c)) True (m_store km) () = (r, st, ())"
    by (metis prod_cases3 old.unit.exhaust)
  have st: "ss_inv st" "fst ` set (m_keys st) = fst ` set (m_keys (m_store km))"
    using secret_uuid_inv [of "m_store km" H u "\<lambda>c. (Inr pass, c)" True "()"]
      secret_uuid_dom [of H u "\<lambda>c. (Inr pass, c)" True "m_store km" "()"] q i by (simp_all add: km_inv_def)
  then have k: "km_inv (km\<lparr>m_store := st\<rparr>)" using i by (intro km_inv_store) simp_all
  show ?thesis
  proof (cases "\<exists>key. r = Inr key \<and> key \<noteq> []")
    case True
    then obtain key where key: "r = Inr key" "key \<noteq> []" by blast
    have u: "u \<in> fst ` set (m_keys st)"
      using secret_uuid_stored [of "m_store km" H u _ True "()" key] q key i st(2)
      by (auto simp: km_inv_def map_of_eq_None_iff)
    have main: "km_inv (snd (sbind (if b then cachePassword H pass else sreturn ()) (\<lambda>_. importExisting_info H u info a h hint) (km\<lparr>m_store := st\<rparr>)))" for b a h
      using keepsD [OF keeps_cache k, of H pass] cachePassword_store [of H pass "km\<lparr>m_store := st\<rparr>"] u k
        importExisting_info_inv [of _ u H info a h hint]
      by (cases "cachePassword H pass (km\<lparr>m_store := st\<rparr>)"; cases "fst (cachePassword H pass (km\<lparr>m_store := st\<rparr>))")
         (auto simp: sbind_def)
    then show ?thesis
      using q key k
      by (cases "KeyPair_of (crypto H) (hash_of_bytes 32 FailIfDifferent key)"; cases "hashPassword H km pass")
         (simp_all add: importExisting_def)
  qed (use q k in \<open>auto simp: importExisting_def split: sum.split\<close>)
qed

lemma forget_inv: "km_inv km \<Longrightarrow> km_inv (forget a km)"
  by (auto simp: km_inv_def forget_def)

lemma km_kill_inv: "km_inv km \<Longrightarrow> km_inv (snd (km_kill H a km))"
proof -
  assume i: "km_inv km"
  let ?k = "forget a km" and ?u = "km_uuid km a"
  have "ss_inv (kill ?u (m_store km))" using i by (simp add: km_inv_def kill_inv)
  moreover have "fst ` set (m_keys (m_store km)) - {?u} \<subseteq> fst ` set (m_keys (kill ?u (m_store km)))"
    by (auto simp: kill_def Let_def split: option.split)
  moreover have "fst ` set (al_del ?u (m_uuidLookup km)) \<subseteq> fst ` set (m_keys (m_store km)) - {?u}"
    using i unfolding set_keys_al_del km_inv_def by blast
  ultimately have k: "km_inv (?k\<lparr>m_store := kill ?u (m_store km)\<rparr>)"
    using i subset_trans by (simp add: km_inv_def forget_def)
  have "m_store ?k = m_store km" by (simp add: forget_def)
  with keepsD [OF keeps_bind [OF keeps_write keeps_return] k] show ?thesis
    unfolding km_kill_def by simp
qed

lemma km_clear_inv: "km_inv km \<Longrightarrow> km_inv (snd (km_clear H a km))"
proof -
  assume "km_inv km"
  then have "km_inv (forget a km)" by (rule forget_inv)
  then have "km_inv ((forget a km)\<lparr>m_store := clearCache (m_store (forget a km))\<rparr>)"
    by (auto simp: km_inv_def clearCache_def ss_inv_def)
  from keepsD [OF keeps_bind [OF keeps_write keeps_return] this] show ?thesis
    unfolding km_clear_def by simp
qed

lemma keeps_UseEncryptedKey:
  "km_inv km \<Longrightarrow> km_inv (snd (km_encryptUseEncryptedKey H v a km))"
  "km_inv km \<Longrightarrow> km_inv (snd (km_decryptUseEncryptedKey H v a km))"
proof -
  assume i: "km_inv km"
  have "keeps km_inv (sbind (run_unit (getPassword_uuid H u DontKnowThrow)) (\<lambda>pass km. (f pass km, km)))" for u and f :: "string \<Rightarrow> key_manager \<Rightarrow> 'x result"
    by (intro keeps_bind keeps_run_unit keeps_getPassword_uuid) (simp add: keeps_def)
  note k = keepsD [OF this i]
  show "km_inv (snd (km_encryptUseEncryptedKey H v a km))"
    unfolding km_encryptUseEncryptedKey_def by (rule k)
  have "keeps km_inv (sbind (run_unit (getPassword_uuid H u DontKnowThrow)) (\<lambda>pass km. (f pass km, km)))" for u and f :: "string \<Rightarrow> key_manager \<Rightarrow> string result"
    by (intro keeps_bind keeps_run_unit keeps_getPassword_uuid) (simp add: keeps_def)
  note k = keepsD [OF this i]
  show "km_inv (snd (km_decryptUseEncryptedKey H v a km))"
    unfolding km_decryptUseEncryptedKey_def by (rule k)
qed

lemma km_import_default_inv: "km_inv km \<Longrightarrow> km_inv (snd (km_import_default H r salt iv sec name km))"
proof -
  assume i: "km_inv km"
  have "keeps km_inv (km_import_default H r salt iv sec name)"
    unfolding km_import_default_def
    by (rule keeps_bind [OF keeps_defaultPassword]) (simp add: keeps_def km_import_inv)
  with i show ?thesis by (simp add: keeps_def)
qed

section \<open>The state machine\<close>

inductive km_step :: "host \<Rightarrow> key_manager \<Rightarrow> key_manager \<Rightarrow> bool" for H where
  km_step_create: "km_step H km (snd (create H random salt pass km))"
| km_step_load: "km_step H km (snd (km_load H pass km))"
| km_step_save: "km_step H km (snd (km_save H salt pass km))"
| km_step_notePassword: "km_step H km (snd (cachePassword H pass km))"
| km_step_noteHint: "km_step H km (snd (noteHint H pass hint km))"
| km_step_import: "km_step H km (snd (km_import H r salt iv sec name pass hint km))"
| km_step_import_default: "km_step H km (snd (km_import_default H r salt iv sec name km))"
| km_step_importExisting: "km_step H km (snd (importExisting H u info pass hint km))"
| km_step_secret: "km_step H km (fst (snd (km_secret_uuid H u ask b (km, ()))))"
| km_step_secret_address: "km_step H km (fst (snd (km_secret_address H a ask b (km, ()))))"
| km_step_recode: "km_step H km (fst (snd (km_recode H salt iv a newPass hint ask kdf (km, ()))))"
| km_step_kill: "km_step H km (snd (km_kill H a km))"
| km_step_clear: "km_step H km (snd (km_clear H a km))"
| km_step_encrypt: "km_step H km (snd (km_encryptUseEncryptedKey H v a km))"
| km_step_decrypt: "km_step H km (snd (km_decryptUseEncryptedKey H v a km))"

inductive_cases km_stepE: "km_step H km km'"

definition km_init :: "host \<Rightarrow> key_manager \<Rightarrow> bool" where
  "km_init H km \<longleftrightarrow> (\<exists>f st. ss_init H st \<and> km = KeyManager_new f st)"

lemma KeyManager_new_inv: "ss_inv st \<Longrightarrow> km_inv (KeyManager_new f st)"
proof -
  assume i: "ss_inv st"
  define k0 where "k0 = \<lparr>m_uuidLookup = [], m_addrLookup = [], m_keyInfo = [], m_passwordHint = [], m_cachedPasswords = [],
        m_defaultPasswordDeprecated = '''', m_keysFile = f, m_keysFileKey = hash_empty 16,
        m_master = hash_empty 32, m_store = st\<rparr>"
  define g where "g = (\<lambda>(km :: key_manager) u. case ss_address (m_store km) u of
              Inr a \<Rightarrow> km\<lparr>m_addrLookup := al_put a u (m_addrLookup km), m_uuidLookup := al_put u a (m_uuidLookup km)\<rparr>
            | Inl _ \<Rightarrow> km)"
  have "km_inv (g km u) \<and> m_store (g km u) = m_store km" if "km_inv km" for km u
  proof (cases "ss_address (m_store km) u")
    case (Inr a)
    then have "u \<in> fst ` set (m_keys (m_store km))"
      by (auto simp: ss_address_def dest: map_of_Some_key split: option.splits)
    from relate_inv [OF that this, of a] show ?thesis by (simp add: g_def Inr relate_def)
  qed (simp add: g_def that)
  then have "km_inv (foldl g km us)" if "km_inv km" for km us
    using that by (induction us arbitrary: km) auto
  moreover have "km_inv k0" using i by (simp add: km_inv_def k0_def)
  ultimately show ?thesis by (simp add: KeyManager_new_def g_def [symmetric] k0_def [symmetric])
qed

lemma km_init_inv: "km_init H km \<Longrightarrow> km_inv km"
  by (auto simp: km_init_def intro: KeyManager_new_inv ss_init_inv)

lemma km_step_inv: "km_inv km \<Longrightarrow> km_step H km km' \<Longrightarrow> km_inv km'"
  by (erule km_stepE)
     (simp_all add: keepsD [OF keeps_create] km_load_inv km_save_def keepsD [OF keeps_write_pass] keepsD [OF keeps_cache]
       keepsD [OF keeps_hint] km_import_inv km_import_default_inv importExisting_inv keepsD [OF keeps_km_secret_uuid]
       keepsD [OF keeps_km_secret_address] keepsD [OF keeps_km_recode] km_kill_inv km_clear_inv keeps_UseEncryptedKey)

interpretation km: state_machine "km_init H" "km_step H" km_inv for H
  by unfold_locales (fact km_init_inv km_step_inv)+

lemma toy_init: "km_init toy_host (KeyManager_new ''k'' (ss_empty Map.empty))"
  unfolding km_init_def ss_init_def by blast



section \<open>Passwords\<close>

text \<open>
  \<open>cache_sound\<close>: every cached password is filed under its hash with the current salt.
\<close>

definition cache_sound :: "host \<Rightarrow> key_manager \<Rightarrow> bool" where
  "cache_sound H km \<longleftrightarrow> (\<forall>h p. map_of (m_cachedPasswords km) h = Some p \<longrightarrow> hashPassword H km p = Inr h)"

lemma cachePassword_sound:
  assumes "cache_sound H km"
  shows "cache_sound H (snd (cachePassword H p km))
    \<and> m_defaultPasswordDeprecated (snd (cachePassword H p km)) = m_defaultPasswordDeprecated km"
proof (cases "hashPassword H km p")
  case (Inr h)
  then show ?thesis using assms by (auto simp: cachePassword_total [OF Inr] cache_sound_def hashPassword_def)
qed (use assms in \<open>simp add: cachePassword_def\<close>)

lemma ask_loop_sound:
  assumes "cache_sound H (fst s)" "ask_loop H n ph ask s = (r, s')"
  shows "cache_sound H (fst s') \<and> (\<forall>p. r = Inr p \<and> p \<noteq> '''' \<longrightarrow> ph = UnknownPassword \<or> hashPassword H (fst s) p = Inr ph)"
  using assms
proof (induction H n ph ask s arbitrary: r s' rule: ask_loop.induct)
  case (2 H n ph ask km c)
  obtain q c' where a: "ask c = (q, c')" by fastforce
  show ?case
  proof (cases "\<exists>p. q = Inr p \<and> p \<noteq> ''''")
    case True
    then obtain p where p: "q = Inr p" "p \<noteq> ''''" by blast
    define v where "v = (if ph = UnknownPassword then Inr True else rbind (hashPassword H km p) (\<lambda>h. Inr (h = ph)))"
    consider (err) e where "v = Inl e" | (yes) "v = Inr True" | (no) "v = Inr False"
      by (cases v) (blast, metis (full_types))
    then show ?thesis
    proof cases
      case err
      then show ?thesis using "2.prems" a p by (auto simp: v_def [symmetric])
    next
      case yes
      then have ok: "ph = UnknownPassword \<or> hashPassword H km p = Inr ph"
        by (auto simp: v_def rbind_eq_Inr split: if_splits)
      have s': "ask_loop H (Suc n) ph ask (km, c) = sbind (on_km (cachePassword H p)) (\<lambda>_. sreturn p) (km, c')"
        using a p yes by (simp add: v_def [symmetric])
      have "fst s' = snd (cachePassword H p km)" "r = Inr p \<or> (\<exists>e. r = Inl e)"
        using "2.prems"(2) unfolding s'
        by (cases "cachePassword H p km"; cases "fst (cachePassword H p km)"; auto simp: sbind_def on_km_def)+
      then show ?thesis using ok cachePassword_sound [of H km p] "2.prems"(1) by auto
    next
      case no
      then have "ask_loop H n ph ask (km, c') = (r, s')" using "2.prems" a p by (simp add: v_def [symmetric])
      then show ?thesis using "2.IH" [OF a [symmetric] p(1) p(2) no [unfolded v_def] refl] "2.prems"(1) by simp
    qed
  qed (use "2.prems" a in \<open>auto split: sum.splits if_splits\<close>)
qed auto



section \<open>Importing and forgetting an account\<close>

lemma defaultPassword_same: "\<exists>r. defaultPassword H k = (r, k)"
  by (auto simp: defaultPassword_def run_unit_def getPassword_hash_def DontKnowThrow_def eval_nat_numeral split: option.split)

lemma cache_default: "\<exists>c. snd (sbind (defaultPassword H) (cachePassword H) k) = k\<lparr>m_cachedPasswords := c\<rparr>"
proof -
  obtain r where r: "defaultPassword H k = (r, k)" using defaultPassword_same by blast
  have p: "\<exists>c. snd (cachePassword H p k) = k\<lparr>m_cachedPasswords := c\<rparr>" for p
  proof (cases "hashPassword H k p")
    case (Inl e)
    then show ?thesis by (intro exI [of _ "m_cachedPasswords k"]) (simp add: cachePassword_def)
  qed (auto simp: cachePassword_def)
  show ?thesis
  proof (cases r)
    case (Inl e)
    then show ?thesis by (intro exI [of _ "m_cachedPasswords k"]) (simp add: sbind_def r)
  qed (use p r in \<open>simp add: sbind_def\<close>)
qed

lemma write_key_keeps_fields:
  "m_keyInfo (snd (write_key H key f km)) = m_keyInfo km \<and> m_addrLookup (snd (write_key H key f km)) = m_addrLookup km
   \<and> m_uuidLookup (snd (write_key H key f km)) = m_uuidLookup km
   \<and> m_cached (m_store (snd (write_key H key f km))) = m_cached (m_store km)
   \<and> m_keys (m_store (snd (write_key H key f km))) = m_keys (m_store km)
   \<and> m_defaultPasswordDeprecated (snd (write_key H key f km)) = m_defaultPasswordDeprecated km"
proof (cases "keys_stream km")
  case (Inr out)
  obtain c where "snd (sbind (defaultPassword H) (cachePassword H)
       ((put_file H f (encryptSymNoAuth (crypto H) key (hash_empty 16) out) km)\<lparr>m_keysFileKey := key\<rparr>))
      = (put_file H f (encryptSymNoAuth (crypto H) key (hash_empty 16) out) km)\<lparr>m_keysFileKey := key, m_cachedPasswords := c\<rparr>"
    using cache_default by blast
  then show ?thesis by (simp add: write_key_def Inr put_file_def)
qed (simp add: write_key_def)

lemma km_write_fields:
  "m_keyInfo (snd (km_write H km)) = m_keyInfo km" "m_addrLookup (snd (km_write H km)) = m_addrLookup km"
  "m_uuidLookup (snd (km_write H km)) = m_uuidLookup km" "m_cached (m_store (snd (km_write H km))) = m_cached (m_store km)"
  "m_keys (m_store (snd (km_write H km))) = m_keys (m_store km)"
  using write_key_keeps_fields [of H "m_keysFileKey km" "m_keysFile km" km]
  by (auto simp: km_write_def sbind_def split: prod.split sum.split)

lemma cachePassword_fields':
  "m_store (snd (cachePassword H p km)) = m_store km" "m_keyInfo (snd (cachePassword H p km)) = m_keyInfo km"
  by (cases "hashPassword H km p"; simp add: cachePassword_def)+

lemma import_unlocks':
  assumes "km_import H r salt iv sec name pass hint km = (Inr u, km')" "KeyPair_of (crypto H) sec = Inr kp" "length sec = 32"
  shows "u = r \<and> map_of (m_addrLookup km') (m_address kp) = Some u \<and> map_of (m_uuidLookup km') u = Some (m_address kp)
    \<and> km_accountName km' (m_address kp) = name \<and> (hash_bool (m_address kp) \<longrightarrow> hasAccount km' (m_address kp))
    \<and> fst (km_secret_address H (m_address kp) ask True (km', c)) = Inr sec
    \<and> map_of (m_cached (m_store km')) u = Some sec"
proof -
  obtain h where h: "hashPassword H km pass = Inr h"
    using assms(1,2) by (cases "hashPassword H km pass") (simp_all add: km_import_def)
  define k1 where "k1 = km\<lparr>m_cachedPasswords := al_put h pass (m_cachedPasswords km),
     m_passwordHint := al_put h hint (m_passwordHint km)\<rparr>"
  obtain i st where i: "importSecret H r salt iv sec pass (m_store km) = (i, st)" by fastforce
  have ok: "i = Inr u" and km': "km' = snd (km_write H (relate (m_address kp) u (k1\<lparr>m_store := st,
        m_keyInfo := al_put (m_address kp) \<lparr>passHash = h, accountName = name, passwordHint = ''''\<rparr> (m_keyInfo km)\<rparr>)))"
    using assms(1,2) h i
    by (auto simp: km_import_def sbind_def cachePassword_total [OF h] k1_def split: prod.splits sum.splits)
  have u: "u = r" "map_of (m_cached st) u = Some sec"
    using i ok by (auto simp: importSecret_def save_def save_to_simps split: sum.splits)
  have a: "map_of (m_addrLookup km') (m_address kp) = Some u" "map_of (m_uuidLookup km') u = Some (m_address kp)"
    "map_of (m_keyInfo km') (m_address kp) = Some \<lparr>passHash = h, accountName = name, passwordHint = ''''\<rparr>"
    "map_of (m_cached (m_store km')) u = Some sec"
    using u by (simp_all add: km' km_write_fields relate_def)
  then have "fst (km_secret_address H (m_address kp) ask True (km', c)) = Inr sec"
    using assms(3) by (simp add: km_secret_address_def km_secret_uuid_def secret_uuid_def hash_of_bytes_def)
  with a u show ?thesis by (simp add: km_accountName_def hasAccount_def)
qed

text \<open>An imported account can be used: if the import succeeds, the address of the secret is related
  to the new id, has the given name and, in the same session, yields the secret without a question.\<close>

theorem import_unlocks:
  assumes "km_import H r salt iv sec name pass hint km = (Inr u, km')" "KeyPair_of (crypto H) sec = Inr kp" "length sec = 32"
  shows "u = r \<and> map_of (m_addrLookup km') (m_address kp) = Some u \<and> map_of (m_uuidLookup km') u = Some (m_address kp)
    \<and> km_accountName km' (m_address kp) = name \<and> (hash_bool (m_address kp) \<longrightarrow> hasAccount km' (m_address kp))
    \<and> fst (km_secret_address H (m_address kp) ask True (km', c)) = Inr sec"
  using import_unlocks' [OF assms, where ask = ask and c = c] by blast

lemma toy_keypair:
  "KeyPair_of (crypto toy_host) (replicate 32 7)
     = Inr \<lparr>m_secret = replicate 32 7, m_public = replicate 64 7, m_address = toAddress_public (replicate 64 7)\<rparr>"
  by (simp add: KeyPair_of_def toPublic_def toy_host_def toy_lib_def public_of_serialized_def hash_bool_def
        list_ex_iff replicate_add [symmetric])

lemma toy_km_import:
  "\<exists>km'. km_import toy_host (replicate 16 5) [1] (replicate 16 2) (replicate 32 7) ''Me'' ''pw'' ''''
     (KeyManager_new ''k'' (ss_empty Map.empty)) = (Inr (replicate 16 5), km')"
proof -
  let ?km = "KeyManager_new ''k'' (ss_empty Map.empty)"
  obtain h where h: "hashPassword toy_host ?km ''pw'' = Inr h" using hashPassword_total [OF toy_pbkdf2_total] by blast
  obtain st where "importSecret toy_host (replicate 16 5) [1] (replicate 16 2) (replicate 32 7) ''pw'' (ss_empty Map.empty) = (Inr (replicate 16 5), st)"
    using toy_import by blast
  moreover have "m_keysFileKey ?km = hash_empty 16" by (simp add: KeyManager_new_def ss_keys_def ss_empty_def)
  ultimately show ?thesis
    by (auto simp: km_import_def toy_keypair h sbind_def cachePassword_total [OF h] KeyManager_new_fields km_write_def
        relate_def hash_bool_def hash_empty_def list_ex_iff)
qed

theorem import_unlocks_witness:
  "\<exists>km'. km_import toy_host (replicate 16 5) [1] (replicate 16 2) (replicate 32 7) ''Me'' ''pw'' ''''
     (KeyManager_new ''k'' (ss_empty Map.empty)) = (Inr (replicate 16 5), km')
    \<and> km_accountName km' (toAddress_public (replicate 64 7)) = ''Me''"
proof -
  obtain km' where i: "km_import toy_host (replicate 16 5) [1] (replicate 16 2) (replicate 32 7) ''Me'' ''pw'' ''''
     (KeyManager_new ''k'' (ss_empty Map.empty)) = (Inr (replicate 16 5), km')" using toy_km_import by blast
  from import_unlocks [OF i toy_keypair, where ask = "\<lambda>c. (Inr [], c)" and c = "()"] i show ?thesis by simp
qed

text \<open>Forgetting an account: \<open>clear\<close>, which logging out calls, erases the name, the password hash
  and the lookups of the account from memory and hence from the keys file it rewrites, but keeps its
  key; \<open>kill\<close> also removes the key. After either the secret of the address cannot be asked for.\<close>

theorem clear_and_kill:
  "km_accountName (snd (km_clear H a km)) a = '''' \<and> map_of (m_addrLookup (snd (km_clear H a km))) a = None
    \<and> m_keys (m_store (snd (km_clear H a km))) = m_keys (m_store km)
    \<and> fst (km_secret_address H a ask b (snd (km_clear H a km), c)) = Inl OutOfRange
    \<and> km_accountName (snd (km_kill H a km)) a = '''' \<and> \<not> ss_contains (m_store (snd (km_kill H a km))) (km_uuid km a)
    \<and> fst (km_secret_address H a ask b (snd (km_kill H a km), c)) = Inl OutOfRange"
proof -
  let ?c = "snd (km_clear H a km)" and ?k = "snd (km_kill H a km)"
  have c: "?c = snd (km_write H ((forget a km)\<lparr>m_store := clearCache (m_store (forget a km))\<rparr>))"
    by (auto simp: km_clear_def sbind_def split: prod.split sum.split)
  have k: "?k = snd (km_write H ((forget a km)\<lparr>m_store := kill (km_uuid km a) (m_store (forget a km))\<rparr>))"
    by (auto simp: km_kill_def sbind_def split: prod.split sum.split)
  have "map_of (m_keys (kill u s)) u = None" for u s
    by (auto simp: kill_def Let_def split: option.split)
  then show ?thesis
    by (simp add: c k km_write_fields forget_def km_accountName_def km_secret_address_def clearCache_def ss_contains_def)
qed

lemma write_pass_keeps:
  fixes km :: key_manager
  shows "m_keyInfo (snd (write_pass H salt pass f km)) = m_keyInfo km
    \<and> m_defaultPasswordDeprecated (snd (write_pass H salt pass f km)) = m_defaultPasswordDeprecated km
    \<and> m_addrLookup (snd (write_pass H salt pass f km)) = m_addrLookup km
    \<and> m_uuidLookup (snd (write_pass H salt pass f km)) = m_uuidLookup km
    \<and> m_cached (m_store (snd (write_pass H salt pass f km))) = m_cached (m_store km)
    \<and> m_keys (m_store (snd (write_pass H salt pass f km))) = m_keys (m_store km)"
proof -
  let ?P = "\<lambda>k :: key_manager. m_keyInfo k = m_keyInfo km \<and> m_defaultPasswordDeprecated k = m_defaultPasswordDeprecated km
    \<and> m_addrLookup k = m_addrLookup km \<and> m_uuidLookup k = m_uuidLookup km
    \<and> m_cached (m_store k) = m_cached (m_store km) \<and> m_keys (m_store k) = m_keys (m_store km)"
  have c: "keeps ?P (cachePassword H pass)"
    unfolding keeps_def
  proof (intro allI impI)
    fix k :: key_manager assume "?P k"
    then show "?P (snd (cachePassword H pass k))" by (cases "hashPassword H k pass") (simp_all add: cachePassword_def)
  qed
  have m: "keeps ?P (\<lambda>km. sbind (slift (hashPassword H km pass)) (\<lambda>h. smodify (\<lambda>km. km\<lparr>m_master := h\<rparr>)) km)"
    by (rule keeps_state) (intro keeps_bind keeps_lift keeps_modify, simp)
  have w: "keeps ?P (write_key H key f)" for key
    using write_key_keeps_fields by (simp add: keeps_def)
  have "keeps ?P (sbind (smodify (put_file H (appendToFilename H f ''.salt'') salt)) (\<lambda>_.
     sbind (slift (rbind (pbkdf2 (crypto H) pass salt 262144 16) (\<lambda>k. Inr (hash_of_bytes 16 FailIfDifferent k)))) (\<lambda>key.
     sbind (cachePassword H pass) (\<lambda>_.
     sbind (\<lambda>km. sbind (slift (hashPassword H km pass)) (\<lambda>h. smodify (\<lambda>km. km\<lparr>m_master := h\<rparr>)) km) (\<lambda>_.
       write_key H key f)))))"
    by (intro keeps_bind keeps_lift keeps_modify c m w) (simp add: put_file_def)
  from keepsD [OF this, of km] show ?thesis by (simp add: write_pass_def)
qed

text \<open>\<open>create\<close> replaces the salt of the password hashes but not the hashes: the account imported
  before the first keys file was created keeps its hash under the old salt (the empty one), whatever
  the new salt.\<close>

theorem create_keeps_old_hashes:
  assumes "map_of (m_keyInfo km) a = Some i" "length random = 32"
  shows "map_of (m_keyInfo (snd (create H random salt pass km))) a = Some i
    \<and> hashPassword H (snd (create H random salt pass km)) p
      = rbind (pbkdf2 (crypto H) p random 262144 32) (\<lambda>k. Inr (hash_of_bytes 32 FailIfDifferent k))"
  using write_pass_keeps [of H salt pass "m_keysFile km" "km\<lparr>m_defaultPasswordDeprecated := asString random\<rparr>"] assms
  by (simp add: create_def hashPassword_def)

theorem create_keeps_old_hashes_witness:
  "map_of (m_keyInfo (snd (create toy_host (replicate 32 5) (replicate 32 6) ''pw'' toy_km))) (replicate 20 9)
     = Some \<lparr>passHash = replicate 32 1, accountName = ''Me'', passwordHint = []\<rparr>"
  by (rule create_keeps_old_hashes [THEN conjunct1]) (simp_all add: toy_km_fields)

end
