(* ===== verification/Base_Value.thy ===== *)
theory Base_Value
  imports Wallet_Prelude "HOL-Library.List_Lexorder" "HOL-Library.Sublist" "HOL-Library.Countable"
begin

text \<open>
  base/values.cc: the JSON-like values in which the wallet writes its transactions, votes and cold
  addresses and reads its configuration. A dictionary is a \<open>std::map\<close>, an association list in the
  order of its keys. Functions that change a dictionary through a pointer to one of its children
  return the whole dictionary with the child replaced. An output parameter with a Boolean is an
  option. The constructor of a double replaces a value that is not finite by zero, so the doubles
  are rational numbers.
\<close>

section \<open>Ordered maps\<close>

fun map_put :: "string \<Rightarrow> 'v \<Rightarrow> (string \<times> 'v) list \<Rightarrow> (string \<times> 'v) list" where
  "map_put k v [] = [(k, v)]"
| "map_put k v ((k', v') # m) =
     (if k < k' then (k, v) # (k', v') # m else if k = k' then (k, v) # m else (k', v') # map_put k v m)"

definition map_erase :: "string \<Rightarrow> (string \<times> 'v) list \<Rightarrow> (string \<times> 'v) list" where
  "map_erase k m = filter (\<lambda>e. fst e \<noteq> k) m"

definition ordered_keys :: "(string \<times> 'v) list \<Rightarrow> bool" where
  "ordered_keys m \<longleftrightarrow> sorted_wrt (<) (map fst m)"

lemma map_of_map_put [simp]: "map_of (map_put k v m) = (map_of m)(k \<mapsto> v)"
  by (induction m) auto

lemma fst_map_put [simp]: "fst ` set (map_put k v m) = insert k (fst ` set m)"
  by (induction k v m rule: map_put.induct) (simp_all add: insert_commute)

lemma map_of_map_erase [simp]: "map_of (map_erase k m) = (map_of m)(k := None)"
  by (induction m) (auto simp: map_erase_def)

lemma map_put_ordered: "ordered_keys m \<Longrightarrow> ordered_keys (map_put k v m)"
proof (induction m)
  case (Cons e m)
  obtain k' v' where e: "e = (k', v')" by fastforce
  show ?case
  proof (cases "k' < k")
    case True
    from Cons.prems e have "\<forall>x \<in> fst ` set m. k' < x" by (auto simp: ordered_keys_def)
    then have "\<forall>x \<in> fst ` set (map_put k v m). k' < x" using True by simp
    with True Cons e show ?thesis by (auto simp: ordered_keys_def)
  next
    case False
    with Cons.prems e show ?thesis by (auto simp: ordered_keys_def)
  qed
qed (simp add: ordered_keys_def)

lemma ordered_keys_Nil [simp]: "ordered_keys []"
  by (simp add: ordered_keys_def)

lemma ordered_keys_distinct: "ordered_keys m \<Longrightarrow> distinct (map fst m)"
  unfolding ordered_keys_def by (induction m) auto

lemma map_put_at_end: "\<forall>x \<in> fst ` set m. x < k \<Longrightarrow> map_put k v m = m @ [(k, v)]"
proof (induction m)
  case (Cons e m)
  then have "fst e < k" "\<not> k < fst e" "k \<noteq> fst e" by auto
  with Cons show ?case by (cases e) auto
qed simp

section \<open>Values\<close>

datatype base_value =
  BNull
| BBool bool
| BInt "32 word"
| BDouble rat
| BString string
| BBinary bytes
| BDict "(string \<times> base_value) list"
| BList "base_value list"

type_synonym dict = "(string \<times> base_value) list"

instance base_value :: countable
  by countable_datatype

definition GetAsString :: "base_value \<Rightarrow> string option" where
  "GetAsString v = (case v of BString s \<Rightarrow> Some s | _ \<Rightarrow> None)"

definition GetAsBoolean :: "base_value \<Rightarrow> bool option" where
  "GetAsBoolean v = (case v of BBool b \<Rightarrow> Some b | _ \<Rightarrow> None)"

definition GetAsInteger :: "base_value \<Rightarrow> 32 word option" where
  "GetAsInteger v = (case v of BInt i \<Rightarrow> Some i | _ \<Rightarrow> None)"

definition GetAsDouble :: "base_value \<Rightarrow> rat option" where
  "GetAsDouble v = (case v of BDouble d \<Rightarrow> Some d | BInt i \<Rightarrow> Some (of_int (sint i)) | _ \<Rightarrow> None)"

definition GetAsDictionary :: "base_value \<Rightarrow> dict option" where
  "GetAsDictionary v = (case v of BDict d \<Rightarrow> Some d | _ \<Rightarrow> None)"

definition GetAsList :: "base_value \<Rightarrow> base_value list option" where
  "GetAsList v = (case v of BList l \<Rightarrow> Some l | _ \<Rightarrow> None)"

text \<open>\<open>Value::Equals\<close> and its overrides: the iterators of two dictionaries advance together.\<close>

fun Value_Equals :: "base_value \<Rightarrow> base_value \<Rightarrow> bool"
  and Dict_Equals :: "dict \<Rightarrow> dict \<Rightarrow> bool"
  and List_Equals :: "base_value list \<Rightarrow> base_value list \<Rightarrow> bool"
where
  "Value_Equals BNull w \<longleftrightarrow> (case w of BNull \<Rightarrow> True | _ \<Rightarrow> False)"
| "Value_Equals (BBool b) w \<longleftrightarrow> (case w of BBool c \<Rightarrow> b = c | _ \<Rightarrow> False)"
| "Value_Equals (BInt i) w \<longleftrightarrow> (case w of BInt j \<Rightarrow> i = j | _ \<Rightarrow> False)"
| "Value_Equals (BDouble x) w \<longleftrightarrow> (case w of BDouble y \<Rightarrow> x = y | _ \<Rightarrow> False)"
| "Value_Equals (BString s) w \<longleftrightarrow> (case w of BString t \<Rightarrow> s = t | _ \<Rightarrow> False)"
| "Value_Equals (BBinary s) w \<longleftrightarrow> (case w of BBinary t \<Rightarrow> s = t | _ \<Rightarrow> False)"
| "Value_Equals (BDict d) w \<longleftrightarrow> (case w of BDict e \<Rightarrow> Dict_Equals d e | _ \<Rightarrow> False)"
| "Value_Equals (BList l) w \<longleftrightarrow> (case w of BList r \<Rightarrow> List_Equals l r | _ \<Rightarrow> False)"
| "Dict_Equals [] e \<longleftrightarrow> e = []"
| "Dict_Equals ((k, v) # d) e \<longleftrightarrow>
     (case e of [] \<Rightarrow> False
      | (k', v') # e \<Rightarrow> if k \<noteq> k' \<or> \<not> Value_Equals v v' then False else Dict_Equals d e)"
| "List_Equals [] r \<longleftrightarrow> r = []"
| "List_Equals (v # l) r \<longleftrightarrow>
     (case r of [] \<Rightarrow> False | v' # r \<Rightarrow> if \<not> Value_Equals v v' then False else List_Equals l r)"

section \<open>Dictionaries\<close>

text \<open>A path is cut at its first dot.\<close>

definition cut_path :: "string \<Rightarrow> (string \<times> string) option" where
  "cut_path p = (case dropWhile (\<lambda>c. c \<noteq> CHR ''.'') p of [] \<Rightarrow> None
     | _ # rest \<Rightarrow> Some (takeWhile (\<lambda>c. c \<noteq> CHR ''.'') p, rest))"

lemma cut_path_shorter: "cut_path p = Some (k, rest) \<Longrightarrow> length rest < length p"
proof -
  assume "cut_path p = Some (k, rest)"
  then obtain c where "dropWhile (\<lambda>c. c \<noteq> CHR ''.'') p = c # rest"
    by (auto simp: cut_path_def split: list.splits)
  then have "length (c # rest) \<le> length p" by (metis length_dropWhile_le)
  then show ?thesis by simp
qed

definition GetDictionaryWithoutPathExpansion :: "dict \<Rightarrow> string \<Rightarrow> dict option" where
  "GetDictionaryWithoutPathExpansion d k = (case map_of d k of None \<Rightarrow> None | Some v \<Rightarrow> GetAsDictionary v)"

function Dict_Get :: "dict \<Rightarrow> string \<Rightarrow> base_value option" where
  "Dict_Get d p =
     (case cut_path p of
        None \<Rightarrow> map_of d p
      | Some (key, rest) \<Rightarrow>
          (case GetDictionaryWithoutPathExpansion d key of
             None \<Rightarrow> None
           | Some child \<Rightarrow> Dict_Get child rest))"
  by pat_completeness auto
termination by (relation "measure (\<lambda>(d, p). length p)") (auto intro: cut_path_shorter)

declare Dict_Get.simps [simp del]

definition Dict_GetString :: "dict \<Rightarrow> string \<Rightarrow> string option" where
  "Dict_GetString d p = (case Dict_Get d p of None \<Rightarrow> None | Some v \<Rightarrow> GetAsString v)"

definition Dict_GetBoolean :: "dict \<Rightarrow> string \<Rightarrow> bool option" where
  "Dict_GetBoolean d p = (case Dict_Get d p of None \<Rightarrow> None | Some v \<Rightarrow> GetAsBoolean v)"

definition Dict_GetInteger :: "dict \<Rightarrow> string \<Rightarrow> 32 word option" where
  "Dict_GetInteger d p = (case Dict_Get d p of None \<Rightarrow> None | Some v \<Rightarrow> GetAsInteger v)"

definition Dict_GetDouble :: "dict \<Rightarrow> string \<Rightarrow> rat option" where
  "Dict_GetDouble d p = (case Dict_Get d p of None \<Rightarrow> None | Some v \<Rightarrow> GetAsDouble v)"

definition Dict_GetDictionary :: "dict \<Rightarrow> string \<Rightarrow> dict option" where
  "Dict_GetDictionary d p = (case Dict_Get d p of None \<Rightarrow> None | Some v \<Rightarrow> GetAsDictionary v)"

definition Dict_GetList :: "dict \<Rightarrow> string \<Rightarrow> base_value list option" where
  "Dict_GetList d p = (case Dict_Get d p of None \<Rightarrow> None | Some v \<Rightarrow> GetAsList v)"

function Dict_Set :: "dict \<Rightarrow> string \<Rightarrow> base_value \<Rightarrow> dict" where
  "Dict_Set d p v =
     (case cut_path p of
        None \<Rightarrow> map_put p v d
      | Some (key, rest) \<Rightarrow>
          (let child = (case Dict_GetDictionary d key of None \<Rightarrow> [] | Some child \<Rightarrow> child)
           in map_put key (BDict (Dict_Set child rest v)) d))"
  by pat_completeness auto
termination by (relation "measure (\<lambda>(d, p, v). length p)") (auto intro: cut_path_shorter)

declare Dict_Set.simps [simp del]

definition Dict_SetString :: "dict \<Rightarrow> string \<Rightarrow> string \<Rightarrow> dict" where
  "Dict_SetString d p s = Dict_Set d p (BString s)"

text \<open>Removal returns the removed value with the dictionary; \<open>RemovePath\<close> also removes the
  dictionaries on the path that become empty.\<close>

definition RemoveWithoutPathExpansion :: "dict \<Rightarrow> string \<Rightarrow> base_value option \<times> dict" where
  "RemoveWithoutPathExpansion d k =
     (case map_of d k of None \<Rightarrow> (None, d) | Some v \<Rightarrow> (Some v, map_erase k d))"

function Dict_RemovePath :: "dict \<Rightarrow> string \<Rightarrow> base_value option \<times> dict" where
  "Dict_RemovePath d p =
     (case cut_path p of
        None \<Rightarrow> RemoveWithoutPathExpansion d p
      | Some (key, rest) \<Rightarrow>
          (case Dict_GetDictionary d key of
             None \<Rightarrow> (None, d)
           | Some child \<Rightarrow>
               (case Dict_RemovePath child rest of
                  (None, child) \<Rightarrow> (None, map_put key (BDict child) d)
                | (Some v, child) \<Rightarrow>
                    (let d = map_put key (BDict child) d
                     in (Some v, if child = [] then snd (RemoveWithoutPathExpansion d key) else d)))))"
  by pat_completeness auto
termination by (relation "measure (\<lambda>(d, p). length p)") (auto intro: cut_path_shorter)

declare Dict_RemovePath.simps [simp del]

text \<open>\<open>MergeDictionary\<close> copies every entry, and merges where both sides have a dictionary.\<close>

fun MergeDictionary :: "dict \<Rightarrow> dict \<Rightarrow> dict" where
  "MergeDictionary d [] = d"
| "MergeDictionary d ((k, v) # es) =
     MergeDictionary
       (case v of
          BDict sub \<Rightarrow>
            (case GetDictionaryWithoutPathExpansion d k of
               Some c \<Rightarrow> map_put k (BDict (MergeDictionary c sub)) d
             | None \<Rightarrow> map_put k v d)
        | _ \<Rightarrow> map_put k v d) es"

text \<open>The copy without empty lists and dictionaries; \<open>None\<close> when nothing is left of a container.\<close>

fun CopyWithoutEmptyChildren :: "base_value \<Rightarrow> base_value option"
  and CopyDictionaryWithoutEmptyChildren :: "dict \<Rightarrow> dict option \<Rightarrow> dict option"
  and CopyListWithoutEmptyChildren :: "base_value list \<Rightarrow> base_value list option \<Rightarrow> base_value list option"
where
  "CopyWithoutEmptyChildren (BList l) =
     (case CopyListWithoutEmptyChildren l None of None \<Rightarrow> None | Some c \<Rightarrow> Some (BList c))"
| "CopyWithoutEmptyChildren (BDict d) =
     (case CopyDictionaryWithoutEmptyChildren d None of None \<Rightarrow> None | Some c \<Rightarrow> Some (BDict c))"
| "CopyWithoutEmptyChildren v = Some v"
| "CopyDictionaryWithoutEmptyChildren [] copy = copy"
| "CopyDictionaryWithoutEmptyChildren ((k, v) # d) copy =
     CopyDictionaryWithoutEmptyChildren d
       (case CopyWithoutEmptyChildren v of
          None \<Rightarrow> copy
        | Some c \<Rightarrow> Some (map_put k c (case copy of None \<Rightarrow> [] | Some m \<Rightarrow> m)))"
| "CopyListWithoutEmptyChildren [] copy = copy"
| "CopyListWithoutEmptyChildren (v # l) copy =
     CopyListWithoutEmptyChildren l
       (case CopyWithoutEmptyChildren v of
          None \<Rightarrow> copy
        | Some c \<Rightarrow> Some ((case copy of None \<Rightarrow> [] | Some m \<Rightarrow> m) @ [c]))"

definition DeepCopyWithoutEmptyChildren :: "dict \<Rightarrow> dict" where
  "DeepCopyWithoutEmptyChildren d =
     (case CopyDictionaryWithoutEmptyChildren d None of None \<Rightarrow> [] | Some c \<Rightarrow> c)"

section \<open>Lists\<close>

text \<open>Setting an index beyond the end pads the list with null values.\<close>

definition List_Set :: "base_value list \<Rightarrow> nat \<Rightarrow> base_value \<Rightarrow> base_value list" where
  "List_Set l i v =
     (if i \<ge> length l then (l @ replicate (i - length l) BNull) @ [v] else l[i := v])"

definition List_Get :: "base_value list \<Rightarrow> nat \<Rightarrow> base_value option" where
  "List_Get l i = (if i \<ge> length l then None else Some (l ! i))"

definition List_Remove :: "base_value list \<Rightarrow> nat \<Rightarrow> base_value option \<times> base_value list" where
  "List_Remove l i = (if i \<ge> length l then (None, l) else (Some (l ! i), take i l @ drop (Suc i) l))"

fun List_RemoveValue :: "base_value list \<Rightarrow> base_value \<Rightarrow> nat option \<times> base_value list" where
  "List_RemoveValue [] v = (None, [])"
| "List_RemoveValue (w # l) v =
     (if Value_Equals w v then (Some 0, l)
      else case List_RemoveValue l v of (i, l) \<Rightarrow> (map_option Suc i, w # l))"

definition AppendIfNotPresent :: "base_value list \<Rightarrow> base_value \<Rightarrow> bool \<times> base_value list" where
  "AppendIfNotPresent l v = (if \<exists>e \<in> set l. Value_Equals e v then (False, l) else (True, l @ [v]))"

definition List_Insert :: "base_value list \<Rightarrow> nat \<Rightarrow> base_value \<Rightarrow> bool \<times> base_value list" where
  "List_Insert l i v = (if i > length l then (False, l) else (True, take i l @ v # drop i l))"

end
