(* ===== verification/Base_Value_Facts.thy ===== *)
theory Base_Value_Facts
  imports Base_Value
begin

text \<open>
  What the dictionaries of base/values.cc promise. A path denotes the list of keys between its dots;
  reading, writing and removing under paths is specified on lists of keys, and the laws of a
  hierarchical map are proved there.
\<close>

section \<open>Paths\<close>

function path_keys :: "string \<Rightarrow> string list" where
  "path_keys p = (case cut_path p of None \<Rightarrow> [p] | Some (k, rest) \<Rightarrow> k # path_keys rest)"
  by pat_completeness auto
termination by (relation "measure length") (auto intro: cut_path_shorter)

declare path_keys.simps [simp del]

lemma path_keys_cut: "cut_path p = Some (k, rest) \<Longrightarrow> path_keys p = k # path_keys rest"
  and path_keys_plain: "cut_path p = None \<Longrightarrow> path_keys p = [p]"
  by (simp_all add: path_keys.simps)

lemma path_keys_ne [simp]: "path_keys p \<noteq> []"
  by (simp add: path_keys.simps split: option.split)

lemma cut_path_None_iff: "cut_path p = None \<longleftrightarrow> CHR ''.'' \<notin> set p"
proof
  assume "cut_path p = None"
  then have "dropWhile (\<lambda>c. c \<noteq> CHR ''.'') p = []" by (simp add: cut_path_def split: list.splits)
  then show "CHR ''.'' \<notin> set p" by auto
next
  assume "CHR ''.'' \<notin> set p"
  then have "dropWhile (\<lambda>c. c \<noteq> CHR ''.'') p = []" by auto
  then show "cut_path p = None" by (simp only: cut_path_def list.case)
qed

lemma cut_path_key_plain: "cut_path p = Some (k, rest) \<Longrightarrow> cut_path k = None"
  unfolding cut_path_None_iff by (auto simp: cut_path_def dest: set_takeWhileD split: list.splits)

definition child_at :: "dict \<Rightarrow> string \<Rightarrow> dict" where
  "child_at d k = (case GetDictionaryWithoutPathExpansion d k of None \<Rightarrow> [] | Some c \<Rightarrow> c)"

lemma Dict_Get_plain: "cut_path p = None \<Longrightarrow> Dict_Get d p = map_of d p"
  by (simp add: Dict_Get.simps)

lemma Dict_GetDictionary_plain:
  "cut_path k = None \<Longrightarrow> Dict_GetDictionary d k = GetDictionaryWithoutPathExpansion d k"
  by (simp add: Dict_GetDictionary_def GetDictionaryWithoutPathExpansion_def Dict_Get_plain)

lemma GetDictionary_iff: "GetDictionaryWithoutPathExpansion d k = Some c \<longleftrightarrow> map_of d k = Some (BDict c)"
  by (auto simp: GetDictionaryWithoutPathExpansion_def GetAsDictionary_def split: option.split base_value.split)

section \<open>Reading and writing on lists of keys\<close>

fun get_keys :: "dict \<Rightarrow> string list \<Rightarrow> base_value option" where
  "get_keys d [] = Some (BDict d)"
| "get_keys d [k] = map_of d k"
| "get_keys d (k # ks) = (case map_of d k of Some (BDict c) \<Rightarrow> get_keys c ks | _ \<Rightarrow> None)"

fun set_keys :: "dict \<Rightarrow> string list \<Rightarrow> base_value \<Rightarrow> dict" where
  "set_keys d [] v = d"
| "set_keys d [k] v = map_put k v d"
| "set_keys d (k # ks) v = map_put k (BDict (set_keys (child_at d k) ks v)) d"

lemma Dict_Get_keys: "Dict_Get d p = get_keys d (path_keys p)"
proof (induction d p rule: Dict_Get.induct)
  case (1 d p)
  show ?case
  proof (cases "cut_path p")
    case None
    then show ?thesis by (simp add: Dict_Get_plain path_keys_plain)
  next
    case (Some kr)
    obtain k rest where kr: "kr = (k, rest)" by fastforce
    obtain x xs where ks: "path_keys rest = x # xs" using path_keys_ne by (meson neq_Nil_conv)
    from 1 [OF Some kr [symmetric]] show ?thesis
      by (simp add: Dict_Get.simps [of d p] Some kr path_keys_cut ks GetDictionaryWithoutPathExpansion_def
          GetAsDictionary_def split: option.split base_value.split)
  qed
qed

lemma Dict_Set_keys: "Dict_Set d p v = set_keys d (path_keys p) v"
proof (induction d p v rule: Dict_Set.induct)
  case (1 d p v)
  show ?case
  proof (cases "cut_path p")
    case None
    then show ?thesis by (simp add: Dict_Set.simps path_keys_plain)
  next
    case (Some kr)
    obtain k rest where kr: "kr = (k, rest)" by fastforce
    obtain x xs where ks: "path_keys rest = x # xs" using path_keys_ne by (meson neq_Nil_conv)
    from Some kr have "cut_path k = None" by (auto intro: cut_path_key_plain)
    then have c: "(case Dict_GetDictionary d k of None \<Rightarrow> [] | Some c \<Rightarrow> c) = child_at d k"
      by (simp add: Dict_GetDictionary_plain child_at_def)
    from 1 [OF Some kr [symmetric] refl] c show ?thesis
      by (simp add: Dict_Set.simps [of d p v] Some kr path_keys_cut ks)
  qed
qed

text \<open>Reading below the written place reads the written value, reading above it sees dictionaries,
  reading beside it sees no change.\<close>

lemma get_keys_Cons:
  "ks \<noteq> [] \<Longrightarrow> get_keys d (k # ks) = (case map_of d k of Some (BDict c) \<Rightarrow> get_keys c ks | _ \<Rightarrow> None)"
  by (cases ks) auto

lemma set_keys_Cons: "ks \<noteq> [] \<Longrightarrow> set_keys d (k # ks) v = map_put k (BDict (set_keys (child_at d k) ks v)) d"
  by (cases ks) auto

lemma get_keys_empty [simp]: "ks \<noteq> [] \<Longrightarrow> get_keys [] ks = None"
  by (cases ks rule: get_keys.cases [of "([], ks)" for ks]) (auto simp: get_keys_Cons neq_Nil_conv)

lemma get_keys_child: "qs \<noteq> [] \<Longrightarrow> get_keys (child_at d k) qs = get_keys d (k # qs)"
  by (simp add: get_keys_Cons child_at_def GetDictionaryWithoutPathExpansion_def GetAsDictionary_def
      split: option.split base_value.split)

lemma get_set_keys_one: "qs \<noteq> [] \<Longrightarrow> get_keys (map_put k v d) (q # qs) =
    (if q = k then (case v of BDict c \<Rightarrow> get_keys c qs | _ \<Rightarrow> None) else get_keys d (q # qs))"
  by (simp add: get_keys_Cons)

lemma get_set_keys_below:
  "ks \<noteq> [] \<Longrightarrow> get_keys (set_keys d ks v) (ks @ qs) =
     (if qs = [] then Some v else case v of BDict c \<Rightarrow> get_keys c qs | _ \<Rightarrow> None)"
proof (induction ks arbitrary: d)
  case (Cons k ks)
  show ?case
  proof (cases "ks = []")
    case True
    then show ?thesis by (simp add: get_keys_Cons)
  next
    case False
    with Cons.IH [OF False] show ?thesis by (simp add: set_keys_Cons get_keys_Cons)
  qed
qed simp

lemma get_set_keys_beside:
  "\<not> prefix ks qs \<Longrightarrow> \<not> prefix qs ks \<Longrightarrow> get_keys (set_keys d ks v) qs = get_keys d qs"
proof (induction ks arbitrary: d qs)
  case (Cons k ks)
  then obtain q qr where qs: "qs = q # qr" by (cases qs) auto
  show ?case
  proof (cases "q = k")
    case True
    with Cons.prems qs have "qr \<noteq> []" "ks \<noteq> []" by auto
    with True qs Cons.IH [of qr "child_at d k"] Cons.prems show ?thesis
      by (simp add: set_keys_Cons get_keys_Cons get_keys_child)
  next
    case False
    then show ?thesis by (cases "ks = []"; cases "qr = []") (simp_all add: qs set_keys_Cons get_keys_Cons)
  qed
qed simp

lemma get_set_keys_above:
  "qs \<noteq> [] \<Longrightarrow> ks \<noteq> [] \<Longrightarrow> \<exists>c. get_keys (set_keys d (qs @ ks) v) qs = Some (BDict c) \<and> get_keys c ks = Some v"
proof (induction qs arbitrary: d)
  case (Cons q qs)
  show ?case
  proof (cases "qs = []")
    case True
    with Cons.prems get_set_keys_below [of ks "child_at d q" v "[]"] show ?thesis by (simp add: set_keys_Cons)
  next
    case False
    with Cons show ?thesis by (simp add: set_keys_Cons get_keys_Cons)
  qed
qed simp

section \<open>Removing a path\<close>

fun rem_keys :: "dict \<Rightarrow> string list \<Rightarrow> base_value option \<times> dict" where
  "rem_keys d [] = (None, d)"
| "rem_keys d [k] = RemoveWithoutPathExpansion d k"
| "rem_keys d (k # ks) =
     (case GetDictionaryWithoutPathExpansion d k of
        None \<Rightarrow> (None, d)
      | Some c \<Rightarrow>
          (case rem_keys c ks of
             (None, c) \<Rightarrow> (None, map_put k (BDict c) d)
           | (Some v, c) \<Rightarrow> (Some v, if c = [] then map_erase k (map_put k (BDict c) d) else map_put k (BDict c) d)))"

lemma rem_keys_Cons: "ks \<noteq> [] \<Longrightarrow> rem_keys d (k # ks) =
     (case GetDictionaryWithoutPathExpansion d k of
        None \<Rightarrow> (None, d)
      | Some c \<Rightarrow>
          (case rem_keys c ks of
             (None, c) \<Rightarrow> (None, map_put k (BDict c) d)
           | (Some v, c) \<Rightarrow> (Some v, if c = [] then map_erase k (map_put k (BDict c) d) else map_put k (BDict c) d)))"
  by (cases ks) auto

lemma Dict_RemovePath_keys: "Dict_RemovePath d p = rem_keys d (path_keys p)"
proof (induction d p rule: Dict_RemovePath.induct)
  case (1 d p)
  show ?case
  proof (cases "cut_path p")
    case None
    then show ?thesis by (simp add: Dict_RemovePath.simps path_keys_plain)
  next
    case (Some kr)
    obtain k rest where kr: "kr = (k, rest)" by fastforce
    from Some kr have "cut_path k = None" by (auto intro: cut_path_key_plain)
    then have g: "Dict_GetDictionary d k = GetDictionaryWithoutPathExpansion d k"
      by (rule Dict_GetDictionary_plain)
    show ?thesis
    proof (cases "GetDictionaryWithoutPathExpansion d k")
      case None
      then show ?thesis
        by (simp add: Dict_RemovePath.simps [of d p] Some kr g path_keys_cut rem_keys_Cons)
    next
      case c: (Some c)
      from 1 [OF Some kr [symmetric]] g c have "Dict_RemovePath c rest = rem_keys c (path_keys rest)" by simp
      then show ?thesis
        by (simp add: Dict_RemovePath.simps [of d p] Some kr g c path_keys_cut rem_keys_Cons
            RemoveWithoutPathExpansion_def split: prod.split option.split)
    qed
  qed
qed

lemma rem_keys_fst: "ks \<noteq> [] \<Longrightarrow> fst (rem_keys d ks) = get_keys d ks"
proof (induction d ks rule: rem_keys.induct)
  case (2 d k)
  then show ?case by (simp add: RemoveWithoutPathExpansion_def split: option.split)
next
  case (3 d k x ks)
  then show ?case
    by (auto simp: GetDictionaryWithoutPathExpansion_def GetAsDictionary_def
        split: option.splits base_value.splits prod.splits)
qed simp

lemma rem_keys_gone: "ks \<noteq> [] \<Longrightarrow> get_keys (snd (rem_keys d ks)) ks = None"
proof (induction d ks rule: rem_keys.induct)
  case (2 d k)
  then show ?case by (simp add: RemoveWithoutPathExpansion_def split: option.split)
next
  case (3 d k x ks)
  then show ?case
    by (auto simp: GetDictionaryWithoutPathExpansion_def GetAsDictionary_def
        split: option.splits base_value.splits prod.splits)
qed simp

lemma rem_keys_beside:
  "ks \<noteq> [] \<Longrightarrow> \<not> prefix ks qs \<Longrightarrow> \<not> prefix qs ks \<Longrightarrow> get_keys (snd (rem_keys d ks)) qs = get_keys d qs"
proof (induction d ks arbitrary: qs rule: rem_keys.induct)
  case (2 d k)
  then obtain q qr where qs: "qs = q # qr" "q \<noteq> k" by (cases qs) auto
  then show ?case by (cases "qr = []") (auto simp: RemoveWithoutPathExpansion_def get_keys_Cons split: option.split)
next
  case (3 d k x ks)
  then obtain q qr where qs: "qs = q # qr" by (cases qs) auto
  show ?case
  proof (cases "q = k \<and> GetDictionaryWithoutPathExpansion d k \<noteq> None")
    case False
    then show ?thesis
      by (cases "qr = []")
        (auto simp: qs get_keys_Cons GetDictionaryWithoutPathExpansion_def GetAsDictionary_def
          split: option.splits base_value.splits prod.splits)
  next
    case True
    then obtain c where c: "GetDictionaryWithoutPathExpansion d k = Some c" by auto
    from 3 qs True have q: "\<not> prefix (x # ks) qr" "\<not> prefix qr (x # ks)" "qr \<noteq> []" by auto
    from 3(1) [OF c] q have "get_keys (snd (rem_keys c (x # ks))) qr = get_keys c qr" by simp
    moreover from c have "map_of d k = Some (BDict c)" by (simp add: GetDictionary_iff)
    ultimately show ?thesis using c True q(3)
      by (auto simp: qs get_keys_Cons split: prod.splits option.splits)
  qed
qed simp

section \<open>Merging\<close>

lemma map_of_Merge:
  "distinct (map fst es) \<Longrightarrow> map_of (MergeDictionary d es) k =
     (case map_of es k of
        None \<Rightarrow> map_of d k
      | Some v \<Rightarrow> Some (case (v, map_of d k) of
          (BDict sub, Some (BDict c)) \<Rightarrow> BDict (MergeDictionary c sub) | _ \<Rightarrow> v))"
proof (induction es arbitrary: d)
  case (Cons e es)
  obtain k' v where e: "e = (k', v)" by fastforce
  with Cons.prems have n: "map_of es k' = None" by (auto simp: map_of_eq_None_iff)
  from Cons e n show ?case
    by (cases v) (auto simp: GetDictionaryWithoutPathExpansion_def GetAsDictionary_def
        split: option.splits base_value.splits)
qed simp

section \<open>Equality\<close>

lemma Value_Equals_iff: "Value_Equals v w \<longleftrightarrow> v = w"
  and Dict_Equals_iff: "Dict_Equals d e \<longleftrightarrow> d = e"
  and List_Equals_iff: "List_Equals l r \<longleftrightarrow> l = r"
  by (induction v w and d e and l r rule: Value_Equals_Dict_Equals_List_Equals.induct)
    (auto split: base_value.split list.split)

section \<open>Well-formed values\<close>

text \<open>A value is well formed when the keys of every dictionary in it are strictly ordered.\<close>

fun value_wf :: "base_value \<Rightarrow> bool" where
  "value_wf (BDict d) \<longleftrightarrow> ordered_keys d \<and> (\<forall>e \<in> set d. value_wf (snd e))"
| "value_wf (BList l) \<longleftrightarrow> (\<forall>v \<in> set l. value_wf v)"
| "value_wf _ \<longleftrightarrow> True"

lemma set_map_put: "set (map_put k v d) \<subseteq> insert (k, v) (set d)"
  by (induction k v d rule: map_put.induct) auto

lemma wf_map_put: "value_wf (BDict d) \<Longrightarrow> value_wf v \<Longrightarrow> value_wf (BDict (map_put k v d))"
  using set_map_put [of k v d] by (auto intro: map_put_ordered)

lemma ordered_keys_filter: "ordered_keys m \<Longrightarrow> ordered_keys (filter P m)"
  by (induction m) (auto simp: ordered_keys_def)

lemma wf_map_erase: "value_wf (BDict d) \<Longrightarrow> value_wf (BDict (map_erase k d))"
  by (auto simp: map_erase_def intro: ordered_keys_filter)

lemma wf_map_of: "value_wf (BDict d) \<Longrightarrow> map_of d k = Some v \<Longrightarrow> value_wf v"
  by (metis map_of_SomeD snd_conv value_wf.simps(1))

lemma wf_child: "value_wf (BDict d) \<Longrightarrow> GetDictionaryWithoutPathExpansion d k = Some c \<Longrightarrow> value_wf (BDict c)"
  unfolding GetDictionary_iff by (rule wf_map_of)

lemma wf_set_keys: "value_wf (BDict d) \<Longrightarrow> value_wf v \<Longrightarrow> value_wf (BDict (set_keys d ks v))"
proof (induction d ks v rule: set_keys.induct)
  case (3 d k x ks v)
  have "value_wf (BDict (child_at d k))"
  proof (cases "GetDictionaryWithoutPathExpansion d k")
    case (Some c)
    with wf_child [OF 3(2) Some] show ?thesis by (simp add: child_at_def del: value_wf.simps)
  qed (simp add: child_at_def)
  with 3 show ?case by (auto simp del: value_wf.simps intro: wf_map_put)
qed (auto simp del: value_wf.simps intro: wf_map_put)

lemma wf_rem_keys: "value_wf (BDict d) \<Longrightarrow> value_wf (BDict (snd (rem_keys d ks)))"
proof (induction d ks rule: rem_keys.induct)
  case (2 d k)
  then show ?case by (auto simp: RemoveWithoutPathExpansion_def simp del: value_wf.simps intro: wf_map_erase split: option.split)
next
  case (3 d k x ks)
  show ?case
  proof (cases "GetDictionaryWithoutPathExpansion d k")
    case (Some c)
    with 3 have "value_wf (BDict (snd (rem_keys c (x # ks))))" by (blast intro: wf_child)
    with 3(2) Some show ?thesis
      by (auto simp del: value_wf.simps intro!: wf_map_put wf_map_erase split: prod.split option.split)
  qed (use 3 in simp)
qed simp

lemma wf_Merge: "value_wf (BDict d) \<Longrightarrow> value_wf (BDict es) \<Longrightarrow> value_wf (BDict (MergeDictionary d es))"
proof (induction d es rule: MergeDictionary.induct)
  case (2 d k v es)
  have tail: "value_wf v" "value_wf (BDict es)" using 2(4) by (auto simp: ordered_keys_def)
  let ?d = "case v of
          BDict sub \<Rightarrow>
            (case GetDictionaryWithoutPathExpansion d k of
               Some c \<Rightarrow> map_put k (BDict (MergeDictionary c sub)) d
             | None \<Rightarrow> map_put k v d)
        | _ \<Rightarrow> map_put k v d"
  have "value_wf (BDict ?d)"
  proof (cases "\<exists>sub c. v = BDict sub \<and> GetDictionaryWithoutPathExpansion d k = Some c")
    case True
    then obtain sub c where v: "v = BDict sub" and c: "GetDictionaryWithoutPathExpansion d k = Some c" by blast
    from 2(1) [OF v c wf_child [OF 2(3) c]] tail(1) v
    have "value_wf (BDict (MergeDictionary c sub))" by blast
    with v c 2(3) show ?thesis by (simp del: value_wf.simps add: wf_map_put)
  next
    case False
    then have "?d = map_put k v d" by (auto split: base_value.split option.split)
    with 2(3) tail(1) show ?thesis by (simp del: value_wf.simps add: wf_map_put)
  qed
  from 2(2) [OF this tail(2)] show ?case by simp
qed simp

section \<open>Copies without empty children\<close>

text \<open>No list and no dictionary in the value is empty.\<close>

fun no_empty :: "base_value \<Rightarrow> bool" where
  "no_empty (BDict d) \<longleftrightarrow> d \<noteq> [] \<and> (\<forall>e \<in> set d. no_empty (snd e))"
| "no_empty (BList l) \<longleftrightarrow> l \<noteq> [] \<and> (\<forall>v \<in> set l. no_empty v)"
| "no_empty _ \<longleftrightarrow> True"

lemma map_put_ne [simp]: "map_put k v d \<noteq> []"
  by (induction k v d rule: map_put.induct) auto

lemma Copy_no_empty:
  "CopyWithoutEmptyChildren v = Some w \<Longrightarrow> no_empty w"
  and CopyDictionary_no_empty: "\<forall>m. copy = Some m \<longrightarrow> no_empty (BDict m) \<Longrightarrow> CopyDictionaryWithoutEmptyChildren d copy = Some m' \<Longrightarrow> no_empty (BDict m')"
  and CopyList_no_empty: "\<forall>m. lcopy = Some m \<longrightarrow> no_empty (BList m) \<Longrightarrow> CopyListWithoutEmptyChildren l lcopy = Some l' \<Longrightarrow> no_empty (BList l')"
proof (induction v and d copy and l lcopy arbitrary: w and m' and l'
    rule: CopyWithoutEmptyChildren_CopyDictionaryWithoutEmptyChildren_CopyListWithoutEmptyChildren.induct)
  case (5 k v d copy)
  let ?c = "case CopyWithoutEmptyChildren v of
          None \<Rightarrow> copy
        | Some c \<Rightarrow> Some (map_put k c (case copy of None \<Rightarrow> [] | Some m \<Rightarrow> m))"
  have "\<forall>m. ?c = Some m \<longrightarrow> no_empty (BDict m)"
    using 5(1,3) set_map_put by (fastforce split: option.splits)
  from 5(2) [OF this] 5(4) show ?case by simp
next
  case (7 v l lcopy)
  let ?c = "case CopyWithoutEmptyChildren v of
          None \<Rightarrow> lcopy
        | Some c \<Rightarrow> Some ((case lcopy of None \<Rightarrow> [] | Some m \<Rightarrow> m) @ [c])"
  have "\<forall>m. ?c = Some m \<longrightarrow> no_empty (BList m)"
    using 7(1,3) by (auto split: option.splits)
  from 7(2) [OF this] 7(4) show ?case by simp
qed (auto split: option.splits)

definition default_dict :: "dict option \<Rightarrow> dict" where
  "default_dict c = (case c of None \<Rightarrow> [] | Some m \<Rightarrow> m)"

lemma map_of_CopyDictionary:
  "distinct (map fst d) \<Longrightarrow> map_of (default_dict (CopyDictionaryWithoutEmptyChildren d copy)) k =
     (case map_of d k of
        None \<Rightarrow> map_of (default_dict copy) k
      | Some v \<Rightarrow> (case CopyWithoutEmptyChildren v of None \<Rightarrow> map_of (default_dict copy) k | Some c \<Rightarrow> Some c))"
proof (induction d arbitrary: copy)
  case (Cons e d)
  obtain k' v where e: "e = (k', v)" by fastforce
  with Cons.prems have n: "map_of d k' = None" by (auto simp: map_of_eq_None_iff)
  from Cons e n show ?case by (auto simp: default_dict_def split: option.splits)
qed (simp add: default_dict_def)

fun is_leaf :: "base_value \<Rightarrow> bool" where
  "is_leaf (BDict d) \<longleftrightarrow> False"
| "is_leaf (BList l) \<longleftrightarrow> False"
| "is_leaf _ \<longleftrightarrow> True"

lemma Copy_leaf: "is_leaf v \<Longrightarrow> CopyWithoutEmptyChildren v = Some v"
  by (cases v) auto

lemma Copy_leaf_conv: "is_leaf w \<Longrightarrow> CopyWithoutEmptyChildren v = Some w \<longleftrightarrow> v = w"
  by (cases v) (auto split: option.split)

lemma get_keys_Copy:
  "value_wf (BDict d) \<Longrightarrow> ks \<noteq> [] \<Longrightarrow> is_leaf v \<Longrightarrow>
     get_keys (DeepCopyWithoutEmptyChildren d) ks = Some v \<longleftrightarrow> get_keys d ks = Some v"
proof (induction d ks rule: get_keys.induct)
  case (2 d k)
  then have "distinct (map fst d)" by (simp add: ordered_keys_distinct)
  from map_of_CopyDictionary [OF this, of None k] 2(3) show ?case
    by (auto simp: DeepCopyWithoutEmptyChildren_def default_dict_def Copy_leaf Copy_leaf_conv split: option.splits)
next
  case (3 d k x ks)
  then have "distinct (map fst d)" by (simp add: ordered_keys_distinct)
  note m = map_of_CopyDictionary [OF this, of None k, unfolded default_dict_def, simplified,
      folded DeepCopyWithoutEmptyChildren_def]
  show ?case
  proof (cases "\<exists>c. map_of d k = Some (BDict c)")
    case True
    then obtain c where c: "map_of d k = Some (BDict c)" by blast
    from 3 c have ih: "get_keys (DeepCopyWithoutEmptyChildren c) (x # ks) = Some v \<longleftrightarrow> get_keys c (x # ks) = Some v"
      by (auto intro: wf_map_of simp del: value_wf.simps)
    show ?thesis
    proof (cases "CopyDictionaryWithoutEmptyChildren c None")
      case None
      then have "DeepCopyWithoutEmptyChildren c = []" by (simp add: DeepCopyWithoutEmptyChildren_def)
      with ih m c None show ?thesis by simp
    next
      case (Some c')
      then have "DeepCopyWithoutEmptyChildren c = c'" by (simp add: DeepCopyWithoutEmptyChildren_def)
      with ih m c Some show ?thesis by simp
    qed
  next
    case False
    then show ?thesis using m by (auto split: option.splits base_value.splits elim: CopyWithoutEmptyChildren.elims)
  qed
qed simp

lemma wf_Copy:
  "value_wf v \<Longrightarrow> CopyWithoutEmptyChildren v = Some w \<Longrightarrow> value_wf w"
  and wf_CopyDictionary: "\<forall>m. copy = Some m \<longrightarrow> value_wf (BDict m) \<Longrightarrow> \<forall>e \<in> set d. value_wf (snd e)
    \<Longrightarrow> CopyDictionaryWithoutEmptyChildren d copy = Some m' \<Longrightarrow> value_wf (BDict m')"
  and wf_CopyList: "\<forall>m. lcopy = Some m \<longrightarrow> value_wf (BList m) \<Longrightarrow> \<forall>v \<in> set l. value_wf v
    \<Longrightarrow> CopyListWithoutEmptyChildren l lcopy = Some l' \<Longrightarrow> value_wf (BList l')"
proof (induction v and d copy and l lcopy arbitrary: w and m' and l'
    rule: CopyWithoutEmptyChildren_CopyDictionaryWithoutEmptyChildren_CopyListWithoutEmptyChildren.induct)
  case (5 k v d copy)
  let ?c = "case CopyWithoutEmptyChildren v of
          None \<Rightarrow> copy
        | Some c \<Rightarrow> Some (map_put k c (case copy of None \<Rightarrow> [] | Some m \<Rightarrow> m))"
  have v: "value_wf v" using 5(4) by simp
  have "\<forall>m. ?c = Some m \<longrightarrow> value_wf (BDict m)"
  proof (intro allI impI)
    fix m assume m: "?c = Some m"
    show "value_wf (BDict m)"
    proof (cases "CopyWithoutEmptyChildren v")
      case (Some c)
      have "value_wf (BDict (case copy of None \<Rightarrow> [] | Some m \<Rightarrow> m))" using 5(3) by (cases copy) simp_all
      from wf_map_put [OF this 5(1) [OF v Some], of k] m Some show ?thesis by simp
    qed (use m 5(3) in simp)
  qed
  from 5(2) [OF this] 5(4,5) show ?case by simp
next
  case (7 v l lcopy)
  let ?c = "case CopyWithoutEmptyChildren v of
          None \<Rightarrow> lcopy
        | Some c \<Rightarrow> Some ((case lcopy of None \<Rightarrow> [] | Some m \<Rightarrow> m) @ [c])"
  have "\<forall>m. ?c = Some m \<longrightarrow> value_wf (BList m)"
    using 7(1,3,4) by (auto split: option.splits)
  from 7(2) [OF this] 7(4,5) show ?case by simp
qed (auto split: option.splits)

lemma wf_DeepCopy: "value_wf (BDict d) \<Longrightarrow> value_wf (BDict (DeepCopyWithoutEmptyChildren d))"
  using wf_CopyDictionary [of None d]
  by (cases "CopyDictionaryWithoutEmptyChildren d None") (simp_all add: DeepCopyWithoutEmptyChildren_def)

section \<open>Properties\<close>

definition beside :: "string \<Rightarrow> string \<Rightarrow> bool" where
  "beside p q \<longleftrightarrow> \<not> prefix (path_keys p) (path_keys q) \<and> \<not> prefix (path_keys q) (path_keys p)"

text \<open>A dictionary is a map from paths to values: what is set under a path is read back under it,
  below it the parts of a dictionary that was set are read; removing a path returns what was there and
  leaves nothing, and neither changes what is read beside the path.\<close>

theorem dictionary_paths:
  assumes "beside p q" "path_keys r = path_keys p @ ks" "ks \<noteq> []"
  shows "Dict_Get (Dict_Set d p v) p = Some v
    \<and> Dict_Get (Dict_Set d p (BDict c)) r = get_keys c ks
    \<and> Dict_Get (Dict_Set d p v) q = Dict_Get d q
    \<and> fst (Dict_RemovePath d p) = Dict_Get d p
    \<and> Dict_Get (snd (Dict_RemovePath d p)) p = None
    \<and> Dict_Get (snd (Dict_RemovePath d p)) q = Dict_Get d q"
  using assms get_set_keys_below [of "path_keys p" d _ "[]"] get_set_keys_below [of "path_keys p" d "BDict c" ks]
  by (simp add: Dict_Get_keys Dict_Set_keys Dict_RemovePath_keys get_set_keys_beside rem_keys_fst rem_keys_gone
      rem_keys_beside beside_def)

lemmas path_eval = cut_path_def path_keys.simps beside_def

theorem dictionary_paths_witness:
  "Dict_Get (Dict_Set [(''a'', BString ''x'')] ''full.port'' (BDict [(''k'', BNull)])) ''full.port.k'' = Some BNull
   \<and> Dict_Get (snd (Dict_RemovePath [(''a'', BString ''x'')] ''full.port'')) ''a'' = Some (BString ''x'')"
proof -
  have b: "beside ''full.port'' ''a''" "path_keys ''full.port.k'' = path_keys ''full.port'' @ [''k'']"
    by (simp_all add: path_eval)
  from dictionary_paths [OF this, of "[(''a'', BString ''x'')]" BNull "[(''k'', BNull)]"]
  show ?thesis by (simp add: Dict_Get.simps [of _ "''a''"] path_eval)
qed



text \<open>The copy without empty children has no empty list or dictionary below its top, and reads
  the same leaf under every path.\<close>

theorem copy_without_empty:
  assumes "value_wf (BDict d)" "is_leaf v"
  shows "(Dict_Get (DeepCopyWithoutEmptyChildren d) p = Some v \<longleftrightarrow> Dict_Get d p = Some v)
    \<and> (\<forall>k w. map_of (DeepCopyWithoutEmptyChildren d) k = Some w \<longrightarrow> no_empty w)"
proof
  show "Dict_Get (DeepCopyWithoutEmptyChildren d) p = Some v \<longleftrightarrow> Dict_Get d p = Some v"
    unfolding Dict_Get_keys by (rule get_keys_Copy [OF assms(1) _ assms(2)]) simp
  show "\<forall>k w. map_of (DeepCopyWithoutEmptyChildren d) k = Some w \<longrightarrow> no_empty w"
  proof (cases "CopyDictionaryWithoutEmptyChildren d None")
    case (Some m)
    then have "no_empty (BDict m)" by (rule CopyDictionary_no_empty [rotated]) simp
    with Some show ?thesis
      by (auto simp: DeepCopyWithoutEmptyChildren_def dest!: map_of_SomeD)
  qed (simp add: DeepCopyWithoutEmptyChildren_def)
qed

theorem copy_without_empty_witness:
  "Dict_Get (DeepCopyWithoutEmptyChildren [(''a'', BList []), (''b'', BNull)]) ''b'' = Some BNull"
  using copy_without_empty [of "[(''a'', BList []), (''b'', BNull)]" BNull "''b''"]
  by (simp add: ordered_keys_def Dict_Get.simps [of "[(''a'', BList []), (''b'', BNull)]"] path_eval)

end
