(* ===== verification/Json_File.thy ===== *)
theory Json_File
  imports Base_Value_Facts Secret_Store
begin

text \<open>
  base/json_file_value_serializer.cc: JSON documents in files. The writer and the reader of JSON text
  and the test for UTF-8 belong to the vendored base library: they are the fields of \<open>json_io\<close>, as is
  whether a file can be opened for writing.
\<close>

record json_io =
  jio_write :: "bool \<Rightarrow> base_value \<Rightarrow> string option"
  jio_read :: "string \<Rightarrow> base_value option"
  jio_utf8 :: "string \<Rightarrow> bool"
  jio_can_open :: "string \<Rightarrow> bool"

definition JSONFile_Serialize :: "json_io \<Rightarrow> string \<Rightarrow> base_value \<Rightarrow> disk \<Rightarrow> bool \<times> disk" where
  "JSONFile_Serialize J path root d =
     (case jio_write J True root of
        None \<Rightarrow> (False, d)
      | Some s \<Rightarrow> if jio_can_open J path then (True, d(path \<mapsto> asBytes s)) else (False, d))"

definition JSONFile_Deserialize :: "json_io \<Rightarrow> string \<Rightarrow> disk \<Rightarrow> base_value option" where
  "JSONFile_Deserialize J path d = (case d path of None \<Rightarrow> None | Some b \<Rightarrow> jio_read J (asString b))"

section \<open>The library's documented behaviour\<close>

definition ascii :: "string \<Rightarrow> bool" where
  "ascii s \<longleftrightarrow> (\<forall>c \<in> set s. (of_char c :: nat) < 128)"

text \<open>The documents of the wallet: dictionaries of texts, at most two deep.\<close>

definition flat_dict :: "(string \<Rightarrow> bool) \<Rightarrow> dict \<Rightarrow> bool" where
  "flat_dict utf8 d \<longleftrightarrow> ordered_keys d \<and> (\<forall>(k, v) \<in> set d. utf8 k \<and> (case v of BString s \<Rightarrow> utf8 s | _ \<Rightarrow> False))"

definition text_dict :: "(string \<Rightarrow> bool) \<Rightarrow> dict \<Rightarrow> bool" where
  "text_dict utf8 d \<longleftrightarrow> ordered_keys d \<and>
     (\<forall>(k, v) \<in> set d. utf8 k \<and> (case v of BString s \<Rightarrow> utf8 s | BDict e \<Rightarrow> flat_dict utf8 e | _ \<Rightarrow> False))"

definition json_io_ok :: "json_io \<Rightarrow> bool" where
  "json_io_ok J \<longleftrightarrow>
     (\<forall>s. ascii s \<longrightarrow> jio_utf8 J s)
     \<and> (\<forall>d p. text_dict (jio_utf8 J) d \<longrightarrow> (\<exists>s. jio_write J p (BDict d) = Some s \<and> s \<noteq> '''' \<and> jio_read J s = Some (BDict d)))"

lemma flat_text_dict: "flat_dict u d \<Longrightarrow> text_dict u d"
  by (fastforce simp: flat_dict_def text_dict_def split: base_value.splits)

lemma json_ioD:
  assumes "json_io_ok J" "text_dict (jio_utf8 J) d"
  obtains s where "jio_write J p (BDict d) = Some s" "s \<noteq> ''''" "jio_read J s = Some (BDict d)"
  using assms unfolding json_io_ok_def by blast

lemma json_io_ascii: "json_io_ok J \<Longrightarrow> ascii s \<Longrightarrow> jio_utf8 J s"
  by (simp add: json_io_ok_def)

lemma file_roundtrip:
  assumes "json_io_ok J" "text_dict (jio_utf8 J) x" "jio_can_open J path"
  shows "\<exists>d'. JSONFile_Serialize J path (BDict x) d = (True, d') \<and> JSONFile_Deserialize J path d' = Some (BDict x)
    \<and> (\<forall>q. q \<noteq> path \<longrightarrow> d' q = d q)"
proof -
  obtain s where "jio_write J True (BDict x) = Some s" "s \<noteq> ''''" "jio_read J s = Some (BDict x)"
    by (rule json_ioD [OF assms(1,2)])
  with assms(3) show ?thesis by (simp add: JSONFile_Serialize_def JSONFile_Deserialize_def)
qed

lemma Serialize_false: "\<not> jio_can_open J path \<Longrightarrow> JSONFile_Serialize J path v d = (False, d)"
  by (simp add: JSONFile_Serialize_def split: option.split)

lemma flat_map_put: "flat_dict u d \<Longrightarrow> u k \<Longrightarrow> u s \<Longrightarrow> flat_dict u (map_put k (BString s) d)"
  using set_map_put [of k "BString s" d] by (fastforce simp: flat_dict_def intro: map_put_ordered)

lemma text_map_put_dict: "text_dict u d \<Longrightarrow> u k \<Longrightarrow> flat_dict u e \<Longrightarrow> text_dict u (map_put k (BDict e) d)"
  using set_map_put [of k "BDict e" d] by (fastforce simp: text_dict_def intro: map_put_ordered)

lemma flat_Nil [simp]: "flat_dict u []"
  by (simp add: flat_dict_def)

text \<open>A concrete library: a document is written as the unary form of its number.\<close>

definition toy_json_io :: json_io where
  "toy_json_io = \<lparr>jio_write = (\<lambda>p v. Some (replicate (Suc (to_nat v)) CHR ''1'')), jio_read = (\<lambda>s. Some (from_nat (length s - 1))),
     jio_utf8 = (\<lambda>s. True), jio_can_open = (\<lambda>p. True)\<rparr>"

lemma toy_json_io_ok: "json_io_ok toy_json_io"
  by (simp add: json_io_ok_def toy_json_io_def)

end
