(* ===== verification/Account_Manager.thy ===== *)
theory Account_Manager
  imports Core_Util Key_Manager_Invariant Json_File
begin

text \<open>
  wallet/core/account_manager.cpp: the account the user is logged in with and, for the cold wallet, the
  addresses generated for it with their keys. A member function is an action on the record
  \<open>account_manager\<close>; using the key manager before it exists is a null dereference. Random values are
  arguments; \<open>boot_disk\<close> is the disk on which the key manager is opened and which it then owns.
\<close>

section \<open>State\<close>

datatype WalletType = HotWallet | ColdWallet

record account_manager =
  wallet_type :: WalletType
  callback_wnd :: bool
  keyManager :: "key_manager option"
  boot_disk :: disk
  tron_address :: bytes
  encoded_address :: string
  address_lookup :: "(bytes \<times> string) list"
  cached_keys :: "(bytes \<times> bytes) list"

record wallet_env =
  env_host :: host
  env_json :: json_io
  env_dir :: string
  env_listing :: "disk \<Rightarrow> string \<Rightarrow> string list"

definition AccountManager_new :: "disk \<Rightarrow> account_manager" where
  "AccountManager_new d =
     \<lparr>wallet_type = HotWallet, callback_wnd = False, keyManager = None, boot_disk = d, tron_address = [],
      encoded_address = '''', address_lookup = [], cached_keys = []\<rparr>"

definition SetWalletType :: "WalletType \<Rightarrow> account_manager \<Rightarrow> account_manager" where
  "SetWalletType t am = am\<lparr>wallet_type := t\<rparr>"

section \<open>Files and the key manager\<close>

definition AccountPath :: "wallet_env \<Rightarrow> WalletType \<Rightarrow> string" where
  "AccountPath E t = (case t of
      HotWallet \<Rightarrow> path_join (env_host E) (env_dir E) ''account''
    | ColdWallet \<Rightarrow> path_join (env_host E) (env_dir E) ''cold_account'')"

definition ColdWalletPath :: "wallet_env \<Rightarrow> string" where
  "ColdWalletPath E = path_join (env_host E) (path_join (env_host E) (env_dir E) ''cold_account'') ''cold_wallet''"

definition KeysFilePath :: "wallet_env \<Rightarrow> WalletType \<Rightarrow> string" where
  "KeysFilePath E t = (case t of
      HotWallet \<Rightarrow> path_join (env_host E) (path_join (env_host E) (env_dir E) ''account'') ''keys''
    | ColdWallet \<Rightarrow> path_join (env_host E) (path_join (env_host E) (env_dir E) ''cold_account'') ''keys'')"

definition OpenWallet :: "wallet_env \<Rightarrow> account_manager \<Rightarrow> account_manager" where
  "OpenWallet E am =
     (case keyManager am of
        Some km \<Rightarrow> am
      | None \<Rightarrow>
          (let path = AccountPath E (wallet_type am);
               store = SecretStore_open (env_host E) (env_listing E (boot_disk am) path) path (boot_disk am)
           in am\<lparr>keyManager := Some (KeyManager_new (KeysFilePath E (wallet_type am)) store)\<rparr>))"

text \<open>A call of the key manager: one that changes it and one that only reads it.\<close>

definition on_keys :: "(key_manager, 'a) action \<Rightarrow> (account_manager, 'a) action" where
  "on_keys m am =
     (case keyManager am of
        None \<Rightarrow> (Inl NullDeref, am)
      | Some km \<Rightarrow> (case m km of (r, km) \<Rightarrow> (r, am\<lparr>keyManager := Some km\<rparr>)))"

definition ask_keys :: "(key_manager \<Rightarrow> 'a) \<Rightarrow> (account_manager, 'a) action" where
  "ask_keys f am = (case keyManager am of None \<Rightarrow> (Inl NullDeref, am) | Some km \<Rightarrow> (Inr (f km), am))"

section \<open>The logged in account\<close>

text \<open>\<open>CheckLogin\<close> also returns whether a message is posted to the window.\<close>

definition CheckLogin :: "account_manager \<Rightarrow> bool \<times> bool" where
  "CheckLogin am = (let login = tron_address am \<noteq> [] in (login, \<not> login \<and> callback_wnd am))"

definition set_pair :: "bytes \<Rightarrow> string \<Rightarrow> account_manager \<Rightarrow> account_manager" where
  "set_pair a e am = am\<lparr>tron_address := a, encoded_address := e\<rparr>"

definition Logout :: "wallet_env \<Rightarrow> (account_manager, unit) action" where
  "Logout E am =
     sbind (slift (ToAddress (tron_address am))) (\<lambda>a.
     sbind (on_keys (km_clear (env_host E) a)) (\<lambda>_. smodify (set_pair [] ''''))) am"

definition GetAccountName :: "(account_manager, string) action" where
  "GetAccountName am =
     (if tron_address am \<noteq> [] then
        sbind (slift (ToAddress (tron_address am))) (\<lambda>a. ask_keys (\<lambda>km. km_accountName km a)) am
      else (Inr '''', am))"

definition HasAccount :: "wallet_env \<Rightarrow> (account_manager, bool) action" where
  "HasAccount E = sbind (smodify (OpenWallet E)) (\<lambda>_. ask_keys (\<lambda>km. accounts km \<noteq> []))"

definition GetPrivate :: "wallet_env \<Rightarrow> bytes \<Rightarrow> (account_manager, bytes) action" where
  "GetPrivate E a = on_keys (run_unit (km_secret_address (env_host E) a DontKnowThrow True))"

section \<open>New keys\<close>

text \<open>A random secret is hashed until its address begins with a zero byte: the loop may run forever,
  then the value is \<open>None\<close>.\<close>

partial_function (option) MakeKey_loop :: "crypto_lib \<Rightarrow> KeyPair \<Rightarrow> KeyPair result option" where
  "MakeKey_loop L k =
     (if hd (m_address k) \<noteq> 0 then
        (case KeyPair_of L (sha3 (m_secret k)) of
           Inl e \<Rightarrow> Some (Inl e)
         | Inr k \<Rightarrow> MakeKey_loop L k)
      else Some (Inr k))"

definition MakeKey :: "crypto_lib \<Rightarrow> bytes \<Rightarrow> KeyPair result" where
  "MakeKey L seed =
     rbind (KeyPair_of L seed) (\<lambda>k. case MakeKey_loop L k of None \<Rightarrow> Inl Diverges | Some r \<Rightarrow> r)"

text \<open>The random values of an account: its first secret, the id and the salts of its key, and those of
  the keys file.\<close>

record account_random =
  rnd_secret :: bytes
  rnd_uuid :: bytes
  rnd_salt :: bytes
  rnd_iv :: bytes
  rnd_default :: bytes
  rnd_keys_salt :: bytes

definition CreateAccount :: "wallet_env \<Rightarrow> account_random \<Rightarrow> string \<Rightarrow> string \<Rightarrow> (account_manager, unit) action" where
  "CreateAccount E R name password =
     (let H = env_host E in
     sbind (smodify (OpenWallet E)) (\<lambda>_.
     sbind (slift (MakeKey (crypto H) (rnd_secret R))) (\<lambda>k.
     sbind (on_keys (km_import H (rnd_uuid R) (rnd_salt R) (rnd_iv R) (m_secret k) name password '''')) (\<lambda>u.
     sbind (slift (AddressEncodeBase58Check (lib_sha256 (crypto H)) (ToTronAddress (m_address k)))) (\<lambda>enc.
     sbind (smodify (set_pair (ToTronAddress (m_address k)) enc)) (\<lambda>_.
     sbind (ask_keys (km_exists H)) (\<lambda>ex.
       if ex then sreturn () else on_keys (create H (rnd_default R) (rnd_keys_salt R) password))))))))"

section \<open>Login\<close>

text \<open>The first key that the password decrypts becomes the account; its name is empty until the keys
  file is loaded.\<close>

definition store_secret :: "host \<Rightarrow> bytes \<Rightarrow> string \<Rightarrow> (key_manager, bytes) action" where
  "store_secret H u password km =
     (case secret_uuid H u (\<lambda>c. (Inr password, c)) True (m_store km) () of (r, st, _) \<Rightarrow> (r, km\<lparr>m_store := st\<rparr>))"

fun login_loop :: "wallet_env \<Rightarrow> string \<Rightarrow> bytes list \<Rightarrow> (account_manager, bytes) action" where
  "login_loop E password [] am = (Inr [], am)"
| "login_loop E password (u # us) am =
     (let H = env_host E in
     sbind (on_keys (store_secret H u password)) (\<lambda>s.
       if s \<noteq> [] then
         sbind (on_keys (importExisting H u '''' password '''')) (\<lambda>_.
         sbind (ask_keys (\<lambda>km. ToTronAddress (km_address km u))) (\<lambda>adr.
         sbind (slift (AddressEncodeBase58Check (lib_sha256 (crypto H)) adr)) (\<lambda>enc.
         sbind (smodify (set_pair adr enc)) (\<lambda>_. sreturn adr))))
       else login_loop E password us) am)"

definition Login :: "wallet_env \<Rightarrow> string \<Rightarrow> (account_manager, string) action" where
  "Login E password =
     sbind (smodify (OpenWallet E)) (\<lambda>_.
     sbind (ask_keys (\<lambda>km. ss_keys (m_store km))) (\<lambda>keys.
       if keys = [] then sreturn ''no account exist.''
       else
         sbind (login_loop E password keys) (\<lambda>adr.
           if adr = [] then sreturn ''password not right''
           else sbind (on_keys (\<lambda>km. case km_load (env_host E) password km of (b, km) \<Rightarrow> (Inr b, km))) (\<lambda>_. sreturn ''''))))"

section \<open>Addresses of the cold wallet\<close>

text \<open>\<open>emplace\<close> does not replace an entry.\<close>

definition emplace :: "'k \<Rightarrow> 'v \<Rightarrow> ('k \<times> 'v) list \<Rightarrow> ('k \<times> 'v) list" where
  "emplace k v m = (if map_of m k = None then al_put k v m else m)"

fun cold_dict :: "(bytes \<times> string) list \<Rightarrow> (bytes \<times> bytes) list \<Rightarrow> dict \<Rightarrow> dict" where
  "cold_dict lookup [] doc = doc"
| "cold_dict lookup ((u, key) # ps) doc =
     cold_dict lookup ps (case map_of lookup u of Some a \<Rightarrow> Dict_SetString doc a (toHex key) | None \<Rightarrow> doc)"

definition cold_file :: "wallet_env \<Rightarrow> bytes \<Rightarrow> string" where
  "cold_file E tron = ColdWalletPath E @ [CHR 0x5C] @ toHex tron"

text \<open>The file gets as many bytes as the plain text has: reading them from a shorter cipher is out of
  range.\<close>

definition write_cold :: "string \<Rightarrow> bytes \<Rightarrow> (key_manager, unit) action" where
  "write_cold path data km = (Inr (), km\<lparr>m_store := (m_store km)\<lparr>ss_disk := (ss_disk (m_store km))(path \<mapsto> data)\<rparr>\<rparr>)"

definition GenerateAddress :: "wallet_env \<Rightarrow> bytes \<Rightarrow> bytes \<Rightarrow> (account_manager, string) action" where
  "GenerateAddress E seed uuid =
     (let H = env_host E in
     sbind (smodify (OpenWallet E)) (\<lambda>_.
     sbind (slift (MakeKey (crypto H) seed)) (\<lambda>k.
     sbind (slift (AddressEncodeBase58Check (lib_sha256 (crypto H)) (ToTronAddress (m_address k)))) (\<lambda>adr.
     sbind (smodify (\<lambda>am. am\<lparr>address_lookup := emplace uuid adr (address_lookup am),
                            cached_keys := emplace uuid (m_secret k) (cached_keys am)\<rparr>)) (\<lambda>_ am.
       (let doc = cold_dict (address_lookup am) (cached_keys am) [];
            text = (case jio_write (env_json E) False (BDict doc) of Some s \<Rightarrow> s | None \<Rightarrow> '''')
        in sbind (slift (ToAddress (tron_address am))) (\<lambda>a.
           sbind (on_keys (km_encryptUseEncryptedKey H (asBytes text) a)) (\<lambda>cipher.
           sbind (slift (if length cipher < length text then Inl OutOfRange else Inr (take (length text) cipher))) (\<lambda>data.
           sbind (on_keys (write_cold (cold_file E (tron_address am)) data)) (\<lambda>_. sreturn adr)))) am))))))"

fun load_addresses :: "dict \<Rightarrow> bytes list \<Rightarrow> account_manager \<Rightarrow> account_manager" where
  "load_addresses ((adr, v) # es) (uuid # uuids) am =
     (case (adr, GetAsString v) of
        (_ # _, Some s) \<Rightarrow>
          load_addresses es uuids (am\<lparr>cached_keys := emplace uuid (fromHex s) (cached_keys am),
                                     address_lookup := emplace uuid adr (address_lookup am)\<rparr>)
      | _ \<Rightarrow> load_addresses es (uuid # uuids) am)"
| "load_addresses _ _ am = am"

definition LoadAddresses :: "wallet_env \<Rightarrow> bytes list \<Rightarrow> (account_manager, unit) action" where
  "LoadAddresses E uuids am =
     (if cached_keys am \<noteq> [] \<and> address_lookup am \<noteq> [] then (Inr (), am)
      else
        sbind (ask_keys (\<lambda>km. ss_disk (m_store km) (cold_file E (tron_address am)))) (\<lambda>file.
          case file of
            None \<Rightarrow> sreturn ()
          | Some data \<Rightarrow>
              sbind (slift (ToAddress (tron_address am))) (\<lambda>a.
              sbind (on_keys (km_decryptUseEncryptedKey (env_host E) data a)) (\<lambda>decrypted.
                case jio_read (env_json E) decrypted of
                  Some (BDict doc) \<Rightarrow> smodify (load_addresses doc uuids)
                | _ \<Rightarrow> sreturn ()))) am)"

definition GetAddresses :: "wallet_env \<Rightarrow> bytes list \<Rightarrow> (account_manager, string list) action" where
  "GetAddresses E uuids am =
     sbind (if cached_keys am = [] \<or> address_lookup am = [] then LoadAddresses E uuids else sreturn ())
       (\<lambda>_ am. (Inr (map snd (address_lookup am)), am)) am"

definition LookupPrivate :: "string \<Rightarrow> account_manager \<Rightarrow> bytes" where
  "LookupPrivate adr am =
     (case find (\<lambda>p. snd p = adr) (address_lookup am) of
        None \<Rightarrow> hash_empty 32
      | Some p \<Rightarrow>
          (case map_of (cached_keys am) (fst p) of
             None \<Rightarrow> hash_empty 32
           | Some key \<Rightarrow> hash_of_bytes 32 FailIfDifferent key))"

end
