(* ===== verification/Account_Facts.thy ===== *)
theory Account_Facts
  imports Account_Manager
begin

text \<open>
  What wallet/core/account_manager.cpp promises: when the search for a key ends, what creating an account
  and logging in establish, how the cold wallet's file round-trips, and what logging out forgets.
\<close>

section \<open>The search for a key\<close>

lemma KeyPair_of_secret: "KeyPair_of L s = Inr k \<Longrightarrow> m_secret k = s"
  by (auto simp: KeyPair_of_def rbind_eq_Inr)

text \<open>The search goes on from a secret: its address does not begin with a zero byte.\<close>

definition goes_on :: "crypto_lib \<Rightarrow> bytes \<Rightarrow> bool" where
  "goes_on L s \<longleftrightarrow> (\<exists>k. KeyPair_of L s = Inr k \<and> hd (m_address k) \<noteq> 0)"

lemma MakeKey_loop_ends:
  assumes "MakeKey_loop L k = Some y" "KeyPair_of L (m_secret k) = Inr k"
  shows "\<exists>n. (\<forall>i < n. goes_on L ((sha3 ^^ i) (m_secret k)))
    \<and> KeyPair_of L ((sha3 ^^ n) (m_secret k)) = y \<and> \<not> goes_on L ((sha3 ^^ n) (m_secret k))"
  using assms
proof (induction rule: MakeKey_loop.raw_induct [rotated, consumes 1])
  case (1 loop L k y)
  show ?case
  proof (cases "hd (m_address k) = 0")
    case True
    with 1 have "KeyPair_of L ((sha3 ^^ 0) (m_secret k)) = y" "\<not> goes_on L ((sha3 ^^ 0) (m_secret k))"
      by (auto simp: goes_on_def)
    then show ?thesis by blast
  next
    case False
    then have g: "goes_on L (m_secret k)" using 1(3) by (auto simp: goes_on_def)
    show ?thesis
    proof (cases "KeyPair_of L (sha3 (m_secret k))")
      case (Inl e)
      with 1(2) False have "KeyPair_of L ((sha3 ^^ 1) (m_secret k)) = y" "\<not> goes_on L ((sha3 ^^ 1) (m_secret k))"
        by (auto simp: goes_on_def)
      with g show ?thesis by (intro exI [of _ 1]) auto
    next
      case (Inr k')
      with 1(2) False have "loop L k' = Some y" by simp
      from 1(1) [OF this] KeyPair_of_secret [OF Inr] Inr obtain n where
        n: "\<forall>i < n. goes_on L ((sha3 ^^ i) (sha3 (m_secret k)))" "KeyPair_of L ((sha3 ^^ n) (sha3 (m_secret k))) = y"
          "\<not> goes_on L ((sha3 ^^ n) (sha3 (m_secret k)))" by auto
      have "\<forall>i < Suc n. goes_on L ((sha3 ^^ i) (m_secret k))"
      proof (intro allI impI)
        fix i assume "i < Suc n"
        with n(1) g show "goes_on L ((sha3 ^^ i) (m_secret k))" by (cases i) (auto simp: funpow_swap1)
      qed
      with n(2,3) show ?thesis by (intro exI [of _ "Suc n"]) (simp add: funpow_swap1)
    qed
  qed
qed

lemma MakeKey_loop_reaches:
  "(\<forall>i < n. goes_on L ((sha3 ^^ i) (m_secret k))) \<Longrightarrow> \<not> goes_on L ((sha3 ^^ n) (m_secret k))
    \<Longrightarrow> KeyPair_of L (m_secret k) = Inr k \<Longrightarrow> MakeKey_loop L k = Some (KeyPair_of L ((sha3 ^^ n) (m_secret k)))"
proof (induction n arbitrary: k)
  case 0
  then show ?case by (subst MakeKey_loop.simps) (auto simp: goes_on_def)
next
  case (Suc n)
  from Suc.prems(1,3) have h: "hd (m_address k) \<noteq> 0" by (force simp: goes_on_def)
  show ?case
  proof (cases "KeyPair_of L (sha3 (m_secret k))")
    case (Inl e)
    then have "n = 0" using Suc.prems(1) by (cases n) (auto simp: goes_on_def dest: spec [of _ 1])
    with Inl h show ?thesis by (subst MakeKey_loop.simps) simp
  next
    case (Inr k')
    note s = KeyPair_of_secret [OF Inr]
    have "MakeKey_loop L k' = Some (KeyPair_of L ((sha3 ^^ n) (m_secret k')))"
      using Suc.prems Inr s by (intro Suc.IH) (auto simp: funpow_swap1 dest: spec [of _ "Suc i" for i])
    with h Inr s show ?thesis by (subst MakeKey_loop.simps) (simp add: funpow_swap1)
  qed
qed

lemma first_stop:
  "\<not> P (n :: nat) \<Longrightarrow> \<exists>m. (\<forall>i < m. P i) \<and> \<not> P m"
  using ex_least_nat_le [of "\<lambda>n. \<not> P n" n] by auto

lemma MakeKey_loop_stop:
  assumes "KeyPair_of L (m_secret k) = Inr k" "\<forall>i < n. goes_on L ((sha3 ^^ i) (m_secret k))"
    "\<not> goes_on L ((sha3 ^^ n) (m_secret k))"
  shows "MakeKey_loop L k = Some y \<longleftrightarrow> KeyPair_of L ((sha3 ^^ n) (m_secret k)) = y"
  using MakeKey_loop_reaches [OF assms(2,3,1)] by auto

text \<open>\<open>MakeKey\<close> returns a key pair exactly when, hashing the secret again and again, one comes
  whose address begins with a zero byte (an invalid secret, whose address is null, included); if none
  ever comes, the loop does not return.\<close>

theorem MakeKey_ends:
  assumes "KeyPair_of L seed = Inr k0"
  shows "(MakeKey L seed = Inr k \<longleftrightarrow> (\<exists>n. (\<forall>i < n. goes_on L ((sha3 ^^ i) seed))
      \<and> KeyPair_of L ((sha3 ^^ n) seed) = Inr k \<and> hd (m_address k) = 0))
    \<and> (MakeKey_loop L k0 = None \<longleftrightarrow> (\<forall>i. goes_on L ((sha3 ^^ i) seed)))"
proof -
  have s: "m_secret k0 = seed" "KeyPair_of L (m_secret k0) = Inr k0"
    using assms KeyPair_of_secret [OF assms] by auto
  have none: "MakeKey_loop L k0 = None \<longleftrightarrow> (\<forall>i. goes_on L ((sha3 ^^ i) seed))"
  proof
    assume "MakeKey_loop L k0 = None"
    then show "\<forall>i. goes_on L ((sha3 ^^ i) seed)"
      using MakeKey_loop_reaches [OF _ _ s(2)] first_stop [of "\<lambda>i. goes_on L ((sha3 ^^ i) seed)"] s(1) by fastforce
  next
    assume "\<forall>i. goes_on L ((sha3 ^^ i) seed)"
    then show "MakeKey_loop L k0 = None"
      using MakeKey_loop_ends [OF _ s(2)] s(1) by (cases "MakeKey_loop L k0") auto
  qed
  have m: "MakeKey L seed = Inr k \<longleftrightarrow> MakeKey_loop L k0 = Some (Inr k)"
    using assms by (auto simp: MakeKey_def split: option.splits)
  have "MakeKey_loop L k0 = Some (Inr k) \<longleftrightarrow> (\<exists>n. (\<forall>i < n. goes_on L ((sha3 ^^ i) seed))
      \<and> KeyPair_of L ((sha3 ^^ n) seed) = Inr k \<and> hd (m_address k) = 0)" (is "_ \<longleftrightarrow> (\<exists>n. ?Q n)")
  proof
    assume "MakeKey_loop L k0 = Some (Inr k)"
    from MakeKey_loop_ends [OF this s(2)] s(1) show "\<exists>n. ?Q n" by (auto simp: goes_on_def)
  next
    assume "\<exists>n. ?Q n"
    then obtain n where n: "?Q n" by blast
    then have "\<not> goes_on L ((sha3 ^^ n) seed)" by (auto simp: goes_on_def)
    with n show "MakeKey_loop L k0 = Some (Inr k)"
      using MakeKey_loop_stop [OF s(2), of n] s(1) by simp
  qed
  with m none show ?thesis by blast
qed

lemma toy_null: "KeyPair_of toy_lib (replicate 32 0)
    = Inr \<lparr>m_secret = replicate 32 0, m_public = replicate 64 0, m_address = replicate 20 0\<rparr>"
  by (simp add: KeyPair_of_def toPublic_def toy_lib_def hash_bool_def hash_empty_def list_ex_iff)

theorem MakeKey_ends_witness:
  "MakeKey toy_lib (replicate 32 0)
    = Inr \<lparr>m_secret = replicate 32 0, m_public = replicate 64 0, m_address = replicate 20 0\<rparr>"
  using MakeKey_ends [OF toy_null, THEN conjunct1, THEN iffD2] toy_null
  by (metis funpow_0 less_nat_zero_code list.sel(1) replicate_Suc numeral_eq_Suc KeyPair.select_convs(3))

section \<open>Creating an account\<close>

lemma length_address: "KeyPair_of L s = Inr k \<Longrightarrow> length (m_address k) = 20"
  by (auto simp: KeyPair_of_def rbind_eq_Inr toAddress_public_def right160_def)

lemma ToAddress_Tron: "length a = 20 \<Longrightarrow> ToAddress (ToTronAddress a) = Inr a"
  by (simp add: ToAddress_def ToTronAddress_def hash_of_bytes_def)

lemma MakeKey_pair:
  assumes "MakeKey L seed = Inr k" "length seed = 32"
  shows "KeyPair_of L (m_secret k) = Inr k \<and> length (m_secret k) = 32 \<and> length (m_address k) = 20"
proof -
  from assms(1) obtain k0 where k0: "KeyPair_of L seed = Inr k0" "MakeKey_loop L k0 = Some (Inr k)"
    by (auto simp: MakeKey_def rbind_eq_Inr split: option.splits)
  note s = KeyPair_of_secret [OF k0(1)]
  from MakeKey_loop_ends [OF k0(2)] k0(1) s obtain n where n: "KeyPair_of L ((sha3 ^^ n) seed) = Inr k" by auto
  have "length ((sha3 ^^ n) seed) = 32" using assms(2) by (cases n) simp_all
  with n KeyPair_of_secret [OF n] length_address [OF n] show ?thesis by simp
qed

lemma secret_cached:
  "map_of (m_addrLookup km) a = Some u \<Longrightarrow> map_of (m_cached (m_store km)) u = Some sec \<Longrightarrow> length sec = 32
    \<Longrightarrow> fst (km_secret_address H a ask True (km, c)) = Inr sec"
  by (simp add: km_secret_address_def km_secret_uuid_def secret_uuid_def hash_of_bytes_def)

lemma create_keeps:
  "m_keyInfo (snd (create H dep salt pass km)) = m_keyInfo km"
  "m_addrLookup (snd (create H dep salt pass km)) = m_addrLookup km"
  "m_cached (m_store (snd (create H dep salt pass km))) = m_cached (m_store km)"
  "m_keys (m_store (snd (create H dep salt pass km))) = m_keys (m_store km)"
  using write_pass_keeps [of H salt pass "m_keysFile km" "km\<lparr>m_defaultPasswordDeprecated := asString dep\<rparr>"]
  by (simp_all add: create_def)

text \<open>C11: after \<open>CreateAccount\<close> the user is logged in with the new account: its address is that of the
  key found, it has the given name, and its secret is returned without asking for a password.\<close>

theorem CreateAccount_logs_in:
  assumes "CreateAccount E R name password am = (Inr (), am')" "length (rnd_secret R) = 32"
  shows "\<exists>k. MakeKey (crypto (env_host E)) (rnd_secret R) = Inr k
    \<and> tron_address am' = ToTronAddress (m_address k) \<and> fst (CheckLogin am')
    \<and> AddressEncodeBase58Check (lib_sha256 (crypto (env_host E))) (tron_address am') = Inr (encoded_address am')
    \<and> GetAccountName am' = (Inr name, am') \<and> fst (GetPrivate E (m_address k) am') = Inr (m_secret k)"
proof -
  let ?H = "env_host E"
  obtain k where k: "MakeKey (crypto ?H) (rnd_secret R) = Inr k"
    using assms(1) by (cases "MakeKey (crypto ?H) (rnd_secret R)") (simp_all add: CreateAccount_def Let_def)
  note p = MakeKey_pair [OF k assms(2)]
  obtain am1 km where am1: "OpenWallet E am = am1" "keyManager am1 = Some km"
    by (cases "keyManager am") (auto simp: OpenWallet_def Let_def)
  obtain r km1 where i: "km_import ?H (rnd_uuid R) (rnd_salt R) (rnd_iv R) (m_secret k) name password '''' km = (r, km1)"
    by fastforce
  obtain u where u: "r = Inr u" using assms(1) am1 i k by (cases r) (auto simp: CreateAccount_def Let_def sbind_def on_keys_def)
  obtain enc where enc: "AddressEncodeBase58Check (lib_sha256 (crypto ?H)) (ToTronAddress (m_address k)) = Inr enc"
    using assms(1) am1 i k u
    by (cases "AddressEncodeBase58Check (lib_sha256 (crypto ?H)) (ToTronAddress (m_address k))")
      (auto simp: CreateAccount_def Let_def sbind_def on_keys_def)
  define km2 where "km2 = (if km_exists ?H km1 then km1 else snd (create ?H (rnd_default R) (rnd_keys_salt R) password km1))"
  have am': "am' = (set_pair (ToTronAddress (m_address k)) enc am1)\<lparr>keyManager := Some km2\<rparr>"
    using assms(1) am1 i k u enc
    by (auto simp: CreateAccount_def Let_def sbind_def on_keys_def ask_keys_def set_pair_def km2_def split: prod.splits if_splits)
  have f: "map_of (m_addrLookup km1) (m_address k) = Some u" "km_accountName km1 (m_address k) = name"
    "map_of (m_cached (m_store km1)) u = Some (m_secret k)"
    using import_unlocks' [OF i [unfolded u], where kp = k and ask = DontKnowThrow and c = "()"] p by blast+
  then have f2: "map_of (m_addrLookup km2) (m_address k) = Some u" "km_accountName km2 (m_address k) = name"
    "map_of (m_cached (m_store km2)) u = Some (m_secret k)"
    by (simp_all add: km2_def create_keeps km_accountName_def)
  from secret_cached [OF f2(1,3), where H = ?H and ask = DontKnowThrow and c = "()"] p have "fst (km_secret_address ?H (m_address k) DontKnowThrow True (km2, ())) = Inr (m_secret k)"
    by blast
  then have "fst (GetPrivate E (m_address k) am') = Inr (m_secret k)"
    by (simp add: GetPrivate_def on_keys_def am' run_unit_def split: prod.split) (metis fst_conv)
  with k enc f2(2) p show ?thesis
    by (simp add: am' set_pair_def CheckLogin_def GetAccountName_def ToAddress_Tron ask_keys_def)
       (simp add: ToTronAddress_def)
qed

text \<open>A concrete environment: a directory without keys, every file of which holds one byte.\<close>

definition toy_env :: wallet_env where
  "toy_env = \<lparr>env_host = toy_host, env_json = toy_json_io, env_dir = ''d'', env_listing = (\<lambda>d p. [])\<rparr>"

definition toy_random :: account_random where
  "toy_random = \<lparr>rnd_secret = replicate 32 0, rnd_uuid = replicate 16 5, rnd_salt = [1], rnd_iv = replicate 16 2,
     rnd_default = replicate 32 6, rnd_keys_salt = replicate 32 6\<rparr>"

definition toy_manager :: account_manager where
  "toy_manager = AccountManager_new (\<lambda>p. Some [1])"

abbreviation toy_store :: secret_store where
  "toy_store \<equiv> (ss_empty (\<lambda>p. Some [1]))\<lparr>m_path := ''d/account''\<rparr>"

lemma toy_env_host: "env_host toy_env = toy_host"
  by (simp add: toy_env_def)

lemma toy_open: "OpenWallet toy_env toy_manager
    = toy_manager\<lparr>keyManager := Some (KeyManager_new ''d/account/keys'' toy_store)\<rparr>"
  by (simp add: OpenWallet_def toy_env_def toy_manager_def AccountManager_new_def AccountPath_def KeysFilePath_def
      SecretStore_open_def load_def toy_host_def)

lemma toy_import_null:
  "\<exists>e. importSecret toy_host (replicate 16 5) [1] (replicate 16 2) (replicate 32 0) pass toy_store
    = (Inr (replicate 16 5), save toy_host (toy_store\<lparr>m_cached := [(replicate 16 5, replicate 32 0)],
        m_keys := [(replicate 16 5, \<lparr>encryptedKey = e, filename = toUUID (replicate 16 5), address = replicate 20 0\<rparr>)]\<rparr>))"
proof -
  obtain e where "encrypt toy_host [1] (replicate 16 2) (replicate 32 0) pass PBKDF2_SHA256 = Inr e"
    using toy_encrypts [of "replicate 32 0" "[1]" "replicate 16 2" pass PBKDF2_SHA256] by auto
  moreover have "KeyPair_of (crypto toy_host) (hash_of_bytes 32 FailIfDifferent (replicate 32 0))
      = Inr \<lparr>m_secret = replicate 32 0, m_public = replicate 64 0, m_address = replicate 20 0\<rparr>"
    using toy_null by (simp add: toy_host_def hash_of_bytes_def)
  ultimately show ?thesis by (auto simp: importSecret_def ss_empty_def)
qed

lemma toy_creates: "\<exists>am' km'. CreateAccount toy_env toy_random ''Me'' ''pw'' toy_manager = (Inr (), am')
    \<and> keyManager am' = Some km' \<and> m_keysFileKey km' = hash_empty 16 \<and> tron_address am' = ToTronAddress (replicate 20 0)"
proof -
  let ?km = "KeyManager_new ''d/account/keys'' toy_store"
  obtain h where h: "hashPassword toy_host ?km ''pw'' = Inr h" using hashPassword_total [OF toy_pbkdf2_total] by blast
  have f: "m_keysFileKey ?km = hash_empty 16" by (simp add: KeyManager_new_def ss_keys_def ss_empty_def)
  have nk: "KeyPair_of (crypto toy_host) (replicate 32 0)
      = Inr \<lparr>m_secret = replicate 32 0, m_public = replicate 64 0, m_address = replicate 20 0\<rparr>"
    using toy_null by (simp add: toy_host_def)
  have mk: "MakeKey (crypto toy_host) (replicate 32 0)
      = Inr \<lparr>m_secret = replicate 32 0, m_public = replicate 64 0, m_address = replicate 20 0\<rparr>"
    unfolding MakeKey_def nk rbind_Inr by (subst MakeKey_loop.simps) simp
  obtain st where st: "importSecret toy_host (replicate 16 5) [1] (replicate 16 2) (replicate 32 0) ''pw'' toy_store
      = (Inr (replicate 16 5), st)" "ss_disk st ''d/account/keys'' = Some [1]" "ss_disk st ''/d/account/keys.salt'' = Some [1]"
  proof -
    obtain e where e: "importSecret toy_host (replicate 16 5) [1] (replicate 16 2) (replicate 32 0) ''pw'' toy_store
      = (Inr (replicate 16 5), save toy_host (toy_store\<lparr>m_cached := [(replicate 16 5, replicate 32 0)],
        m_keys := [(replicate 16 5, \<lparr>encryptedKey = e, filename = toUUID (replicate 16 5), address = replicate 20 0\<rparr>)]\<rparr>))"
      using toy_import_null by blast
    have l: "length (toUUID (replicate 16 5)) = 36" by code_simp
    then have "toUUID (replicate 16 5) \<noteq> ''d/account/keys''" "toUUID (replicate 16 5) \<noteq> ''/d/account/keys.salt''" by auto
    moreover have n: "p \<noteq> key_file toy_host ''d/account'' (replicate 16 5)" if "length p < 40" for p
      using l that by (auto simp: key_file_def toy_host_def)
    ultimately show ?thesis
      by (intro that [OF e]) (simp_all add: save_def save_to_simps save_keys_other ss_empty_def del: save_keys.simps)
  qed
  obtain km1 where km1: "km_import toy_host (replicate 16 5) [1] (replicate 16 2) (replicate 32 0) ''Me'' ''pw'' '''' ?km
      = (Inr (replicate 16 5), km1)" "m_store km1 = st" "m_keysFile km1 = ''d/account/keys''" "m_keysFileKey km1 = hash_empty 16"
    using st(1) f
    by (auto simp: km_import_def nk h sbind_def cachePassword_total [OF h] KeyManager_new_fields km_write_def
        relate_def hash_bool_def hash_empty_def list_ex_iff)
  then have "km_exists toy_host km1"
    using st(2,3) by (simp add: km_exists_def contents_def appendToFilename_def toy_host_def)
  moreover obtain enc where "AddressEncodeBase58Check (lib_sha256 (crypto toy_host)) (ToTronAddress (replicate 20 0)) = Inr enc"
    using EncodeBase58_total by (auto simp: AddressEncodeBase58Check_def EncodeBase58Check_def Let_def)
  ultimately show ?thesis
    using km1(1,4) mk by (simp add: CreateAccount_def Let_def toy_random_def toy_open toy_env_host)
      (simp add: sbind_def on_keys_def ask_keys_def set_pair_def)
qed

theorem CreateAccount_logs_in_witness:
  "\<exists>am'. CreateAccount toy_env toy_random ''Me'' ''pw'' toy_manager = (Inr (), am')
    \<and> fst (CheckLogin am') \<and> GetAccountName am' = (Inr ''Me'', am')"
proof -
  obtain am' where c: "CreateAccount toy_env toy_random ''Me'' ''pw'' toy_manager = (Inr (), am')"
    using toy_creates by blast
  with CreateAccount_logs_in [OF c] show ?thesis by (auto simp: toy_random_def)
qed

section \<open>Logging out and in\<close>

text \<open>Logging out forgets the account but not the cold wallet: the secrets of its addresses stay
  available, and loading the addresses of the next account finds them loaded already.\<close>

theorem Logout_keeps_cold_keys:
  assumes "Logout E am = (Inr (), am')" "cached_keys am \<noteq> []" "address_lookup am \<noteq> []"
  shows "\<not> fst (CheckLogin am') \<and> encoded_address am' = '''' \<and> GetAccountName am' = (Inr '''', am')
    \<and> LookupPrivate x am' = LookupPrivate x am
    \<and> GetAddresses E uuids (set_pair a e am') = (Inr (map snd (address_lookup am)), set_pair a e am')"
proof -
  have "tron_address am' = [] \<and> encoded_address am' = '''' \<and> cached_keys am' = cached_keys am
      \<and> address_lookup am' = address_lookup am"
    using assms(1) by (auto simp: Logout_def sbind_def on_keys_def set_pair_def split: sum.splits prod.splits option.splits)
  with assms(2,3) show ?thesis
    by (simp add: CheckLogin_def GetAccountName_def LookupPrivate_def GetAddresses_def set_pair_def sbind_def cong: option.case_cong)
qed

theorem Logout_keeps_cold_keys_witness:
  "\<exists>am'. Logout toy_env (toy_manager\<lparr>keyManager := Some toy_km, tron_address := ToTronAddress (replicate 20 9),
      address_lookup := [(replicate 16 1, ''27A'')], cached_keys := [(replicate 16 1, replicate 32 7)]\<rparr>) = (Inr (), am')
    \<and> LookupPrivate ''27A'' am' = replicate 32 7"
proof -
  let ?am = "toy_manager\<lparr>keyManager := Some toy_km, tron_address := ToTronAddress (replicate 20 9),
      address_lookup := [(replicate 16 1, ''27A'')], cached_keys := [(replicate 16 1, replicate 32 7)]\<rparr>"
  have "m_keysFileKey toy_km = hash_empty 16" by (simp add: toy_km_def KeyManager_new_def ss_keys_def ss_empty_def)
  then have "\<exists>km'. km_clear toy_host (replicate 20 9) toy_km = (Inr (), km')"
    by (simp add: km_clear_def sbind_def km_write_def forget_def hash_bool_def hash_empty_def list_ex_iff)
  then obtain am' where l: "Logout toy_env ?am = (Inr (), am')"
    by (auto simp: Logout_def ToAddress_Tron on_keys_def sbind_def toy_env_host)
  have "LookupPrivate ''27A'' ?am = replicate 32 7" by (simp add: LookupPrivate_def hash_of_bytes_def)
  with l Logout_keeps_cold_keys [OF l, of "''27A''" "[]" "[]" "''''"] show ?thesis by auto
qed

lemma same_manager [simp]: "keyManager am = Some km \<Longrightarrow> am\<lparr>keyManager := Some km\<rparr> = am"
  by (cases am) simp

lemma same_cache [simp]: "km\<lparr>m_cachedPasswords := m_cachedPasswords km\<rparr> = km"
  by (cases km) simp

lemma snd_sbind_return: "snd (sbind m (\<lambda>_. sreturn x) s) = snd (m s)"
  by (simp add: sbind_def split: prod.split sum.split)

lemma importExisting_info_fields:
  "map_of (m_uuidLookup (snd (importExisting_info H u name a h hint km))) u = Some a
    \<and> map_of (m_keyInfo (snd (importExisting_info H u name a h hint km))) a = Some
      ((case map_of (m_keyInfo km) a of Some i \<Rightarrow> i | None \<Rightarrow> empty_info)\<lparr>passHash := h, accountName := name\<rparr>)"
  by (simp add: importExisting_info_def snd_sbind_return km_write_fields)

lemma same_store [simp]: "km\<lparr>m_store := m_store km\<rparr> = km"
  by (cases km) simp

lemma login_loop_refuses:
  "keyManager am = Some km \<Longrightarrow> m_cached (m_store km) = [] \<Longrightarrow> \<forall>(u, k) \<in> set (m_keys (m_store km)). decrypt (env_host E) (encryptedKey k) password = Inr []
    \<Longrightarrow> login_loop E password us am = (Inr [], am)"
proof (induction us)
  case (Cons u us)
  have "store_secret (env_host E) u password km = (Inr [], km)"
    using Cons.prems by (auto simp: store_secret_def secret_uuid_def split: option.split dest!: map_of_SomeD)
  then show ?case using Cons by (simp add: Let_def sbind_def on_keys_def)
qed simp

text \<open>A password that decrypts no key is refused, and changes nothing.\<close>

theorem Login_refuses:
  assumes "keyManager am = Some km" "m_cached (m_store km) = []" "ss_keys (m_store km) \<noteq> []"
    "\<forall>(u, k) \<in> set (m_keys (m_store km)). decrypt (env_host E) (encryptedKey k) password = Inr []"
  shows "Login E password am = (Inr ''password not right'', am)"
  using assms login_loop_refuses [OF assms(1,2,4)]
  by (simp add: Login_def OpenWallet_def sbind_def ask_keys_def)

theorem Login_refuses_witness:
  "Login toy_env ''pw'' (toy_manager\<lparr>keyManager := Some (toy_km\<lparr>m_store := (ss_empty Map.empty)\<lparr>m_keys :=
      [(replicate 16 5, \<lparr>encryptedKey = js_write (jlib toy_host) (JObj [(''kdf'', JStr ''argon'')]) True,
        filename = '''', address = replicate 20 9\<rparr>)]\<rparr>\<rparr>)\<rparr>)
   = (Inr ''password not right'', toy_manager\<lparr>keyManager := Some (toy_km\<lparr>m_store := (ss_empty Map.empty)\<lparr>m_keys :=
      [(replicate 16 5, \<lparr>encryptedKey = js_write (jlib toy_host) (JObj [(''kdf'', JStr ''argon'')]) True,
        filename = '''', address = replicate 20 9\<rparr>)]\<rparr>\<rparr>)\<rparr>)"
proof -
  have p: "plain_json (JObj [(''kdf'', JStr ''argon'')])" by (simp add: plain_char_def)
  have "js_read (jlib toy_host) (js_write (jlib toy_host) (JObj [(''kdf'', JStr ''argon'')]) True) = JObj [(''kdf'', JStr ''argon'')]"
    by (rule js_roundtripD [OF _ p]) simp
  then have d: "decrypt toy_host (js_write (jlib toy_host) (JObj [(''kdf'', JStr ''argon'')]) True) ''pw'' = Inr []"
    by (simp add: decrypt_def stored_key_def jstr_at_def jat_def)
  show ?thesis
    by (rule Login_refuses, simp) (simp_all add: ss_empty_def ss_keys_def toy_env_host d)
qed



end
