(* ===== verification/Transaction_Manager.thy ===== *)
theory Transaction_Manager
  imports Json_File Secret_Store_Facts
begin

text \<open>
  wallet/core/transaction_manager.cpp: transactions and votes that are kept in files, to be signed on
  another computer. A transaction is a protobuf message: its serialization and parser are generated
  code, the fields of \<open>tx_codec\<close>.
\<close>

record 'tx tx_codec =
  SerializeAsString :: "'tx \<Rightarrow> bytes"
  ParseFromArray :: "bytes \<Rightarrow> 'tx option"

definition codec_ok :: "'tx tx_codec \<Rightarrow> bool" where
  "codec_ok T \<longleftrightarrow> (\<forall>t. ParseFromArray T (SerializeAsString T t) = Some t)"

section \<open>Status\<close>

datatype TransactionStatus = SAVE | SIGN | BROADCAST

definition GetBtnText :: "TransactionStatus \<Rightarrow> string" where
  "GetBtnText s = (case s of SAVE \<Rightarrow> ''Save'' | SIGN \<Rightarrow> ''Sign'' | BROADCAST \<Rightarrow> ''Broadcast'')"

section \<open>Transactions\<close>

text \<open>The file is named after the first seven hexadecimal digits of the serialized message.\<close>

definition transaction_path :: "string \<Rightarrow> string \<Rightarrow> string" where
  "transaction_path dir hex = dir @ [CHR 0x5C] @ take 7 hex @ ''.json''"

definition SaveTransaction :: "json_io \<Rightarrow> 'tx tx_codec \<Rightarrow> string \<Rightarrow> 'tx \<Rightarrow> disk \<Rightarrow> bool \<times> disk" where
  "SaveTransaction J T dir t d =
     (let hex = toHex (SerializeAsString T t)
      in JSONFile_Serialize J (transaction_path dir hex) (BDict (Dict_SetString [] ''hex'' hex)) d)"

definition LoadTransaction :: "json_io \<Rightarrow> 'tx tx_codec \<Rightarrow> string \<Rightarrow> disk \<Rightarrow> 'tx option" where
  "LoadTransaction J T path d =
     (case JSONFile_Deserialize J path d of
        Some (BDict root) \<Rightarrow>
          (case Dict_GetString root ''hex'' of
             Some hex \<Rightarrow> ParseFromArray T (fromHex hex)
           | None \<Rightarrow> None)
      | _ \<Rightarrow> None)"

section \<open>Votes\<close>

text \<open>\<open>address_url\<close> is a \<open>std::map\<close> from the witness' address to its web page.\<close>

record 'tx VoteData =
  vote_transaction :: "'tx option"
  address_url :: "(string \<times> string) list"

fun vote_map :: "(string \<times> string) list \<Rightarrow> dict \<Rightarrow> dict" where
  "vote_map [] m = m"
| "vote_map ((a, u) # ps) m = vote_map ps (Dict_SetString m a u)"

text \<open>The null transaction is dereferenced.\<close>

definition SaveVote :: "json_io \<Rightarrow> 'tx tx_codec \<Rightarrow> string \<Rightarrow> 'tx VoteData \<Rightarrow> disk \<Rightarrow> (bool \<times> disk) result" where
  "SaveVote J T dir v d =
     (case vote_transaction v of
        None \<Rightarrow> Inl NullDeref
      | Some t \<Rightarrow>
          (let hex = toHex (SerializeAsString T t);
               details = Dict_SetString [] ''hex'' hex;
               details = Dict_Set details ''map'' (BDict (vote_map (address_url v) []))
           in Inr (JSONFile_Serialize J (transaction_path dir hex) (BDict details) d)))"

text \<open>The entry \<open>map\<close> is cast to a dictionary without a test: of another type it is undefined behaviour,
  here an error.\<close>

fun load_map :: "dict \<Rightarrow> (string \<times> string) list \<Rightarrow> (string \<times> string) list" where
  "load_map [] m = m"
| "load_map ((k, v) # es) m =
     load_map es (case GetAsString v of
        Some u \<Rightarrow> if map_of m k = None then map_put k u m else m
      | None \<Rightarrow> m)"

definition LoadVote :: "json_io \<Rightarrow> 'tx tx_codec \<Rightarrow> string \<Rightarrow> disk \<Rightarrow> 'tx VoteData result" where
  "LoadVote J T path d =
     (let nothing = \<lparr>vote_transaction = None, address_url = []\<rparr> in
      case JSONFile_Deserialize J path d of
        Some (BDict root) \<Rightarrow>
          (case Dict_GetString root ''hex'' of
             None \<Rightarrow> Inr nothing
           | Some hex \<Rightarrow>
               (case ParseFromArray T (fromHex hex) of
                  None \<Rightarrow> Inr nothing
                | Some t \<Rightarrow>
                    (case Dict_Get root ''map'' of
                       None \<Rightarrow> Inr \<lparr>vote_transaction = Some t, address_url = []\<rparr>
                     | Some (BDict m) \<Rightarrow> Inr \<lparr>vote_transaction = Some t, address_url = load_map m []\<rparr>
                     | Some _ \<Rightarrow> Inl BadCast)))
      | _ \<Rightarrow> Inr nothing)"

section \<open>Lemmas\<close>

lemma plain_key [simp]:
  "CHR ''.'' \<notin> set k \<Longrightarrow> Dict_Get d k = map_of d k"
  "CHR ''.'' \<notin> set k \<Longrightarrow> Dict_Set d k v = map_put k v d"
  by (simp_all add: Dict_Get.simps Dict_Set.simps cut_path_None_iff [THEN iffD2])

lemma ascii_toHex: "ascii (toHex b)"
  unfolding ascii_def
proof
  fix c assume "c \<in> set (toHex b)"
  then have "plain_char c" using plain_toHex [of b] by (auto simp: list_all_iff)
  then show "(of_char c :: nat) < 128" by (simp add: plain_char_def)
qed

lemma LoadTransaction_of:
  assumes "JSONFile_Deserialize J path d = Some (BDict x)" "Dict_GetString x ''hex'' = Some (toHex (SerializeAsString T t))"
    "codec_ok T"
  shows "LoadTransaction J T path d = Some t"
  using assms by (simp add: LoadTransaction_def codec_ok_def)

lemma flat_hex: "json_io_ok J \<Longrightarrow> flat_dict (jio_utf8 J) [(''hex'', BString (toHex b))]"
  by (simp add: flat_dict_def ordered_keys_def json_io_ascii ascii_toHex) (simp add: json_io_ascii ascii_def)

lemma SaveTransaction_loads:
  assumes "json_io_ok J" "codec_ok T" "jio_can_open J (transaction_path dir (toHex (SerializeAsString T t)))"
  shows "\<exists>d'. SaveTransaction J T dir t d = (True, d')
    \<and> LoadTransaction J T (transaction_path dir (toHex (SerializeAsString T t))) d' = Some t
    \<and> (\<forall>q. q \<noteq> transaction_path dir (toHex (SerializeAsString T t)) \<longrightarrow> d' q = d q)"
proof -
  let ?x = "[(''hex'', BString (toHex (SerializeAsString T t)))]"
  from assms(1) have x: "text_dict (jio_utf8 J) ?x" by (intro flat_text_dict flat_hex)
  from file_roundtrip [OF assms(1) x assms(3), of d] show ?thesis
    by (auto simp: SaveTransaction_def Let_def Dict_SetString_def Dict_GetString_def GetAsString_def
        intro!: LoadTransaction_of [OF _ _ assms(2)])
qed

section \<open>Properties\<close>

text \<open>A saved transaction is loaded back from the file it was saved to; if the file cannot be
  opened, saving reports it and changes nothing.\<close>

theorem SaveTransaction_roundtrip:
  assumes "json_io_ok J" "codec_ok T" "path = transaction_path dir (toHex (SerializeAsString T t))"
  shows "(jio_can_open J path \<longrightarrow> (\<exists>d'. SaveTransaction J T dir t d = (True, d') \<and> LoadTransaction J T path d' = Some t
      \<and> (\<forall>q. q \<noteq> path \<longrightarrow> d' q = d q)))
    \<and> (\<not> jio_can_open J path \<longrightarrow> SaveTransaction J T dir t d = (False, d))"
  using SaveTransaction_loads [OF assms(1,2), of dir t d] assms(3)
  by (auto simp: SaveTransaction_def Let_def Serialize_false)

definition toy_codec :: "bytes tx_codec" where
  "toy_codec = \<lparr>SerializeAsString = (\<lambda>b. b), ParseFromArray = Some\<rparr>"

lemma toy_codec_ok: "codec_ok toy_codec"
  by (simp add: codec_ok_def toy_codec_def)

theorem SaveTransaction_roundtrip_witness:
  "\<exists>d'. SaveTransaction toy_json_io toy_codec ''out'' [10, 2, 1] (\<lambda>p. None) = (True, d')
    \<and> LoadTransaction toy_json_io toy_codec (transaction_path ''out'' (toHex [10, 2, 1])) d' = Some [10, 2, 1]"
  using SaveTransaction_roundtrip [OF toy_json_io_ok toy_codec_ok refl, of "''out''" "[10, 2, 1]" "\<lambda>p. None"]
  by (simp add: toy_json_io_def toy_codec_def) blast

text \<open>Two transactions whose serialized forms agree in the first seven hexadecimal digits share a
  file: saving the second replaces the first. A serialized transaction begins with the tag and the
  length of its raw data, so equally long transactions agree in most of these digits.\<close>

theorem SaveTransaction_overwrites:
  assumes "json_io_ok J" "codec_ok T" "jio_can_open J (transaction_path dir (toHex (SerializeAsString T a)))"
    "take 7 (toHex (SerializeAsString T a)) = take 7 (toHex (SerializeAsString T b))"
  shows "LoadTransaction J T (transaction_path dir (toHex (SerializeAsString T a)))
    (snd (SaveTransaction J T dir b (snd (SaveTransaction J T dir a d)))) = Some b"
proof -
  have p: "transaction_path dir (toHex (SerializeAsString T a)) = transaction_path dir (toHex (SerializeAsString T b))"
    using assms(4) by (simp add: transaction_path_def)
  from SaveTransaction_loads [OF assms(1,2) assms(3) [unfolded p], of "snd (SaveTransaction J T dir a d)"]
  show ?thesis unfolding p by auto
qed

theorem SaveTransaction_overwrites_witness:
  "LoadTransaction toy_json_io toy_codec (transaction_path ''out'' (toHex [10, 131, 1, 10, 2, 1]))
    (snd (SaveTransaction toy_json_io toy_codec ''out'' [10, 131, 1, 10, 2, 7]
      (snd (SaveTransaction toy_json_io toy_codec ''out'' [10, 131, 1, 10, 2, 1] (\<lambda>p. None)))))
   = Some [10, 131, 1, 10, 2, 7]"
proof -
  have "take 7 (toHex [10, 131, 1, 10, 2, 1]) = take 7 (toHex [10, 131, 1, 10, 2, 7])" by code_simp
  with SaveTransaction_overwrites [OF toy_json_io_ok toy_codec_ok, of "''out''" "[10, 131, 1, 10, 2, 1]"
      "[10, 131, 1, 10, 2, 7]" "\<lambda>p. None"]
  show ?thesis by (simp add: toy_json_io_def toy_codec_def)
qed

lemma vote_map_entries:
  "ordered_keys ps \<Longrightarrow> \<forall>(a, u) \<in> set ps. CHR ''.'' \<notin> set a \<Longrightarrow> \<forall>x \<in> fst ` set m. \<forall>y \<in> fst ` set ps. x < y
    \<Longrightarrow> vote_map ps m = m @ map (\<lambda>(a, u). (a, BString u)) ps"
proof (induction ps arbitrary: m)
  case (Cons p ps)
  obtain a u where p: "p = (a, u)" by fastforce
  with Cons.prems have "map_put a (BString u) m = m @ [(a, BString u)]" by (intro map_put_at_end) auto
  moreover from Cons.prems p have "\<forall>x \<in> fst ` set (m @ [(a, BString u)]). \<forall>y \<in> fst ` set ps. x < y"
    by (auto simp: ordered_keys_def)
  ultimately show ?case
    using Cons.prems p Cons.IH [of "m @ [(a, BString u)]"] by (simp add: Dict_SetString_def ordered_keys_def)
qed simp

lemma load_map_entries:
  "ordered_keys ps \<Longrightarrow> \<forall>x \<in> fst ` set m. \<forall>y \<in> fst ` set ps. x < y
    \<Longrightarrow> load_map (map (\<lambda>(a, u). (a, BString u)) ps) m = m @ ps"
proof (induction ps arbitrary: m)
  case (Cons p ps)
  obtain a u where p: "p = (a, u)" by fastforce
  with Cons.prems have a: "map_put a u m = m @ [(a, u)]" "map_of m a = None"
    by (auto intro!: map_put_at_end simp: map_of_eq_None_iff)
  moreover from Cons.prems p have "\<forall>x \<in> fst ` set (m @ [(a, u)]). \<forall>y \<in> fst ` set ps. x < y"
    by (auto simp: ordered_keys_def)
  ultimately show ?case
    using Cons.prems p Cons.IH [of "m @ [(a, u)]"] by (simp add: GetAsString_def ordered_keys_def)
qed simp

lemma flat_votes:
  "ordered_keys ps \<Longrightarrow> \<forall>(a, w) \<in> set ps. u a \<and> u w \<Longrightarrow> flat_dict u (map (\<lambda>(a, w). (a, BString w)) ps)"
  by (auto simp: flat_dict_def ordered_keys_def case_prod_beta' comp_def)

lemma SaveVote_loads:
  assumes "json_io_ok J" "codec_ok T" "vote_transaction v = Some t" "ordered_keys (address_url v)"
    "\<forall>(a, u) \<in> set (address_url v). CHR ''.'' \<notin> set a \<and> jio_utf8 J a \<and> jio_utf8 J u"
    "path = transaction_path dir (toHex (SerializeAsString T t))" "jio_can_open J path"
  shows "\<exists>d'. SaveVote J T dir v d = Inr (True, d') \<and> LoadVote J T path d' = Inr (v :: 'tx VoteData)
    \<and> LoadTransaction J T path d' = Some t"
proof -
  let ?m = "map (\<lambda>(a, u). (a, BString u)) (address_url v)" and ?h = "toHex (SerializeAsString T t)"
  let ?x = "[(''hex'', BString ?h), (''map'', BDict ?m)]"
  have m: "vote_map (address_url v) [] = ?m" using assms(4,5) vote_map_entries [of "address_url v" "[]"] by auto
  have "flat_dict (jio_utf8 J) ?m" using assms(4,5) by (intro flat_votes) auto
  then have x: "text_dict (jio_utf8 J) ?x"
    using assms(1) by (auto simp: text_dict_def ordered_keys_def json_io_ascii ascii_toHex intro!: json_io_ascii)
      (simp_all add: ascii_def)
  have l: "load_map ?m [] = address_url v" using assms(4) load_map_entries [of "address_url v" "[]"] by simp
  from file_roundtrip [OF assms(1) x assms(7), of d] assms(2,3,6) m l show ?thesis
    by (auto simp: SaveVote_def LoadVote_def LoadTransaction_def Let_def Dict_SetString_def Dict_GetString_def GetAsString_def
        codec_ok_def intro: VoteData.equality)
qed

text \<open>A saved vote is loaded back with its transaction and the web pages of its witnesses, if no
  address contains a dot (which a path is cut at).\<close>

theorem SaveVote_roundtrip:
  assumes "json_io_ok J" "codec_ok T" "vote_transaction v = Some t" "ordered_keys (address_url v)"
    "\<forall>(a, u) \<in> set (address_url v). CHR ''.'' \<notin> set a \<and> jio_utf8 J a \<and> jio_utf8 J u"
    "path = transaction_path dir (toHex (SerializeAsString T t))" "jio_can_open J path"
  shows "\<exists>d'. SaveVote J T dir v d = Inr (True, d') \<and> LoadVote J T path d' = Inr (v :: 'tx VoteData)"
  using SaveVote_loads [OF assms] by blast

theorem SaveVote_roundtrip_witness:
  "\<exists>d'. SaveVote toy_json_io toy_codec ''out'' \<lparr>vote_transaction = Some [10], address_url = [(''27A'', ''a.org''), (''27B'', ''b.org'')]\<rparr>
      (\<lambda>p. None) = Inr (True, d')
    \<and> LoadVote toy_json_io toy_codec (transaction_path ''out'' (toHex [10])) d'
      = Inr \<lparr>vote_transaction = Some [10], address_url = [(''27A'', ''a.org''), (''27B'', ''b.org'')]\<rparr>"
  by (rule SaveVote_roundtrip [OF toy_json_io_ok toy_codec_ok])
    (simp_all add: toy_json_io_def toy_codec_def ordered_keys_def)

end
