(* ===== verification/Cold_Wallet.thy ===== *)
theory Cold_Wallet
  imports Account_Facts Transaction_Manager
begin

text \<open>
  The cold wallet's file: the addresses that \<open>GenerateAddress\<close> made are read back by \<open>LoadAddresses\<close>, and
  what the reuse of the account's key and initial vector for this file gives away.
\<close>

section \<open>Addresses and keys\<close>

text \<open>The cold wallet is consistent: ids are unique in both maps and common to them, addresses are
  unique and free of dots, and keys have 32 bytes.\<close>

definition cold_ok :: "(string \<Rightarrow> bool) \<Rightarrow> (bytes \<times> string) list \<Rightarrow> (bytes \<times> bytes) list \<Rightarrow> bool" where
  "cold_ok utf8 lookup cached \<longleftrightarrow>
     al_wf lookup \<and> al_wf cached \<and> fst ` set lookup = fst ` set cached \<and> distinct (map snd lookup)
     \<and> (\<forall>a \<in> snd ` set lookup. a \<noteq> '''' \<and> CHR ''.'' \<notin> set a \<and> utf8 a)
     \<and> (\<forall>k \<in> snd ` set cached. length k = 32)"

text \<open>The key of an address, as \<open>LookupPrivate\<close> finds it.\<close>

definition key_of :: "(bytes \<times> string) list \<Rightarrow> (bytes \<times> bytes) list \<Rightarrow> string \<Rightarrow> bytes option" where
  "key_of lookup cached a =
     (case find (\<lambda>p. snd p = a) lookup of None \<Rightarrow> None | Some p \<Rightarrow> map_of cached (fst p))"

lemma LookupPrivate_key_of:
  "LookupPrivate a am = (case key_of (address_lookup am) (cached_keys am) a of
     None \<Rightarrow> hash_empty 32 | Some key \<Rightarrow> hash_of_bytes 32 FailIfDifferent key)"
  by (simp add: LookupPrivate_def key_of_def split: option.split)

lemma find_snd:
  "distinct (map snd lookup) \<Longrightarrow> (u, a) \<in> set lookup \<Longrightarrow> find (\<lambda>p. snd p = a) lookup = Some (u, a)"
  by (induction lookup) (auto simp: rev_image_eqI)

lemma find_snd_None: "find (\<lambda>p. snd p = a) lookup = None \<longleftrightarrow> a \<notin> snd ` set lookup"
  by (induction lookup) auto

lemma key_of_entry:
  assumes "cold_ok u lookup cached"
  shows "key_of lookup cached a = Some key \<longleftrightarrow> (\<exists>i. (i, a) \<in> set lookup \<and> (i, key) \<in> set cached)"
proof
  assume "key_of lookup cached a = Some key"
  then show "\<exists>i. (i, a) \<in> set lookup \<and> (i, key) \<in> set cached"
    by (auto simp: key_of_def find_Some_iff dest!: map_of_SomeD split: option.splits) (metis nth_mem surjective_pairing)
next
  assume "\<exists>i. (i, a) \<in> set lookup \<and> (i, key) \<in> set cached"
  with assms show "key_of lookup cached a = Some key"
    by (auto simp: key_of_def cold_ok_def find_snd map_of_is_SomeI)
qed

lemma key_of_total: "cold_ok u lookup cached \<Longrightarrow> key_of lookup cached a = None \<longleftrightarrow> a \<notin> snd ` set lookup"
proof -
  assume c: "cold_ok u lookup cached"
  show ?thesis
  proof
    assume n: "key_of lookup cached a = None"
    show "a \<notin> snd ` set lookup"
    proof
      assume "a \<in> snd ` set lookup"
      then obtain i where i: "(i, a) \<in> set lookup" by auto
      with c have "i \<in> fst ` set cached" unfolding cold_ok_def by (metis fst_conv image_eqI)
      then obtain key where "(i, key) \<in> set cached" by auto
      with i key_of_entry [OF c] n show False by force
    qed
  next
    assume "a \<notin> snd ` set lookup"
    then show "key_of lookup cached a = None" by (simp add: key_of_def find_snd_None [THEN iffD2])
  qed
qed

section \<open>The document\<close>

lemma cold_dict_entries:
  assumes "cold_ok utf8 lookup cached" "set ps \<subseteq> set cached"
  shows "map_of (cold_dict lookup ps d) a =
     (if \<exists>i key. (i, a) \<in> set lookup \<and> (i, key) \<in> set ps then Some (BString (toHex (the (key_of lookup cached a))))
      else map_of d a)"
  using assms(2)
proof (induction ps arbitrary: d)
  case (Cons p ps)
  obtain i key where p: "p = (i, key)" by fastforce
  with Cons.prems have "(i, key) \<in> set cached" by simp
  then have "i \<in> fst ` set cached" by force
  with assms(1) have "i \<in> fst ` set lookup" by (simp add: cold_ok_def)
  then obtain b where b: "(i, b) \<in> set lookup" by auto
  with assms(1) have m: "map_of lookup i = Some b" "CHR ''.'' \<notin> set b" "key_of lookup cached b = Some key"
    using \<open>(i, key) \<in> set cached\<close> key_of_entry [OF assms(1)] by (force simp: cold_ok_def map_of_is_SomeI)+
  have "(i, a) \<in> set lookup \<longleftrightarrow> a = b"
    using b m(1) assms(1) unfolding cold_ok_def by (metis map_of_is_SomeI option.inject)
  with Cons p m show ?case by (auto simp: Dict_SetString_def)
qed simp

lemma cold_dict_flat:
  "flat_dict utf8 d \<Longrightarrow> \<forall>a \<in> snd ` set lookup. CHR ''.'' \<notin> set a \<and> utf8 a \<Longrightarrow> \<forall>s. ascii s \<longrightarrow> utf8 s
    \<Longrightarrow> flat_dict utf8 (cold_dict lookup ps d)"
proof (induction lookup ps d rule: cold_dict.induct)
  case (2 lookup u key ps d)
  show ?case
  proof (cases "map_of lookup u")
    case (Some a)
    then have "a \<in> snd ` set lookup" by (force dest: map_of_SomeD)
    with 2(3) have "CHR ''.'' \<notin> set a" "utf8 a" by auto
    moreover from 2(4) have "utf8 (toHex key)" by (simp add: ascii_toHex)
    ultimately have "flat_dict utf8 (map_put a (BString (toHex key)) d)" using 2(2) by (intro flat_map_put)
    with 2 Some \<open>CHR ''.'' \<notin> set a\<close> show ?thesis by (simp add: Dict_SetString_def)
  qed (use 2 in auto)
qed simp

lemma cold_document:
  assumes "cold_ok utf8 lookup cached" "\<forall>s. ascii s \<longrightarrow> utf8 s"
  shows "flat_dict utf8 (cold_dict lookup cached [])
    \<and> map_of (cold_dict lookup cached []) a = map_option (\<lambda>k. BString (toHex k)) (key_of lookup cached a)"
proof
  show "flat_dict utf8 (cold_dict lookup cached [])"
    using assms by (intro cold_dict_flat) (auto simp: cold_ok_def)
  have "(\<exists>i key. (i, a) \<in> set lookup \<and> (i, key) \<in> set cached) \<longleftrightarrow> key_of lookup cached a \<noteq> None"
    using key_of_entry [OF assms(1)] by auto
  then show "map_of (cold_dict lookup cached []) a = map_option (\<lambda>k. BString (toHex k)) (key_of lookup cached a)"
    using cold_dict_entries [OF assms(1) subset_refl, of "[]" a] by (auto split: if_splits)
qed

text \<open>Loading a document of distinct addresses into an empty cold wallet, under fresh ids.\<close>

lemma emplace_fresh: "map_of m k = None \<Longrightarrow> emplace k v m = m @ [(k, v)]"
proof (induction m)
  case (Cons p m)
  then show ?case by (cases p) (auto simp: emplace_def split: if_splits)
qed (simp add: emplace_def)

lemma load_addresses_entries:
  assumes "ordered_keys d" "\<forall>(k, v) \<in> set d. k \<noteq> '''' \<and> (\<exists>s. v = BString s)" "length d \<le> length us" "distinct us"
    "fst ` set (address_lookup am) \<inter> set us = {}" "fst ` set (cached_keys am) \<inter> set us = {}"
  shows "address_lookup (load_addresses d us am) = address_lookup am @ zip us (map fst d)
    \<and> cached_keys (load_addresses d us am) = cached_keys am @ zip us (map (\<lambda>e. fromHex (the (GetAsString (snd e)))) d)
    \<and> keyManager (load_addresses d us am) = keyManager am"
  using assms
proof (induction d us am rule: load_addresses.induct)
  case (1 a v es uuid uuids am)
  from 1(3-) obtain s c r where v: "v = BString s" and a: "a = c # r" by (cases a) auto
  from 1(3-) have f: "map_of (cached_keys am) uuid = None" "map_of (address_lookup am) uuid = None"
    by (auto simp: map_of_eq_None_iff)
  show ?case
    using 1 v a f by (auto simp: emplace_fresh GetAsString_def ordered_keys_def)
qed auto

section \<open>The encrypted file\<close>

definition ctr_length :: "crypto_lib \<Rightarrow> bool" where
  "ctr_length L \<longleftrightarrow> (\<forall>k iv m c. ctr_encrypt L k iv m = Some c \<longrightarrow> length c = length m)"

lemma getPassword_same: "\<exists>r. run_unit (getPassword_uuid H u DontKnowThrow) km = (r, km)"
  by (auto simp: run_unit_def getPassword_uuid_def getPassword_hash_def DontKnowThrow_def eval_nat_numeral split: option.split)

lemma getPassword_disk:
  "run_unit (getPassword_uuid H u DontKnowThrow) km = (r, km)
    \<Longrightarrow> run_unit (getPassword_uuid H u DontKnowThrow) (km\<lparr>m_store := st\<rparr>) = (r, km\<lparr>m_store := st\<rparr>)"
  by (auto simp: run_unit_def getPassword_uuid_def getPassword_hash_def DontKnowThrow_def eval_nat_numeral split: option.splits)

lemma sym_length: "ctr_length L \<Longrightarrow> encryptSymNoAuth L k iv v = c \<Longrightarrow> c \<noteq> [] \<Longrightarrow> length c = length v"
  by (auto simp: encryptSymNoAuth_def encryptAES128CTR_def ctr_length_def split: option.splits if_splits)

lemma encrypted_length:
  assumes "encryptUseEncryptedKey H v a pass s = Inr ct" "ct \<noteq> []" "ctr_length (crypto H)"
  shows "length ct = length v"
  using assms(1,2) sym_length [OF assms(3)]
  by (auto simp: encryptUseEncryptedKey_def rbind_eq_Inr Let_def split: option.splits if_splits)

lemma decrypt_disk: "decryptUseEncryptedKey H ct a pass (s\<lparr>ss_disk := d\<rparr>) = decryptUseEncryptedKey H ct a pass s"
  by (simp add: decryptUseEncryptedKey_def ss_key_def)

lemma km_encrypt_decrypt:
  assumes "km_encryptUseEncryptedKey H v a km = (Inr ct, km')" "ct \<noteq> []" "ctr_inverse (crypto H)" "ctr_length (crypto H)"
  shows "km' = km \<and> length ct = length v
    \<and> km_decryptUseEncryptedKey H ct a (km\<lparr>m_store := (m_store km)\<lparr>ss_disk := d\<rparr>\<rparr>)
      = (Inr (asString v), km\<lparr>m_store := (m_store km)\<lparr>ss_disk := d\<rparr>\<rparr>)"
proof -
  obtain r where r: "run_unit (getPassword_uuid H (km_uuid km a) DontKnowThrow) km = (r, km)"
    using getPassword_same by blast
  with assms(1,2) obtain pass where p: "r = Inr pass" "pass \<noteq> ''''" "km' = km" "encryptUseEncryptedKey H v a pass (m_store km) = Inr ct"
    by (cases r) (auto simp: km_encryptUseEncryptedKey_def sbind_def split: if_splits)
  have u: "km_uuid (km\<lparr>m_store := st\<rparr>) a = km_uuid km a" for st by (simp add: km_uuid_def)
  from p(4) assms(2,3) have "decryptUseEncryptedKey H ct a pass (m_store km) = Inr v"
    by (rule UseEncryptedKey_roundtrip')
  with p r u getPassword_disk [OF r] encrypted_length [OF p(4) assms(2,4)] show ?thesis
    by (simp add: km_decryptUseEncryptedKey_def sbind_def decrypt_disk)
qed

lemma find_map_of: "find (\<lambda>e. fst e = x) d = map_option (\<lambda>v. (x, v)) (map_of d x)"
  by (induction d) auto

lemma key_of_zip:
  "distinct us \<Longrightarrow> length d \<le> length us
    \<Longrightarrow> key_of (zip us (map fst d)) (zip us (map g d)) x = map_option g (find (\<lambda>e. fst e = x) d)"
proof (induction d arbitrary: us)
  case (Cons e d)
  then obtain u us' where us: "us = u # us'" by (cases us) auto
  have ih: "key_of (zip us' (map fst d)) (zip us' (map g d)) x = map_option g (find (\<lambda>e. fst e = x) d)"
    using Cons us by simp
  have "fst p \<noteq> u" if "find (\<lambda>p. snd p = x) (zip us' (map fst d)) = Some p" for p
    using that Cons.prems(1) us by (auto simp: find_Some_iff set_zip dest: nth_mem)
  with ih us show ?case by (auto simp: key_of_def split: option.split)
qed (simp add: key_of_def)

lemma document_length:
  assumes "flat_dict u d" "\<And>a. map_of d a \<noteq> None \<Longrightarrow> a \<in> snd ` set lookup"
  shows "length d \<le> length lookup"
proof -
  have "distinct (map fst d)" using assms(1) by (auto simp: flat_dict_def dest: ordered_keys_distinct)
  then have "length d = card (fst ` set d)" by (metis distinct_card length_map list.set_map)
  also have "\<dots> \<le> card (snd ` set lookup)" using assms(2) by (intro card_mono) (auto simp: map_of_eq_None_iff)
  also have "\<dots> \<le> length lookup" by (metis card_length length_map list.set_map)
  finally show ?thesis .
qed

lemma flat_BString: "flat_dict u d \<Longrightarrow> (k, v) \<in> set d \<Longrightarrow> \<exists>s. v = BString s"
  unfolding flat_dict_def by (cases v) auto


lemma encoded_plain: "EncodeBase58 bs = Inr s \<Longrightarrow> CHR ''.'' \<notin> set s \<and> (bs \<noteq> [] \<longrightarrow> s \<noteq> '''')"
proof
  assume e: "EncodeBase58 bs = Inr s"
  obtain ds where "EncodeBase58 bs = Inr (replicate (length (takeWhile (\<lambda>p. p = 0) bs)) (CHR ''1'') @ map (\<lambda>d. pszBase58 ! d) ds)"
    "canonical 58 ds (digits_val 256 (map unat (dropWhile (\<lambda>p. p = 0) bs)))" by (rule EncodeBase58_cases)
  with e have "\<forall>c \<in> set s. c = CHR ''1'' \<or> b58_valid c"
    using no_space_alphabet by fastforce
  moreover have "\<not> b58_valid (CHR ''.'')" by code_simp
  ultimately show "CHR ''.'' \<notin> set s" by fastforce
  obtain t where t: "EncodeBase58 [] = Inr t" using EncodeBase58_total by blast
  have "EncodeBase58 [] = Inr ''''" by code_simp
  then show "bs \<noteq> [] \<longrightarrow> s \<noteq> ''''"
    using e DecodeBase58_EncodeBase58 [of bs s] DecodeBase58_EncodeBase58 [of "[]" "''''"] by auto
qed

definition toy_cold_km :: key_manager where
  "toy_cold_km = toy_km\<lparr>m_uuidLookup := [(replicate 16 5, replicate 20 9)], m_addrLookup := [(replicate 20 9, replicate 16 5)],
     m_cachedPasswords := [(replicate 32 1, ''pw'')],
     m_store := (ss_empty Map.empty)\<lparr>m_keys := [(replicate 16 5,
       \<lparr>encryptedKey = js_write (jlib toy_host) (JObj toy_doc) True, filename = '''', address = replicate 20 9\<rparr>)]\<rparr>\<rparr>"

lemma toy_stored_cipher:
  assumes "v \<noteq> []" "m_keys s = [(replicate 16 5, \<lparr>encryptedKey = js_write (jlib toy_host) (JObj toy_doc) True,
    filename = '''', address = replicate 20 9\<rparr>)]"
  shows "encryptUseEncryptedKey toy_host v (replicate 20 9) ''pw'' s = Inr v"
proof -
  have j: "js_read (jlib toy_host) (js_write (jlib toy_host) (JObj toy_doc) True) = JObj toy_doc"
    by (rule js_roundtripD [OF _ toy_doc_plain]) simp
  have c: "jstr_at toy_doc ''cipher'' = Inr ''aes-128-ctr''" "stored_iv toy_doc = Inr (replicate 16 2)"
    by (simp_all add: toy_doc_def jstr_at_def stored_iv_def jobj_at_def)
  have "encryptSymNoAuth (crypto toy_host) (hash_of_bytes 16 AlignLeft (replicate 32 2)) (replicate 16 2) v = v"
    by (simp add: encryptSymNoAuth_def encryptAES128CTR_def toy_host_def toy_lib_def)
  with j c assms toy_derive [of "''pw''"] show ?thesis
    by (simp add: encryptUseEncryptedKey_def ss_key_def)
qed

lemma toy_cold_encrypts:
  assumes "v \<noteq> []"
  shows "km_encryptUseEncryptedKey toy_host v (replicate 20 9) toy_cold_km = (Inr v, toy_cold_km)"
proof -
  have "encryptUseEncryptedKey toy_host v (replicate 20 9) ''pw'' (m_store toy_cold_km) = Inr v"
    by (rule toy_stored_cipher [OF assms]) (simp add: toy_cold_km_def)
  moreover have "run_unit (getPassword_uuid toy_host (km_uuid toy_cold_km (replicate 20 9)) DontKnowThrow) toy_cold_km
      = (Inr ''pw'', toy_cold_km)"
    by (simp add: run_unit_def getPassword_uuid_def getPassword_hash_def toy_cold_km_def km_uuid_def toy_km_fields)
  ultimately show ?thesis by (simp add: km_encryptUseEncryptedKey_def sbind_def)
qed


section \<open>What the file gives away\<close>

text \<open>Counter mode adds a key stream that depends on the key and the initial vector only.\<close>

definition ctr_stream :: "crypto_lib \<Rightarrow> (bytes \<Rightarrow> bytes \<Rightarrow> nat \<Rightarrow> byte) \<Rightarrow> bool" where
  "ctr_stream L ks \<longleftrightarrow> (\<forall>k iv m. ctr_encrypt L k iv m = Some (map (\<lambda>i. m ! i XOR ks k iv i) [0..<length m]))"

lemma sym_stream: "ctr_stream L ks \<Longrightarrow> length k = 16 \<Longrightarrow> encryptSymNoAuth L k iv m = map (\<lambda>i. m ! i XOR ks k iv i) [0..<length m]"
  by (simp add: ctr_stream_def encryptSymNoAuth_def encryptAES128CTR_def)

lemma xor_cancel: "(a XOR x) XOR (b XOR x) XOR b = (a :: byte)"
  by (metis xor.assoc xor.commute xor.left_neutral xor_self_eq)

text \<open>C27: the cold wallet's file is encrypted with the key and the initial vector under which the
  secret of the account itself is stored: whoever has both files and knows or guesses the beginning of
  the document (an opening brace, a quote and an address) computes the secret, without the password.\<close>

theorem cold_file_reveals_secret:
  assumes "encrypt H salt iv sec pass kdf = Inr (encryptedKey k)" "length iv = 16"
    "js_roundtrip (jlib H)" "kdf_lengths (crypto H)" "ctr_stream (crypto H) ks"
    "ss_key s a = Some (u, k)" "encryptUseEncryptedKey H v a pass s = Inr ct" "length sec \<le> length v"
  shows "\<exists>ob c. js_read (jlib H) (encryptedKey k) = JObj ob \<and> jat ob ''ciphertext'' = JStr (toHex c)
    \<and> sec = map (\<lambda>i. c ! i XOR ct ! i XOR v ! i) [0..<length sec]"
proof -
  obtain ob dk c where e: "encryptedKey k = js_write (jlib H) (JObj ob) True" and d: "encrypted_doc H ob pass dk iv c sec"
    using encrypt_doc [OF assms(1,4,2)] by blast
  let ?ks = "ks (hash_of_bytes 16 AlignLeft dk) iv"
  have j: "js_read (jlib H) (encryptedKey k) = JObj ob"
    using d assms(3) unfolding e by (simp add: js_roundtripD encrypted_doc_def)
  have c: "c = map (\<lambda>i. sec ! i XOR ?ks i) [0..<length sec]"
    using d sym_stream [OF assms(5), of "hash_of_bytes 16 AlignLeft dk" iv sec] by (simp add: encrypted_doc_def)
  have "dk \<noteq> []" "derive_from_stored H pass ob = Inr dk" "jstr_at ob ''cipher'' = Inr ''aes-128-ctr''" "stored_iv ob = Inr iv"
    using d by (auto simp: encrypted_doc_def jstr_at_def stored_iv_def jobj_at_def jat_def)
  then have "ct = encryptSymNoAuth (crypto H) (hash_of_bytes 16 AlignLeft dk) iv v"
    using assms(6,7) j by (auto simp: encryptUseEncryptedKey_def Let_def split: if_splits)
  then have ct: "ct = map (\<lambda>i. v ! i XOR ?ks i) [0..<length v]"
    using sym_stream [OF assms(5)] by simp
  have "sec = map (\<lambda>i. c ! i XOR ct ! i XOR v ! i) [0..<length sec]"
    using assms(8) by (intro nth_equalityI) (simp_all add: c ct xor_cancel)
  with j d show ?thesis by (auto simp: encrypted_doc_def)
qed

theorem cold_file_reveals_secret_witness:
  "\<exists>ob c. js_read (jlib toy_host) (js_write (jlib toy_host) (JObj toy_doc) True) = JObj ob \<and> jat ob ''ciphertext'' = JStr (toHex c)
    \<and> [3, 4] = map (\<lambda>i. c ! i XOR [1, 2, 3] ! i XOR [1, 2, 3] ! i) [0..<length [3, 4 :: byte]]"
proof -
  let ?k = "\<lparr>encryptedKey = js_write (jlib toy_host) (JObj toy_doc) True, filename = '''', address = replicate 20 9 :: bytes\<rparr>"
  let ?s = "(ss_empty Map.empty)\<lparr>m_keys := [(replicate 16 5 :: bytes, ?k)]\<rparr>"
  have st: "ctr_stream (crypto toy_host) (\<lambda>k iv i. 0)"
    by (simp add: ctr_stream_def toy_host_def toy_lib_def map_nth)
  have "encryptUseEncryptedKey toy_host [1, 2, 3] (replicate 20 9) ''pw'' ?s = Inr [1, 2, 3]"
    by (rule toy_stored_cipher) simp_all
  from cold_file_reveals_secret [OF _ _ _ _ st _ this, of "[1]" "replicate 16 2" "[3, 4]" PBKDF2_SHA256 ?k "replicate 16 5"]
  show ?thesis using toy_doc_encrypt by (simp add: ss_key_def)
qed

end
