(* ===== verification/Network_Thread.thy ===== *)
theory Network_Thread
  imports Json_File Transition_System
begin

text \<open>
  wallet/core/network_thread.cpp: requests to the nodes. The window's thread calls the member functions,
  which post tasks; one other thread runs the tasks in their order and posts the answers back to the
  window. The two threads interleave: a call and a task are run in the steps between which the other
  thread can see their effects. The stubs are generated code: what a remote call answers is an argument
  of the step. A stub is the address it is connected to.
\<close>

section \<open>Requests\<close>

datatype NetworkRequestType =
  Request_GetAccount
| Request_AccountNetMessage
| Request_CreateTransaction
| Request_BroadcastTransaction
| Request_UpdateAccount
| Request_VoteWitnessAccount
| Request_CreateAssetIssue
| Request_ListWitnesses
| Request_UpdateWitness
| Request_CreateWitness
| Request_TransferAsset
| Request_ParticipateAssetIssue
| Request_FreezeBalance
| Request_UnfreezeBalance
| Request_WithdrawBalance
| Request_ListNodes
| Request_GetAssetIssueList
| Request_GetAssetIssueByAccount
| Request_GetAssetIssueByName
| Request_GetNowBlock
| Request_GetBlockByNum
| Request_TotalTransaction
| Request_GetBlockById
| Request_GetBlockByLimitNext
| Request_GetBlockByLatestNum
| Request_GetTransactionById
| Request_UpdateAsset
| Request_getTransactionsFromThis
| Request_getTransactionsToThis
| RequestCount

datatype stub = FullStub | SolidityStub | ExtensionStub

text \<open>The stub that each of the 29 request functions passes to \<open>RPC_PROC\<close>.\<close>

definition request_stub :: "NetworkRequestType \<Rightarrow> stub" where
  "request_stub t =
     (case t of
        Request_ListWitnesses \<Rightarrow> SolidityStub
      | Request_GetAssetIssueList \<Rightarrow> SolidityStub
      | Request_TotalTransaction \<Rightarrow> SolidityStub
      | Request_getTransactionsFromThis \<Rightarrow> ExtensionStub
      | Request_getTransactionsToThis \<Rightarrow> ExtensionStub
      | _ \<Rightarrow> FullStub)"

section \<open>State\<close>

text \<open>
  An accepted request keeps its identity, which stands for its argument and callback; a context is a
  number, and the cancelled ones are collected. \<open>wire\<close> records the remote calls.
\<close>

record request =
  req_id :: nat
  req_type :: NetworkRequestType
  req_context :: nat

datatype task =
  Rpc request
| Reset string string
| Wrapped nat

text \<open>Where the running task is: before the remote call, after it (with the status, UNAVAILABLE or not,
  and the reply), before and after the second call, before the callback is posted and before
  \<open>lastCallType_\<close> is reset.\<close>

datatype phase =
  Calling
| Called bool nat
| Retrying
| Recalling nat
| Recalled nat
| Answering nat
| Finishing

text \<open>Where the window's thread is in \<open>RPC_PROC\<close>, after it compared \<open>lastCallType_\<close>.\<close>

datatype ui_phase =
  Cancelling
| Looking
| Registering
| Setting nat
| Posting nat

record net =
  full_address_port :: string
  solidity_address_port :: string
  full_stub :: string
  solidity_stub :: string
  extension_stub :: string
  requestContextPool :: "(NetworkRequestType \<times> nat) list"
  cancelled :: "nat list"
  next_context :: nat
  lastCallType :: NetworkRequestType
  next_id :: nat
  calling :: "(NetworkRequestType \<times> nat \<times> ui_phase) option"
  tasks :: "task list"
  running :: "(request \<times> phase) option"
  wire :: "(nat \<times> string) list"
  posted :: "(nat \<times> nat) list"
  accepted :: "nat list"

section \<open>Configuration\<close>

definition node_value :: "dict \<Rightarrow> string \<Rightarrow> string" where
  "node_value doc node_name =
     (case (Dict_GetString doc (node_name @ ''.address''), Dict_GetString doc (node_name @ ''.port'')) of
        (Some a, Some p) \<Rightarrow> if a \<noteq> '''' \<and> p \<noteq> '''' then a @ '':'' @ p else ''''
      | _ \<Rightarrow> '''')"

definition Load :: "json_io \<Rightarrow> string \<Rightarrow> disk \<Rightarrow> net \<Rightarrow> net" where
  "Load J ConfigDir d s =
     (case JSONFile_Deserialize J (ConfigDir @ ''/config.json'') d of
        Some (BDict doc) \<Rightarrow>
          (let full = node_value doc ''full'';
               s = (if full \<noteq> '''' then s\<lparr>full_address_port := full\<rparr> else s);
               solidity = node_value doc ''solidity''
           in if solidity \<noteq> '''' then s\<lparr>solidity_address_port := solidity\<rparr> else s)
      | _ \<Rightarrow> s)"

definition CreateFullStub :: "net \<Rightarrow> net" where
  "CreateFullStub s = s\<lparr>full_stub := full_address_port s\<rparr>"

definition CreateSolidutyStub :: "net \<Rightarrow> net" where
  "CreateSolidutyStub s = s\<lparr>solidity_stub := solidity_address_port s, extension_stub := solidity_address_port s\<rparr>"

definition net_fields :: net where
  "net_fields =
     \<lparr>full_address_port = ''47.254.16.55:50051'', solidity_address_port = ''47.254.39.153:50051'',
      full_stub = '''', solidity_stub = '''', extension_stub = '''', requestContextPool = [], cancelled = [],
      next_context = 0, lastCallType = RequestCount, next_id = 0, calling = None, tasks = [], running = None,
      wire = [], posted = [], accepted = []\<rparr>"

definition CNetworkThread_new :: "json_io \<Rightarrow> string \<Rightarrow> disk \<Rightarrow> net" where
  "CNetworkThread_new J ConfigDir d = CreateSolidutyStub (CreateFullStub (Load J ConfigDir d net_fields))"

section \<open>Contexts\<close>

definition GetRequestContext :: "NetworkRequestType \<Rightarrow> net \<Rightarrow> nat option" where
  "GetRequestContext t s = map_of (requestContextPool s) t"

text \<open>\<open>emplace\<close> keeps a context that is registered already; the new one is returned all the same.\<close>

definition RegisterRequestContext :: "NetworkRequestType \<Rightarrow> net \<Rightarrow> nat \<times> net" where
  "RegisterRequestContext t s =
     (let c = next_context s;
          s = s\<lparr>next_context := Suc c\<rparr>
      in (c, if map_of (requestContextPool s) t = None
             then s\<lparr>requestContextPool := al_put t c (requestContextPool s)\<rparr> else s))"

definition UnregiesterRequestContext :: "NetworkRequestType \<Rightarrow> net \<Rightarrow> net" where
  "UnregiesterRequestContext t s =
     (case map_of (requestContextPool s) t of
        None \<Rightarrow> s
      | Some _ \<Rightarrow> s\<lparr>requestContextPool := al_del t (requestContextPool s)\<rparr>)"

definition TryCancel :: "nat \<Rightarrow> net \<Rightarrow> net" where
  "TryCancel c s = s\<lparr>cancelled := c # cancelled s\<rparr>"

definition PostTask :: "task \<Rightarrow> net \<Rightarrow> net" where
  "PostTask t s = s\<lparr>tasks := tasks s @ [t]\<rparr>"

definition InvokeCallback :: "nat \<Rightarrow> nat \<Rightarrow> net \<Rightarrow> net" where
  "InvokeCallback i v s = s\<lparr>posted := posted s @ [(i, v)]\<rparr>"

section \<open>The window's thread\<close>

text \<open>A request function: it returns at once when the last call has the same type and is not answered.\<close>

definition rpc_begin :: "NetworkRequestType \<Rightarrow> net \<Rightarrow> net" where
  "rpc_begin t s =
     (let i = next_id s;
          s = s\<lparr>next_id := Suc i\<rparr>
      in if lastCallType s \<noteq> t then s\<lparr>calling := Some (t, i, Cancelling)\<rparr> else s)"

text \<open>The rest of \<open>RPC_PROC\<close>, one step at a time.\<close>

definition rpc_continue :: "net \<Rightarrow> net" where
  "rpc_continue s =
     (case calling s of
        None \<Rightarrow> s
      | Some (t, i, Cancelling) \<Rightarrow>
          (case GetRequestContext (lastCallType s) s of None \<Rightarrow> s | Some c \<Rightarrow> TryCancel c s)\<lparr>calling := Some (t, i, Looking)\<rparr>
      | Some (t, i, Looking) \<Rightarrow>
          s\<lparr>calling := (case GetRequestContext t s of None \<Rightarrow> Some (t, i, Registering) | Some _ \<Rightarrow> None)\<rparr>
      | Some (t, i, Registering) \<Rightarrow>
          (case RegisterRequestContext t s of (c, s) \<Rightarrow> s\<lparr>calling := Some (t, i, Setting c)\<rparr>)
      | Some (t, i, Setting c) \<Rightarrow> s\<lparr>lastCallType := t, calling := Some (t, i, Posting c)\<rparr>
      | Some (t, i, Posting c) \<Rightarrow>
          PostTask (Rpc \<lparr>req_id = i, req_type = t, req_context = c\<rparr>) (s\<lparr>calling := None, accepted := accepted s @ [i]\<rparr>))"

definition ReSetSub :: "string \<Rightarrow> string \<Rightarrow> net \<Rightarrow> net" where
  "ReSetSub full solidity s = PostTask (Reset full solidity) s"

text \<open>\<open>Login\<close> and \<open>CreateAccountWrapper\<close> post a call of the account manager and its callback.\<close>

definition post_wrapped :: "net \<Rightarrow> net" where
  "post_wrapped s =
     (let i = next_id s in PostTask (Wrapped i) (s\<lparr>next_id := Suc i, accepted := accepted s @ [i]\<rparr>))"

section \<open>The worker's thread\<close>

definition clear_pool :: "net \<Rightarrow> net" where
  "clear_pool s =
     (if requestContextPool s \<noteq> []
      then s\<lparr>cancelled := map snd (requestContextPool s) @ cancelled s, requestContextPool := []\<rparr> else s)"

definition run_reset :: "string \<Rightarrow> string \<Rightarrow> net \<Rightarrow> net" where
  "run_reset full solidity s =
     (let s = (if full \<noteq> '''' \<and> full \<noteq> full_address_port s
               then CreateFullStub ((clear_pool s)\<lparr>full_address_port := full\<rparr>) else s)
      in if solidity \<noteq> '''' \<and> solidity_address_port s \<noteq> solidity
         then CreateSolidutyStub ((clear_pool s)\<lparr>solidity_address_port := solidity\<rparr>) else s)"

definition stub_address :: "stub \<Rightarrow> net \<Rightarrow> string" where
  "stub_address st s =
     (case st of FullStub \<Rightarrow> full_stub s | SolidityStub \<Rightarrow> solidity_stub s | ExtensionStub \<Rightarrow> extension_stub s)"

definition remote_call :: "request \<Rightarrow> net \<Rightarrow> net" where
  "remote_call r s = s\<lparr>wire := wire s @ [(req_id r, stub_address (request_stub (req_type r)) s)]\<rparr>"

text \<open>
  One step of the worker, with the answer of the remote call it may make: whether the node was
  unavailable, and the reply. It takes a task when it has none. The account manager's calls and the
  reset run in one step: only the pool is shared with the other thread.
\<close>

definition take_task :: "nat \<Rightarrow> net \<Rightarrow> net" where
  "take_task v s =
     (case tasks s of
        [] \<Rightarrow> s
      | Rpc r # ts \<Rightarrow> s\<lparr>tasks := ts, running := Some (r, Calling)\<rparr>
      | Reset full solidity # ts \<Rightarrow> run_reset full solidity (s\<lparr>tasks := ts\<rparr>)
      | Wrapped i # ts \<Rightarrow> InvokeCallback i v (s\<lparr>tasks := ts\<rparr>))"

definition run_phase :: "bool \<Rightarrow> nat \<Rightarrow> request \<Rightarrow> phase \<Rightarrow> net \<Rightarrow> net" where
  "run_phase unavailable v r ph s =
     (case ph of
        Calling \<Rightarrow> (remote_call r s)\<lparr>running := Some (r, Called unavailable v)\<rparr>
      | Called u w \<Rightarrow>
          (UnregiesterRequestContext (req_type r) s)\<lparr>running := Some (r, if u then Retrying else Answering w)\<rparr>
      | Retrying \<Rightarrow>
          (case RegisterRequestContext (req_type r) s of (c, s) \<Rightarrow> s\<lparr>running := Some (r, Recalling c)\<rparr>)
      | Recalling c \<Rightarrow> (remote_call r s)\<lparr>running := Some (r, Recalled v)\<rparr>
      | Recalled w \<Rightarrow> (UnregiesterRequestContext (req_type r) s)\<lparr>running := Some (r, Answering w)\<rparr>
      | Answering w \<Rightarrow> (InvokeCallback (req_id r) w s)\<lparr>running := Some (r, Finishing)\<rparr>
      | Finishing \<Rightarrow> s\<lparr>lastCallType := RequestCount, running := None\<rparr>)"

definition worker_step :: "bool \<Rightarrow> nat \<Rightarrow> net \<Rightarrow> net" where
  "worker_step unavailable v s =
     (case running s of None \<Rightarrow> take_task v s | Some (r, ph) \<Rightarrow> run_phase unavailable v r ph s)"

section \<open>Both threads\<close>

inductive net_step :: "net \<Rightarrow> net \<Rightarrow> bool" where
  step_request: "calling s = None \<Longrightarrow> t \<noteq> RequestCount \<Longrightarrow> net_step s (rpc_begin t s)"
| step_continue: "calling s \<noteq> None \<Longrightarrow> net_step s (rpc_continue s)"
| step_reset: "calling s = None \<Longrightarrow> net_step s (ReSetSub full solidity s)"
| step_wrapped: "calling s = None \<Longrightarrow> net_step s (post_wrapped s)"
| step_worker: "net_step s (worker_step unavailable v s)"

inductive_cases net_stepE: "net_step s t"

definition net_init :: "net \<Rightarrow> bool" where
  "net_init s \<longleftrightarrow> (\<exists>J dir d. s = CNetworkThread_new J dir d)"

end
