(* ===== verification/Network_Facts.thy ===== *)
theory Network_Facts
  imports Network_Thread
begin

text \<open>
  What holds of the network thread in every interleaving of its two threads: accepted requests are
  answered once and in their order, the pool and \<open>lastCallType_\<close> never lock a request type out, and
  the worker comes to rest; and two traces in which a request in flight is not cancelled.
\<close>

section \<open>Traces\<close>

datatype event =
  Request NetworkRequestType
| Continue
| SetNodes string string
| Wrap
| Work bool nat

fun net_event :: "event \<Rightarrow> net \<Rightarrow> net option" where
  "net_event (Request t) s = (if calling s = None \<and> t \<noteq> RequestCount then Some (rpc_begin t s) else None)"
| "net_event Continue s = (if calling s \<noteq> None then Some (rpc_continue s) else None)"
| "net_event (SetNodes full solidity) s = (if calling s = None then Some (ReSetSub full solidity s) else None)"
| "net_event Wrap s = (if calling s = None then Some (post_wrapped s) else None)"
| "net_event (Work u v) s = Some (worker_step u v s)"

fun net_run :: "event list \<Rightarrow> net \<Rightarrow> net option" where
  "net_run [] s = Some s"
| "net_run (e # es) s = (case net_event e s of None \<Rightarrow> None | Some s \<Rightarrow> net_run es s)"

lemma net_event_step: "net_event e s = Some t \<Longrightarrow> net_step s t"
  by (cases e) (auto split: if_splits intro: net_step.intros)

lemma net_run_reachable:
  "net_run es s = Some t \<Longrightarrow> reachable net_init net_step s \<Longrightarrow> reachable net_init net_step t"
  by (induction es arbitrary: s) (auto split: option.splits dest!: net_event_step intro: reachable_step)

text \<open>The state without a configuration file.\<close>

definition toy_net :: net where
  "toy_net = net_fields\<lparr>full_stub := full_address_port net_fields, solidity_stub := solidity_address_port net_fields,
     extension_stub := solidity_address_port net_fields\<rparr>"

lemma toy_net_reachable: "reachable net_init net_step toy_net"
proof -
  have "toy_net = CNetworkThread_new toy_json_io '''' Map.empty"
    by (simp add: toy_net_def CNetworkThread_new_def Load_def JSONFile_Deserialize_def CreateFullStub_def
        CreateSolidutyStub_def net_fields_def)
  then show ?thesis unfolding net_init_def by (intro reachable_init) blast
qed

lemmas net_ops = GetRequestContext_def RegisterRequestContext_def UnregiesterRequestContext_def TryCancel_def
  PostTask_def InvokeCallback_def rpc_begin_def rpc_continue_def ReSetSub_def post_wrapped_def remote_call_def

lemmas net_defs = net_ops take_task_def run_phase_def worker_step_def run_reset_def clear_pool_def
  CreateFullStub_def CreateSolidutyStub_def stub_address_def request_stub_def toy_net_def net_fields_def
  map_of_al_put map_of_al_del

section \<open>The invariant\<close>

fun task_ids :: "task \<Rightarrow> nat list" where
  "task_ids (Rpc r) = [req_id r]"
| "task_ids (Reset full solidity) = []"
| "task_ids (Wrapped i) = [i]"

fun task_types :: "task \<Rightarrow> NetworkRequestType list" where
  "task_types (Rpc r) = [req_type r]"
| "task_types t = []"

fun running_ids :: "(request \<times> phase) option \<Rightarrow> nat list" where
  "running_ids None = []"
| "running_ids (Some (r, Finishing)) = []"
| "running_ids (Some (r, _)) = [req_id r]"

text \<open>The requests that are not answered, the one that is running first.\<close>

definition outstanding :: "net \<Rightarrow> nat list" where
  "outstanding s = running_ids (running s) @ concat (map task_ids (tasks s))"

text \<open>The types whose context some request will still remove, and those whose request will still reset
  \<open>lastCallType_\<close>.\<close>

fun holding :: "(request \<times> phase) option \<Rightarrow> NetworkRequestType set" where
  "holding (Some (r, Calling)) = {req_type r}"
| "holding (Some (r, Called u v)) = {req_type r}"
| "holding (Some (r, Recalling c)) = {req_type r}"
| "holding (Some (r, Recalled v)) = {req_type r}"
| "holding _ = {}"

fun registered :: "(NetworkRequestType \<times> nat \<times> ui_phase) option \<Rightarrow> NetworkRequestType set" where
  "registered (Some (t, i, Setting c)) = {t}"
| "registered (Some (t, i, Posting c)) = {t}"
| "registered _ = {}"

fun posting :: "(NetworkRequestType \<times> nat \<times> ui_phase) option \<Rightarrow> NetworkRequestType set" where
  "posting (Some (t, i, Posting c)) = {t}"
| "posting _ = {}"

definition queued_types :: "net \<Rightarrow> NetworkRequestType set" where
  "queued_types s = set (concat (map task_types (tasks s)))"

definition owned :: "net \<Rightarrow> NetworkRequestType set" where
  "owned s = queued_types s \<union> registered (calling s) \<union> holding (running s)"

definition resetting :: "net \<Rightarrow> NetworkRequestType set" where
  "resetting s = queued_types s \<union> posting (calling s) \<union> (\<lambda>(r, ph). req_type r) ` set_option (running s)"

definition net_inv :: "net \<Rightarrow> bool" where
  "net_inv s \<longleftrightarrow>
     accepted s = map fst (posted s) @ outstanding s
     \<and> fst ` set (requestContextPool s) \<subseteq> owned s
     \<and> (lastCallType s = RequestCount \<or> lastCallType s \<in> resetting s)
     \<and> full_stub s = full_address_port s
     \<and> solidity_stub s = solidity_address_port s \<and> extension_stub s = solidity_address_port s"

lemmas net_inv_defs = net_inv_def outstanding_def queued_types_def owned_def resetting_def

lemma Load_fields [simp]:
  "requestContextPool (Load J dir d s) = requestContextPool s" "lastCallType (Load J dir d s) = lastCallType s"
  "calling (Load J dir d s) = calling s" "tasks (Load J dir d s) = tasks s" "running (Load J dir d s) = running s"
  "posted (Load J dir d s) = posted s" "accepted (Load J dir d s) = accepted s"
  "next_id (Load J dir d s) = next_id s" "wire (Load J dir d s) = wire s"
  by (auto simp: Load_def Let_def split: option.split base_value.split)

lemma init_net_inv: "net_init s \<Longrightarrow> net_inv s"
  by (auto simp: net_init_def CNetworkThread_new_def CreateFullStub_def CreateSolidutyStub_def net_inv_defs net_fields_def)

lemma begin_net_inv: "net_inv s \<Longrightarrow> calling s = None \<Longrightarrow> net_inv (rpc_begin t s)"
  by (auto simp: rpc_begin_def net_inv_defs Let_def)

lemma post_net_inv:
  "net_inv s \<Longrightarrow> net_inv (ReSetSub full solidity s)" "net_inv s \<Longrightarrow> net_inv (post_wrapped s)"
  by (auto simp: ReSetSub_def post_wrapped_def PostTask_def net_inv_defs Let_def)

lemma continue_net_inv: "net_inv s \<Longrightarrow> net_inv (rpc_continue s)"
proof (cases "calling s")
  case None
  assume "net_inv s"
  with None show ?thesis by (simp add: rpc_continue_def)
next
  case (Some x)
  obtain t i ph where x: "x = (t, i, ph)" by (cases x)
  assume "net_inv s"
  then show ?thesis using Some x
    by (cases ph) (auto simp: rpc_continue_def net_inv_defs GetRequestContext_def TryCancel_def
        RegisterRequestContext_def PostTask_def Let_def map_of_al_put split: option.split)
qed

lemma clear_pool_inv: "net_inv s \<Longrightarrow> net_inv (clear_pool s)"
  by (auto simp: clear_pool_def net_inv_defs)

lemma address_inv:
  "net_inv s \<Longrightarrow> net_inv (CreateFullStub (s\<lparr>full_address_port := a\<rparr>))"
  "net_inv s \<Longrightarrow> net_inv (CreateSolidutyStub (s\<lparr>solidity_address_port := a\<rparr>))"
  by (auto simp: CreateFullStub_def CreateSolidutyStub_def net_inv_defs)

lemma run_reset_inv: "net_inv s \<Longrightarrow> net_inv (run_reset full solidity s)"
  unfolding run_reset_def Let_def by (auto intro!: address_inv clear_pool_inv)

lemma take_task_inv:
  assumes "net_inv s" "running s = None"
  shows "net_inv (take_task v s)"
proof (cases "tasks s")
  case Nil
  with assms show ?thesis by (simp add: take_task_def)
next
  case (Cons t ts)
  show ?thesis
  proof (cases t)
    case (Reset full solidity)
    from assms Cons Reset have "net_inv (s\<lparr>tasks := ts\<rparr>)" by (auto simp: net_inv_defs)
    with Cons Reset show ?thesis by (auto simp: take_task_def intro: run_reset_inv)
  qed (use assms Cons in \<open>auto simp: take_task_def InvokeCallback_def net_inv_defs\<close>)
qed

lemma Unregiester_fields [simp]:
  "fst ` set (requestContextPool (UnregiesterRequestContext t s)) = fst ` set (requestContextPool s) - {t}"
  "lastCallType (UnregiesterRequestContext t s) = lastCallType s" "calling (UnregiesterRequestContext t s) = calling s"
  "tasks (UnregiesterRequestContext t s) = tasks s" "running (UnregiesterRequestContext t s) = running s"
  "posted (UnregiesterRequestContext t s) = posted s" "accepted (UnregiesterRequestContext t s) = accepted s"
  "next_id (UnregiesterRequestContext t s) = next_id s" "wire (UnregiesterRequestContext t s) = wire s"
  "full_stub (UnregiesterRequestContext t s) = full_stub s" "solidity_stub (UnregiesterRequestContext t s) = solidity_stub s"
  "extension_stub (UnregiesterRequestContext t s) = extension_stub s"
  "full_address_port (UnregiesterRequestContext t s) = full_address_port s"
  "solidity_address_port (UnregiesterRequestContext t s) = solidity_address_port s"
  by (auto simp: UnregiesterRequestContext_def map_of_eq_None_iff split: option.split)

lemma run_phase_inv:
  assumes "net_inv s" "running s = Some (r, ph)"
  shows "net_inv (run_phase u v r ph s)"
proof (cases ph)
  case (Called x y)
  with assms show ?thesis by (simp add: run_phase_def net_inv_defs) blast
next
  case (Recalled x)
  with assms show ?thesis by (simp add: run_phase_def net_inv_defs) blast
qed (use assms in \<open>auto simp: run_phase_def remote_call_def RegisterRequestContext_def
      InvokeCallback_def Let_def net_inv_defs\<close>)

lemma worker_inv: "net_inv s \<Longrightarrow> net_inv (worker_step u v s)"
  by (auto simp: worker_step_def intro: take_task_inv run_phase_inv split: option.split)

lemma step_net_inv: "net_inv s \<Longrightarrow> net_step s t \<Longrightarrow> net_inv t"
  by (erule net_stepE) (auto intro: begin_net_inv continue_net_inv post_net_inv worker_inv)

section \<open>Calls and identities\<close>

definition calls_made :: "nat \<Rightarrow> net \<Rightarrow> nat" where
  "calls_made i s = length (filter (\<lambda>p. fst p = i) (wire s))"

fun max_calls :: "phase \<Rightarrow> nat" where
  "max_calls Calling = 0"
| "max_calls (Called u v) = 1"
| "max_calls Retrying = 1"
| "max_calls (Recalling c) = 1"
| "max_calls _ = 2"

text \<open>Relative to the invariant: identities are not used twice, and a request that does not run and is
  not answered has not been sent.\<close>

definition net_good :: "net \<Rightarrow> bool" where
  "net_good s \<longleftrightarrow>
     distinct (accepted s) \<and> (\<forall>i \<in> set (accepted s). i < next_id s)
     \<and> (\<forall>t i ph. calling s = Some (t, i, ph) \<longrightarrow> i < next_id s \<and> i \<notin> set (accepted s))
     \<and> (\<forall>i. calls_made i s \<le> 2)
     \<and> (\<forall>i. i \<notin> fst ` set (posted s) \<and> i \<notin> set (running_ids (running s)) \<longrightarrow> calls_made i s = 0)
     \<and> (\<forall>r ph. running s = Some (r, ph) \<longrightarrow> calls_made (req_id r) s \<le> max_calls ph)"


lemma net_good_cong:
  "net_good s \<Longrightarrow> wire t = wire s \<Longrightarrow> accepted t = accepted s \<Longrightarrow> next_id t = next_id s \<Longrightarrow> calling t = calling s
    \<Longrightarrow> posted t = posted s \<Longrightarrow> running t = running s \<Longrightarrow> net_good t"
  by (simp add: net_good_def calls_made_def)

lemma init_net_good: "net_init s \<Longrightarrow> net_good s"
  by (auto simp: net_init_def CNetworkThread_new_def CreateFullStub_def CreateSolidutyStub_def net_good_def
      calls_made_def net_fields_def)

lemma begin_net_good: "net_good s \<Longrightarrow> calling s = None \<Longrightarrow> net_good (rpc_begin t s)"
  by (auto simp: rpc_begin_def net_good_def calls_made_def Let_def less_Suc_eq)

lemma reset_net_good: "net_good s \<Longrightarrow> net_good (ReSetSub full solidity s)"
  by (erule net_good_cong) (simp_all add: ReSetSub_def PostTask_def)

lemma wrapped_net_good: "net_good s \<Longrightarrow> calling s = None \<Longrightarrow> net_good (post_wrapped s)"
  by (auto simp: post_wrapped_def PostTask_def net_good_def calls_made_def Let_def less_Suc_eq)

lemma continue_net_good: "net_good s \<Longrightarrow> net_good (rpc_continue s)"
proof (cases "calling s")
  case None
  assume "net_good s"
  with None show ?thesis by (simp add: rpc_continue_def)
next
  case (Some x)
  obtain t i ph where x: "x = (t, i, ph)" by (cases x)
  assume "net_good s"
  then show ?thesis using Some x
    by (cases ph) (auto simp: rpc_continue_def net_good_def calls_made_def GetRequestContext_def TryCancel_def
        RegisterRequestContext_def PostTask_def Let_def split: option.split)
qed

lemma run_reset_good: "net_good s \<Longrightarrow> net_good (run_reset full solidity s)"
  by (erule net_good_cong) (simp_all add: run_reset_def clear_pool_def CreateFullStub_def CreateSolidutyStub_def Let_def)

lemma take_task_good:
  assumes "net_inv s" "net_good s" "running s = None"
  shows "net_good (take_task v s)"
proof (cases "tasks s")
  case Nil
  with assms show ?thesis by (simp add: take_task_def)
next
  case (Cons t ts)
  show ?thesis
  proof (cases t)
    case (Reset full solidity)
    from assms(2) have "net_good (s\<lparr>tasks := ts\<rparr>)" by (rule net_good_cong) simp_all
    with Cons Reset show ?thesis by (auto simp: take_task_def intro: run_reset_good)
  next
    case (Rpc r)
    with assms Cons have "req_id r \<notin> fst ` set (posted s)" by (auto simp: net_inv_defs net_good_def)
    with assms Cons Rpc show ?thesis by (auto simp: take_task_def net_good_def calls_made_def)
  next
    case (Wrapped i)
    with assms Cons show ?thesis by (auto simp: take_task_def InvokeCallback_def net_good_def calls_made_def)
  qed
qed

lemma run_phase_good:
  assumes "net_good s" "running s = Some (r, ph)"
  shows "net_good (run_phase u v r ph s)"
  using assms
  by (cases ph) (auto simp: run_phase_def remote_call_def RegisterRequestContext_def InvokeCallback_def Let_def
      net_good_def calls_made_def)

lemma step_net_good: "net_inv s \<Longrightarrow> net_good s \<Longrightarrow> net_step s t \<Longrightarrow> net_good t"
  by (erule net_stepE)
     (auto simp: worker_step_def split: option.split
       intro: begin_net_good continue_net_good reset_net_good wrapped_net_good take_task_good run_phase_good)

interpretation network: refined_machine net_init net_step net_inv net_good
  by unfold_locales (fact init_net_inv step_net_inv init_net_good step_net_good)+

lemma reachable_net: "reachable net_init net_step s \<Longrightarrow> net_inv s \<and> net_good s"
  by (simp add: network.reachable_inv network.reachable_good)

section \<open>Coming to rest\<close>

fun phase_work :: "phase \<Rightarrow> nat" where
  "phase_work Calling = 7"
| "phase_work (Called u v) = 6"
| "phase_work Retrying = 5"
| "phase_work (Recalling c) = 4"
| "phase_work (Recalled v) = 3"
| "phase_work (Answering v) = 2"
| "phase_work Finishing = 1"

fun task_work :: "task \<Rightarrow> nat" where
  "task_work (Rpc r) = 8"
| "task_work t = 1"

text \<open>The number of steps the worker takes at most until it rests.\<close>

definition net_work :: "net \<Rightarrow> nat" where
  "net_work s = (case running s of None \<Rightarrow> 0 | Some (r, ph) \<Rightarrow> phase_work ph) + sum_list (map task_work (tasks s))"

definition resting :: "net \<Rightarrow> bool" where
  "resting s \<longleftrightarrow> tasks s = [] \<and> running s = None"

text \<open>The worker alone, with the answers of the nodes to its steps.\<close>

definition worker_run :: "(bool \<times> nat) list \<Rightarrow> net \<Rightarrow> net" where
  "worker_run answers s = foldl (\<lambda>s (u, v). worker_step u v s) s answers"

lemma net_work_0: "net_work s = 0 \<longleftrightarrow> resting s"
proof -
  have "phase_work ph \<noteq> 0" "task_work t \<noteq> 0" for ph t by (cases ph; simp) (cases t; simp)
  then show ?thesis by (cases "tasks s") (auto simp: net_work_def resting_def split: option.split)
qed

lemma run_reset_work [simp]: "tasks (run_reset f a s) = tasks s" "running (run_reset f a s) = running s"
  "accepted (run_reset f a s) = accepted s" "calling (run_reset f a s) = calling s"
  by (simp_all add: run_reset_def clear_pool_def CreateFullStub_def CreateSolidutyStub_def Let_def)

lemma take_task_work: "running s = None \<Longrightarrow> net_work (take_task v s) \<le> net_work s - 1"
  by (auto simp: take_task_def net_work_def InvokeCallback_def split: list.split task.split)

lemma run_phase_work: "running s = Some (r, ph) \<Longrightarrow> net_work (run_phase u v r ph s) \<le> net_work s - 1"
  by (cases ph) (simp_all add: run_phase_def net_work_def remote_call_def RegisterRequestContext_def InvokeCallback_def Let_def)

lemma worker_step_work: "net_work (worker_step u v s) \<le> net_work s - 1"
  by (auto simp: worker_step_def simp del: One_nat_def intro: take_task_work run_phase_work split: option.split)

lemma worker_run_work: "net_work (worker_run answers s) \<le> net_work s - length answers"
proof (induction answers arbitrary: s)
  case (Cons x xs)
  obtain u v where x: "x = (u, v)" by (cases x)
  have "net_work (worker_run xs (worker_step u v s)) \<le> net_work (worker_step u v s) - length xs" by (rule Cons.IH)
  with worker_step_work [of u v s] show ?case by (simp add: x worker_run_def)
qed (simp add: worker_run_def)

lemma worker_run_reachable:
  "reachable net_init net_step s \<Longrightarrow> reachable net_init net_step (worker_run answers s)"
  by (induction answers arbitrary: s) (auto simp: worker_run_def intro: reachable_step step_worker)

lemma worker_step_accepted: "accepted (worker_step u v s) = accepted s" "calling (worker_step u v s) = calling s"
  by (auto simp: worker_step_def take_task_def run_phase_def remote_call_def RegisterRequestContext_def
      InvokeCallback_def Let_def split: option.split list.split task.split phase.split)

lemma worker_run_accepted: "accepted (worker_run answers s) = accepted s"
  by (induction answers arbitrary: s) (auto simp: worker_run_def worker_step_accepted)

section \<open>Properties\<close>

text \<open>A request function from its beginning to its end, without a step of the worker.\<close>

definition call :: "NetworkRequestType \<Rightarrow> event list" where
  "call t = [Request t, Continue, Continue, Continue, Continue, Continue]"

text \<open>C10: in every interleaving, the accepted requests are those answered, in the order of acceptance and
  each once, followed by those outstanding; a request is sent at most twice, and the stubs are
  connected to the configured nodes.\<close>

theorem requests_answered_once:
  assumes "reachable net_init net_step s"
  shows "accepted s = map fst (posted s) @ outstanding s \<and> distinct (accepted s) \<and> (\<forall>i. calls_made i s \<le> 2)
    \<and> full_stub s = full_address_port s \<and> solidity_stub s = solidity_address_port s
    \<and> extension_stub s = solidity_address_port s"
  using reachable_net [OF assms] unfolding net_inv_def net_good_def by blast

text \<open>C14: no request type is locked out: in a reachable state without outstanding work, \<open>RPC_PROC\<close> of any
  type accepts the request.\<close>

theorem resting_accepts:
  assumes "reachable net_init net_step s" "resting s" "calling s = None" "t \<noteq> RequestCount"
  shows "requestContextPool s = [] \<and> lastCallType s = RequestCount
    \<and> (\<exists>s'. net_run (call t) s = Some s'
      \<and> calling s' = None \<and> accepted s' = accepted s @ [next_id s] \<and> lastCallType s' = t
      \<and> tasks s' = [Rpc \<lparr>req_id = next_id s, req_type = t, req_context = next_context s\<rparr>]
      \<and> map_of (requestContextPool s') t = Some (next_context s))"
proof -
  from reachable_net [OF assms(1)] assms(2,3)
  have "fst ` set (requestContextPool s) \<subseteq> {}" "lastCallType s = RequestCount"
    by (auto simp: net_inv_defs resting_def)
  moreover from this have "requestContextPool s = []" by simp
  moreover from assms(2) have "tasks s = []" by (simp add: resting_def)
  ultimately show ?thesis using assms(3,4)
    by (cases s) (simp add: call_def rpc_begin_def rpc_continue_def GetRequestContext_def RegisterRequestContext_def PostTask_def Let_def)
qed

text \<open>C13: the worker comes to rest: whatever the nodes answer, after at most eight steps for each outstanding
  task every accepted request has been answered, in order.\<close>

theorem worker_answers_all:
  assumes "reachable net_init net_step s" "7 + 8 * length (tasks s) \<le> length answers"
  shows "resting (worker_run answers s) \<and> map fst (posted (worker_run answers s)) = accepted s"
proof -
  have "phase_work ph \<le> 7" "task_work t \<le> 8" for ph t by (cases ph; simp) (cases t; simp)
  then have "sum_list (map task_work (tasks s)) \<le> 8 * length (tasks s)"
    using sum_list_mono [of "tasks s" task_work "\<lambda>_. 8"] by (simp add: sum_list_triv mult.commute)
  with \<open>\<And>ph. phase_work ph \<le> 7\<close> have "net_work s \<le> 7 + 8 * length (tasks s)"
    by (auto simp: net_work_def add_mono trans_le_add2 split: option.split)
  with assms(2) worker_run_work [of answers s] have rest: "resting (worker_run answers s)"
    by (simp add: net_work_0 [symmetric])
  moreover have "net_inv (worker_run answers s)"
    by (rule reachable_net [OF worker_run_reachable [OF assms(1)], THEN conjunct1])
  ultimately show ?thesis by (simp add: net_inv_def outstanding_def resting_def worker_run_accepted)
qed

section \<open>Requests in flight that are not cancelled\<close>


lemma net_runE:
  assumes "map_option f (net_run es toy_net) = Some x"
  obtains s where "reachable net_init net_step s" "f s = x"
  using assms net_run_reachable [OF _ toy_net_reachable] by auto

text \<open>A request cancels the one before it by way of \<open>lastCallType_\<close>; but the end of an earlier request
  resets it, and then the request in flight is not cancelled.\<close>

theorem cancel_missed:
  "\<exists>s s' r. reachable net_init net_step s \<and> running s = Some (r, Calling)
    \<and> GetRequestContext (req_type r) s = Some (req_context r)
    \<and> net_run (call Request_GetNowBlock) s = Some s' \<and> lastCallType s' = Request_GetNowBlock
    \<and> req_context r \<notin> set (cancelled s')"
proof -
  let ?r = "\<lparr>req_id = 1, req_type = Request_ListWitnesses, req_context = 1\<rparr>"
  let ?es = "call Request_GetAccount @ call Request_ListWitnesses @ replicate 6 (Work False 0)"
  let ?f = "\<lambda>s. (running s, GetRequestContext Request_ListWitnesses s,
    map_option (\<lambda>s'. (lastCallType s', cancelled s')) (net_run (call Request_GetNowBlock) s))"
  have "map_option ?f (net_run ?es toy_net) = Some (Some (?r, Calling), Some 1, Some (Request_GetNowBlock, [0]))"
    by code_simp
  then obtain s where s: "reachable net_init net_step s"
    "?f s = (Some (?r, Calling), Some 1, Some (Request_GetNowBlock, [0]))" by (rule net_runE)
  then obtain s' where "net_run (call Request_GetNowBlock) s = Some s'" "lastCallType s' = Request_GetNowBlock"
    "cancelled s' = [0]" by auto
  with s show ?thesis by (intro exI [of _ s] exI [of _ s'] exI [of _ ?r]) simp
qed


section \<open>Witnesses\<close>

lemma toy_trace:
  obtains s where "reachable net_init net_step s" "accepted s = [0, 1]" "length (tasks s) = 2"
proof -
  let ?f = "\<lambda>s. (accepted s, length (tasks s))"
  have "map_option ?f (net_run (call Request_GetAccount @ [Wrap]) toy_net) = Some ([0, 1], 2)" by code_simp
  then obtain s where "reachable net_init net_step s" "?f s = ([0, 1], 2)" by (rule net_runE)
  then show ?thesis using that by simp
qed

theorem requests_answered_once_witness:
  "\<exists>s. accepted s = [0, 1] \<and> accepted s = map fst (posted s) @ outstanding s \<and> distinct (accepted s)
    \<and> (\<forall>i. calls_made i s \<le> 2)"
proof -
  obtain s where "reachable net_init net_step s" "accepted s = [0, 1]" by (rule toy_trace)
  with requests_answered_once [of s] show ?thesis by metis
qed

theorem resting_accepts_witness:
  "\<exists>s'. net_run (call Request_GetAccount) toy_net = Some s' \<and> accepted s' = [0]"
proof -
  have "resting toy_net" "calling toy_net = None" "accepted toy_net = []" "next_id toy_net = 0"
    by (simp_all add: resting_def toy_net_def net_fields_def)
  moreover from this obtain s' where "net_run (call Request_GetAccount) toy_net = Some s'"
    "accepted s' = accepted toy_net @ [next_id toy_net]"
    using resting_accepts [of toy_net Request_GetAccount] toy_net_reachable by blast
  ultimately show ?thesis by simp
qed

theorem worker_answers_all_witness:
  "\<exists>s. accepted s = [0, 1] \<and> resting (worker_run (replicate 23 (True, 5)) s)
    \<and> map fst (posted (worker_run (replicate 23 (True, 5)) s)) = [0, 1]"
proof -
  obtain s where "reachable net_init net_step s" "accepted s = [0, 1]" "length (tasks s) = 2" by (rule toy_trace)
  with worker_answers_all [of s "replicate 23 (True, 5)"] show ?thesis by (intro exI [of _ s]) simp
qed

end
