(* ===== verification/Number_Text.thy ===== *)
theory Number_Text
  imports Core_Util "HOL-Library.Signed_Division"
begin

text \<open>
  base/string_number_conversions.cc: numbers and their texts. A value of an integer type is the integer
  it stands for, and the type is the record of its bounds; the templates are functions of it.
  \<open>StringToDouble\<close> calls the C library's \<open>strtod\<close>, which is modelled with it.
\<close>

section \<open>Integer types\<close>

record number_traits =
  t_min :: int
  t_max :: int
  kBase :: int
  is_signed :: bool
  size_of :: nat

definition signed_traits :: "nat \<Rightarrow> int \<Rightarrow> number_traits" where
  "signed_traits n b = \<lparr>t_min = - (2 ^ (8 * n - 1)), t_max = 2 ^ (8 * n - 1) - 1, kBase = b, is_signed = True, size_of = n\<rparr>"

definition unsigned_traits :: "nat \<Rightarrow> int \<Rightarrow> number_traits" where
  "unsigned_traits n b = \<lparr>t_min = 0, t_max = 2 ^ (8 * n) - 1, kBase = b, is_signed = False, size_of = n\<rparr>"

section \<open>Integers to text\<close>

definition SafeUnsignedAbs :: "int \<Rightarrow> int" where
  "SafeUnsignedAbs v = \<bar>v\<bar>"

definition char_of_digit :: "int \<Rightarrow> char" where
  "char_of_digit d = char_of (48 + nat d)"

text \<open>The buffer is filled from its end; \<open>acc\<close> is what has been written.\<close>

function out_digits :: "int \<Rightarrow> string \<Rightarrow> string" where
  "out_digits res acc =
     (let acc = char_of_digit (res mod 10) # acc; res = res div 10 in if res > 0 then out_digits res acc else acc)"
  by auto
termination by (relation "measure (\<lambda>(res, _). nat res)") auto

declare out_digits.simps [simp del]

definition IntToString :: "int \<Rightarrow> string" where
  "IntToString v = (let s = out_digits (SafeUnsignedAbs v) [] in if v < 0 then CHR ''-'' # s else s)"

definition kOutputBufSize :: "number_traits \<Rightarrow> nat" where
  "kOutputBufSize T = 3 * size_of T + (if is_signed T then 1 else 0)"

section \<open>Text to integers\<close>

abbreviation ccode :: "char \<Rightarrow> int" where
  "ccode c \<equiv> int (of_char c)"

definition CharToDigit :: "int \<Rightarrow> char \<Rightarrow> int option" where
  "CharToDigit b c =
     (if b \<le> 10 then (if 48 \<le> ccode c \<and> ccode c < 48 + b then Some (ccode c - 48) else None)
      else if 48 \<le> ccode c \<and> ccode c \<le> 57 then Some (ccode c - 48)
      else if 97 \<le> ccode c \<and> ccode c < 97 + b - 10 then Some (ccode c - 97 + 10)
      else if 65 \<le> ccode c \<and> ccode c < 65 + b - 10 then Some (ccode c - 65 + 10)
      else None)"

definition isspace :: "char \<Rightarrow> bool" where
  "isspace c \<longleftrightarrow> ccode c = 32 \<or> 9 \<le> ccode c \<and> ccode c \<le> 13"

datatype sign = Positive | Negative

text \<open>Whether the next digit fits, and the value left behind when it does not.\<close>

fun CheckBounds :: "number_traits \<Rightarrow> sign \<Rightarrow> int \<Rightarrow> int \<Rightarrow> bool" where
  "CheckBounds T Positive out d \<longleftrightarrow>
     \<not> (out > t_max T sdiv kBase T \<or> out = t_max T sdiv kBase T \<and> d > t_max T smod kBase T)"
| "CheckBounds T Negative out d \<longleftrightarrow>
     \<not> (out < t_min T sdiv kBase T \<or> out = t_min T sdiv kBase T \<and> d > 0 - t_min T smod kBase T)"

fun limit :: "number_traits \<Rightarrow> sign \<Rightarrow> int" where
  "limit T Positive = t_max T"
| "limit T Negative = t_min T"

fun Increment :: "sign \<Rightarrow> int \<Rightarrow> int \<Rightarrow> int" where
  "Increment Positive d out = out + d"
| "Increment Negative d out = out - d"

fun digits_loop :: "number_traits \<Rightarrow> sign \<Rightarrow> bool \<Rightarrow> int \<Rightarrow> string \<Rightarrow> bool \<times> int" where
  "digits_loop T sg first out [] = (True, out)"
| "digits_loop T sg first out (c # cs) =
     (case CharToDigit (kBase T) c of
        None \<Rightarrow> (False, out)
      | Some d \<Rightarrow>
          (if first then digits_loop T sg False (Increment sg d out) cs
           else if CheckBounds T sg out d then digits_loop T sg False (Increment sg d (out * kBase T)) cs
           else (False, limit T sg)))"

definition Base_Invoke :: "number_traits \<Rightarrow> sign \<Rightarrow> string \<Rightarrow> bool \<times> int" where
  "Base_Invoke T sg s =
     (if s = [] then (False, 0)
      else digits_loop T sg True 0
        (if kBase T = 16 \<and> length s > 2 \<and> hd s = CHR ''0'' \<and> (s ! 1 = CHR ''x'' \<or> s ! 1 = CHR ''X'')
         then drop 2 s else s))"

definition RangeToNumber :: "number_traits \<Rightarrow> string \<Rightarrow> bool \<times> int" where
  "RangeToNumber T s =
     (let valid = (takeWhile isspace s = []);
          s = dropWhile isspace s;
          (ok, out) =
            (if s \<noteq> [] \<and> hd s = CHR ''-'' then
               (if \<not> is_signed T then (False, 0) else Base_Invoke T Negative (tl s))
             else Base_Invoke T Positive (if s \<noteq> [] \<and> hd s = CHR ''+'' then tl s else s))
      in (valid \<and> ok, out))"

definition StringToInt64 :: "string \<Rightarrow> bool \<times> int" where
  "StringToInt64 = RangeToNumber (signed_traits 8 10)"

definition StringToInt :: "string \<Rightarrow> bool \<times> int" where
  "StringToInt = RangeToNumber (signed_traits 4 10)"

definition StringToUint :: "string \<Rightarrow> bool \<times> int" where
  "StringToUint = RangeToNumber (unsigned_traits 4 10)"

definition StringToUint64 :: "string \<Rightarrow> bool \<times> int" where
  "StringToUint64 = RangeToNumber (unsigned_traits 8 10)"

definition HexStringToInt :: "string \<Rightarrow> bool \<times> int" where
  "HexStringToInt = RangeToNumber (signed_traits 4 16)"

definition HexStringToUInt :: "string \<Rightarrow> bool \<times> int" where
  "HexStringToUInt = RangeToNumber (unsigned_traits 4 16)"

definition HexStringToInt64 :: "string \<Rightarrow> bool \<times> int" where
  "HexStringToInt64 = RangeToNumber (signed_traits 8 16)"

definition HexStringToUInt64 :: "string \<Rightarrow> bool \<times> int" where
  "HexStringToUInt64 = RangeToNumber (unsigned_traits 8 16)"

section \<open>Bytes in hexadecimal\<close>

definition kHexChars :: string where
  "kHexChars = ''0123456789ABCDEF''"

definition HexEncode :: "bytes \<Rightarrow> string" where
  "HexEncode bs = concat (map (\<lambda>b. [kHexChars ! unat (drop_bit 4 b AND 0xf), kHexChars ! unat (b AND 0xf)]) bs)"

text \<open>The output is what was converted before the first bad pair.\<close>

fun hex_pairs :: "string \<Rightarrow> bool \<times> bytes" where
  "hex_pairs (a # b # s) =
     (case (CharToDigit 16 a, CharToDigit 16 b) of
        (Some m, Some l) \<Rightarrow> (case hex_pairs s of (ok, bs) \<Rightarrow> (ok, (push_bit 4 (of_int m) OR of_int l) # bs))
      | _ \<Rightarrow> (False, []))"
| "hex_pairs _ = (True, [])"

definition HexStringToBytes :: "string \<Rightarrow> bool \<times> bytes" where
  "HexStringToBytes s = (if length s = 0 \<or> length s mod 2 \<noteq> 0 then (False, []) else hex_pairs s)"

section \<open>Text to doubles\<close>

text \<open>
  \<open>strtod\<close> of the C library, in the C locale: the longest prefix that is a decimal or hexadecimal
  floating point number, an infinity or a NaN; the value, the characters consumed and whether
  \<open>errno\<close> is \<open>ERANGE\<close> (also for subnormal results, which the standard leaves open).
\<close>

datatype dbl =
  Fin rat
| Inf bool
| NaN

definition is_digit_of :: "int \<Rightarrow> char \<Rightarrow> bool" where
  "is_digit_of b c \<longleftrightarrow> CharToDigit b c \<noteq> None"

definition digits_value :: "int \<Rightarrow> string \<Rightarrow> int" where
  "digits_value b s = foldl (\<lambda>a c. a * b + the (CharToDigit b c)) 0 s"

definition lower :: "char \<Rightarrow> char" where
  "lower c = (if 65 \<le> ccode c \<and> ccode c \<le> 90 then char_of (of_char c + 32 :: nat) else c)"

definition power_int_of :: "rat \<Rightarrow> int \<Rightarrow> rat" where
  "power_int_of b k = (if 0 \<le> k then b ^ nat k else 1 / b ^ nat (- k))"

text \<open>The digits before and after the point, and what follows.\<close>

definition mantissa :: "int \<Rightarrow> string \<Rightarrow> (string \<times> string \<times> string) option" where
  "mantissa b s =
     (let ip = takeWhile (is_digit_of b) s; r = dropWhile (is_digit_of b) s;
          (fp, r) = (if r \<noteq> [] \<and> hd r = CHR ''.'' then (takeWhile (is_digit_of b) (tl r), dropWhile (is_digit_of b) (tl r)) else ([], r))
      in if ip = [] \<and> fp = [] then None else Some (ip, fp, r))"

definition exponent_part :: "char \<Rightarrow> string \<Rightarrow> int \<times> string" where
  "exponent_part marker s =
     (if s = [] \<or> lower (hd s) \<noteq> marker then (0, s)
      else
        (let r = tl s;
             neg = (r \<noteq> [] \<and> hd r = CHR ''-'');
             r = (if r \<noteq> [] \<and> (hd r = CHR ''-'' \<or> hd r = CHR ''+'') then tl r else r);
             ds = takeWhile (is_digit_of 10) r
         in if ds = [] then (0, s)
            else ((if neg then - digits_value 10 ds else digits_value 10 ds), dropWhile (is_digit_of 10) r)))"

definition round_dbl :: "bool \<Rightarrow> rat \<Rightarrow> dbl \<times> bool" where
  "round_dbl neg x =
     (let y = fl x in
      if y \<ge> 2 ^ 1024 then (Inf neg, True)
      else if y \<noteq> 0 \<and> y < 1 / 2 ^ 1022 then (Fin 0, True)
      else (Fin (if neg then - y else y), False))"

definition float_number :: "bool \<Rightarrow> string \<Rightarrow> (dbl \<times> bool \<times> string) option" where
  "float_number neg s =
     (case (if length s > 2 \<and> hd s = CHR ''0'' \<and> lower (s ! 1) = CHR ''x'' then mantissa 16 (drop 2 s) else None) of
        Some (ip, fp, r) \<Rightarrow>
          (case exponent_part CHR ''p'' r of (e, r) \<Rightarrow>
             case round_dbl neg (of_int (digits_value 16 (ip @ fp)) * power_int_of 2 (e - 4 * int (length fp))) of
               (x, err) \<Rightarrow> Some (x, err, r))
      | None \<Rightarrow>
          (case mantissa 10 s of
             None \<Rightarrow> None
           | Some (ip, fp, r) \<Rightarrow>
               (case exponent_part CHR ''e'' r of (e, r) \<Rightarrow>
                  case round_dbl neg (of_int (digits_value 10 (ip @ fp)) * power_int_of 10 (e - int (length fp))) of
                    (x, err) \<Rightarrow> Some (x, err, r))))"

definition nan_suffix :: "string \<Rightarrow> string" where
  "nan_suffix s =
     (let r = dropWhile (\<lambda>c. is_digit_of 36 c \<or> c = CHR ''_'') (tl s)
      in if s \<noteq> [] \<and> hd s = CHR ''('' \<and> r \<noteq> [] \<and> hd r = CHR '')'' then tl r else s)"

definition strtod :: "string \<Rightarrow> dbl \<times> nat \<times> bool" where
  "strtod s =
     (let r = dropWhile isspace s;
          neg = (r \<noteq> [] \<and> hd r = CHR ''-'');
          r = (if r \<noteq> [] \<and> (hd r = CHR ''-'' \<or> hd r = CHR ''+'') then tl r else r);
          low = map lower r
      in if take 8 low = ''infinity'' then (Inf neg, length s - length (drop 8 r), False)
         else if take 3 low = ''inf'' then (Inf neg, length s - length (drop 3 r), False)
         else if take 3 low = ''nan'' then (NaN, length s - length (nan_suffix (drop 3 r)), False)
         else case float_number neg r of
                None \<Rightarrow> (Fin 0, 0, False)
              | Some (x, err, r) \<Rightarrow> (x, length s - length r, err))"

definition StringToDouble :: "string \<Rightarrow> bool \<times> dbl" where
  "StringToDouble s =
     (case strtod s of (x, n, err) \<Rightarrow> (\<not> err \<and> s \<noteq> [] \<and> n = length s \<and> \<not> isspace (hd s), x))"

section \<open>Bounds\<close>

text \<open>The types have at least two digits, and the bounds are those of a two's complement or unsigned type.\<close>

definition traits_ok :: "number_traits \<Rightarrow> bool" where
  "traits_ok T \<longleftrightarrow> 1 < kBase T \<and> kBase T \<le> t_max T \<and> t_min T \<le> 0 \<and> (is_signed T \<longrightarrow> t_min T \<le> - kBase T)"

lemma div_mod_less:
  fixes m :: int
  assumes "1 < b" "0 \<le> d" "d < b"
  shows "x < m div b \<or> x = m div b \<and> d \<le> m mod b \<longleftrightarrow> x * b + d \<le> m"
proof -
  have m: "m = m div b * b + m mod b" by simp
  have r: "0 \<le> m mod b" "m mod b < b" using assms(1) by simp_all
  consider "x < m div b" | "x = m div b" | "m div b < x" by linarith
  then show ?thesis
  proof cases
    case 1
    then have "(x + 1) * b \<le> m div b * b" using assms(1) by (intro mult_right_mono) auto
    then have "x * b + b \<le> m div b * b" by (simp add: distrib_right)
    with assms r m have "x * b + d \<le> m" by linarith
    with 1 show ?thesis by simp
  next
    case 2
    then have "x * b + m mod b = m" by simp
    then have "d \<le> m mod b \<longleftrightarrow> x * b + d \<le> m" by linarith
    with 2 show ?thesis by simp
  next
    case 3
    then have "(m div b + 1) * b \<le> x * b" using assms(1) by (intro mult_right_mono) auto
    then have "m div b * b + b \<le> x * b" by (simp add: distrib_right)
    with assms r m have "m < x * b + d" by linarith
    with 3 show ?thesis by auto
  qed
qed

lemma sdiv_nonneg: "0 \<le> m \<Longrightarrow> 0 < b \<Longrightarrow> m sdiv b = m div (b :: int)"
  "0 \<le> m \<Longrightarrow> 0 < b \<Longrightarrow> m smod b = m mod (b :: int)"
  by (cases "m = 0"; simp add: signed_divide_int_def signed_modulo_int_def)+

lemma sdiv_nonpos: "m \<le> 0 \<Longrightarrow> 0 < b \<Longrightarrow> m sdiv b = - ((- m) div (b :: int))"
  "m \<le> 0 \<Longrightarrow> 0 < b \<Longrightarrow> m smod b = - ((- m) mod (b :: int))"
  by (cases "m = 0"; simp add: signed_divide_int_def signed_modulo_int_def)+

lemma CheckBounds_iff:
  assumes "traits_ok T" "0 \<le> d" "d < kBase T"
  shows "CheckBounds T Positive out d \<longleftrightarrow> out * kBase T + d \<le> t_max T"
    "CheckBounds T Negative out d \<longleftrightarrow> t_min T \<le> out * kBase T - d"
proof -
  from assms have b: "1 < kBase T" "0 \<le> t_max T" "t_min T \<le> 0" by (auto simp: traits_ok_def)
  have "CheckBounds T Positive out d \<longleftrightarrow>
      out < t_max T div kBase T \<or> out = t_max T div kBase T \<and> d \<le> t_max T mod kBase T"
    using b by (auto simp: sdiv_nonneg)
  with b assms show "CheckBounds T Positive out d \<longleftrightarrow> out * kBase T + d \<le> t_max T"
    by (simp only: div_mod_less)
  have "CheckBounds T Negative out d \<longleftrightarrow>
      - out < (- t_min T) div kBase T \<or> - out = (- t_min T) div kBase T \<and> d \<le> (- t_min T) mod kBase T"
    using b by (auto simp: sdiv_nonpos)
  also have "\<dots> \<longleftrightarrow> - out * kBase T + d \<le> - t_min T" using b assms by (simp only: div_mod_less)
  finally show "CheckBounds T Negative out d \<longleftrightarrow> t_min T \<le> out * kBase T - d" by linarith
qed

lemma CharToDigit_range: "1 < b \<Longrightarrow> CharToDigit b c = Some d \<Longrightarrow> 0 \<le> d \<and> d < b"
  by (auto simp: CharToDigit_def split: if_splits)

text \<open>The value of a list of digits, appended to \<open>v\<close>.\<close>

definition digits_from :: "int \<Rightarrow> int \<Rightarrow> int list \<Rightarrow> int" where
  "digits_from b v ds = foldl (\<lambda>a d. a * b + d) v ds"

lemma digits_from_simps [simp]: "digits_from b v [] = v" "digits_from b v (d # ds) = digits_from b (v * b + d) ds"
  by (simp_all add: digits_from_def)

lemma digits_from_mono: "0 \<le> v \<Longrightarrow> 1 < b \<Longrightarrow> \<forall>d \<in> set ds. 0 \<le> d \<Longrightarrow> v \<le> digits_from b v ds"
proof (induction ds arbitrary: v)
  case (Cons d ds)
  then have "v \<le> v * b + d" using mult_left_mono [of 1 b v] by simp
  moreover have "v * b + d \<le> digits_from b (v * b + d) ds" using Cons \<open>v \<le> v * b + d\<close> by simp
  ultimately show ?case by simp
qed simp

text \<open>The signed value and whether it fits.\<close>

fun signed :: "sign \<Rightarrow> int \<Rightarrow> int" where
  "signed Positive v = v"
| "signed Negative v = - v"

definition fits :: "number_traits \<Rightarrow> sign \<Rightarrow> int \<Rightarrow> bool" where
  "fits T sg v \<longleftrightarrow> t_min T \<le> signed sg v \<and> signed sg v \<le> t_max T"

lemma CheckBounds_fits:
  assumes "traits_ok T" "0 \<le> d" "d < kBase T" "0 \<le> v"
  shows "CheckBounds T sg (signed sg v) d \<longleftrightarrow> fits T sg (v * kBase T + d)"
proof -
  define p where "p = v * kBase T"
  have "0 \<le> p" using assms by (simp add: p_def traits_ok_def)
  moreover have "- v * kBase T = - p" by (simp add: p_def)
  ultimately show ?thesis using assms CheckBounds_iff [OF assms(1-3), of "signed sg v"]
    by (cases sg) (auto simp: fits_def traits_ok_def p_def [symmetric] simp del: CheckBounds.simps)
qed

lemma Increment_signed:
  "Increment sg d (signed sg v * b) = signed sg (v * b + d)" "Increment sg d 0 = signed sg d"
  by (cases sg; simp)+

lemma fits_down:
  "fits T sg w \<Longrightarrow> 0 \<le> v \<Longrightarrow> v \<le> w \<Longrightarrow> traits_ok T \<Longrightarrow> fits T sg v"
  by (cases sg) (auto simp: fits_def traits_ok_def)

lemma digits_loop_eq:
  assumes "traits_ok T" "map (CharToDigit (kBase T)) s = map Some ds" "0 \<le> v" "fits T sg v"
  shows "digits_loop T sg False (signed sg v) s =
    (let w = digits_from (kBase T) v ds in if fits T sg w then (True, signed sg w) else (False, limit T sg))"
  using assms(2-4)
proof (induction s arbitrary: ds v)
  case (Cons c s)
  from Cons.prems obtain d ds' where ds: "ds = d # ds'" "CharToDigit (kBase T) c = Some d"
    "map (CharToDigit (kBase T)) s = map Some ds'" by (cases ds) auto
  from assms(1) have b: "1 < kBase T" by (simp add: traits_ok_def)
  with ds have d: "0 \<le> d" "d < kBase T" by (auto dest: CharToDigit_range)
  have pos: "0 \<le> v * kBase T + d" using Cons.prems d b by simp
  have all: "\<forall>x \<in> set ds'. 0 \<le> x"
  proof
    fix x assume "x \<in> set ds'"
    then have "Some x \<in> set (map (CharToDigit (kBase T)) s)" by (simp add: ds(3))
    with b show "0 \<le> x" by (auto dest!: sym [of "Some x"] CharToDigit_range)
  qed
  have w: "v * kBase T + d \<le> digits_from (kBase T) (v * kBase T + d) ds'"
    by (rule digits_from_mono [OF pos b all])
  show ?case
  proof (cases "fits T sg (v * kBase T + d)")
    case True
    with Cons.IH [OF ds(3) pos True] show ?thesis
      using Cons.prems d assms(1) by (simp add: ds Let_def Increment_signed CheckBounds_fits)
  next
    case False
    then have "\<not> fits T sg (digits_from (kBase T) (v * kBase T + d) ds')" using fits_down [OF _ pos w assms(1)] by blast
    with False show ?thesis using Cons.prems d assms(1) by (simp add: ds Let_def CheckBounds_fits)
  qed
qed (auto simp: Let_def)

section \<open>Properties\<close>

text \<open>The texts of the integers of a type: an optional sign and at least one digit.\<close>

definition digits_of :: "int \<Rightarrow> string \<Rightarrow> int list option" where
  "digits_of b s = those (map (CharToDigit b) s)"

definition number_text :: "number_traits \<Rightarrow> string \<Rightarrow> (sign \<times> string) option" where
  "number_text T s =
     (case s of
        c # r \<Rightarrow> if c = CHR ''-'' then (if is_signed T then Some (Negative, r) else None)
                 else if c = CHR ''+'' then Some (Positive, r) else Some (Positive, s)
      | [] \<Rightarrow> None)"

lemma those_map_Some: "those xs = Some ys \<longleftrightarrow> xs = map Some ys"
proof (induction xs arbitrary: ys)
  case (Cons x xs)
  then show ?case by (cases x; cases ys) auto
qed auto

lemma digits_loop_bad:
  "those (map (CharToDigit (kBase T)) s) = None \<Longrightarrow> \<not> fst (digits_loop T sg first out s)"
  by (induction s arbitrary: first out) (auto split: option.splits)

lemma first_digit_fits: "traits_ok T \<Longrightarrow> 0 \<le> d \<Longrightarrow> d < kBase T \<Longrightarrow> sg = Positive \<or> is_signed T \<Longrightarrow> fits T sg d"
  by (cases sg) (auto simp: fits_def traits_ok_def)

text \<open>The digits of a text in base ten: its value if it fits, and the bound it passes otherwise.\<close>

lemma Base_Invoke_eq:
  assumes "traits_ok T" "kBase T \<noteq> 16" "sg = Positive \<or> is_signed T"
  shows "Base_Invoke T sg s =
    (if s = [] then (False, 0) else
     case digits_of (kBase T) s of
       None \<Rightarrow> (False, snd (Base_Invoke T sg s))
     | Some ds \<Rightarrow> let w = digits_from (kBase T) 0 ds in if fits T sg w then (True, signed sg w) else (False, limit T sg))"
proof (cases s)
  case (Cons c r)
  show ?thesis
  proof (cases "digits_of (kBase T) s")
    case None
    with digits_loop_bad [of T s sg True 0] show ?thesis using assms(2)
      by (auto simp: Base_Invoke_def digits_of_def prod_eq_iff)
  next
    case (Some ds)
    then obtain d ds' where ds: "ds = d # ds'" "CharToDigit (kBase T) c = Some d"
      "map (CharToDigit (kBase T)) r = map Some ds'"
      unfolding digits_of_def those_map_Some Cons by (cases ds) auto
    with assms(1) have d: "0 \<le> d" "d < kBase T" by (auto simp: traits_ok_def dest: CharToDigit_range)
    with assms have "fits T sg d" by (intro first_digit_fits) auto
    with digits_loop_eq [OF assms(1) ds(3) d(1) this] show ?thesis using assms(2)
      by (simp add: Base_Invoke_def Cons ds Some [unfolded Cons ds] Increment_signed)
  qed
qed (simp add: Base_Invoke_def)

lemma digits_loop_range:
  assumes "traits_ok T" "0 \<le> v" "fits T sg v"
  shows "t_min T \<le> snd (digits_loop T sg False (signed sg v) s) \<and> snd (digits_loop T sg False (signed sg v) s) \<le> t_max T"
  using assms(2,3)
proof (induction s arbitrary: v)
  case Nil
  then show ?case by (simp add: fits_def)
next
  case (Cons c s)
  show ?case
  proof (cases "CharToDigit (kBase T) c")
    case None
    with Cons.prems show ?thesis by (simp add: fits_def)
  next
    case (Some d)
    with assms(1) have d: "0 \<le> d" "d < kBase T" by (auto simp: traits_ok_def dest: CharToDigit_range)
    have "t_min T \<le> limit T sg \<and> limit T sg \<le> t_max T" using assms(1) by (cases sg) (auto simp: traits_ok_def)
    moreover have "0 \<le> v * kBase T + d" using Cons.prems(1) d assms(1) by (simp add: traits_ok_def)
    ultimately show ?thesis using Cons d Some assms(1) by (simp add: CheckBounds_fits Increment_signed)
  qed
qed

lemma Base_Invoke_range:
  assumes "traits_ok T" "kBase T \<noteq> 16" "sg = Positive \<or> is_signed T"
  shows "t_min T \<le> snd (Base_Invoke T sg s) \<and> snd (Base_Invoke T sg s) \<le> t_max T"
proof (cases s)
  case (Cons c r)
  show ?thesis
  proof (cases "CharToDigit (kBase T) c")
    case None
    with assms show ?thesis by (auto simp: Base_Invoke_def Cons traits_ok_def)
  next
    case (Some d)
    with assms(1) have d: "0 \<le> d" "d < kBase T" by (auto simp: traits_ok_def dest: CharToDigit_range)
    with assms have "fits T sg d" by (intro first_digit_fits) auto
    from digits_loop_range [OF assms(1) d(1) this, of r] show ?thesis
      using assms(2) Some by (simp add: Base_Invoke_def Cons Increment_signed)
  qed
qed (use assms(1) in \<open>auto simp: Base_Invoke_def traits_ok_def\<close>)

lemma RangeToNumber_range:
  assumes "traits_ok T" "kBase T \<noteq> 16"
  shows "t_min T \<le> snd (RangeToNumber T s) \<and> snd (RangeToNumber T s) \<le> t_max T"
  using assms Base_Invoke_range [OF assms, of Negative "tl (dropWhile isspace s)"]
    Base_Invoke_range [OF assms, of Positive "tl (dropWhile isspace s)"]
    Base_Invoke_range [OF assms, of Positive "dropWhile isspace s"]
  by (auto simp: RangeToNumber_def Let_def traits_ok_def split: prod.splits)

lemma isspace_no_digit: "isspace c \<Longrightarrow> CharToDigit b c = None" "isspace c \<Longrightarrow> c \<noteq> CHR ''-''" "isspace c \<Longrightarrow> c \<noteq> CHR ''+''"
  by (auto simp: isspace_def CharToDigit_def)

lemma not_space: "CharToDigit b c = Some d \<Longrightarrow> \<not> isspace c" "\<not> isspace CHR ''-''" "\<not> isspace CHR ''+''"
  using isspace_no_digit by fastforce+

text \<open>The text of a number of the type: accepted if it fits, and the bound otherwise.\<close>

lemma RangeToNumber_text:
  assumes "traits_ok T" "kBase T \<noteq> 16" "number_text T s = Some (sg, r)" "digits_of (kBase T) r = Some ds" "r \<noteq> []"
  shows "RangeToNumber T s =
    (let w = digits_from (kBase T) 0 ds in if fits T sg w then (True, signed sg w) else (False, limit T sg))"
proof -
  from assms(3) obtain c s' where s: "s = c # s'" by (cases s) (auto simp: number_text_def)
  from assms(4,5) obtain c' r' d where r: "r = c' # r'" "CharToDigit (kBase T) c' = Some d"
    by (cases r) (auto simp: digits_of_def split: option.splits)
  have "\<not> isspace c" using assms(3) r not_space by (auto simp: number_text_def s split: if_splits)
  then have "takeWhile isspace s = []" "dropWhile isspace s = s" by (simp_all add: s)
  moreover have "sg = Positive \<or> is_signed T" using assms(3) by (auto simp: number_text_def s split: if_splits)
  note Base_Invoke_eq [OF assms(1,2) this, of r]
  ultimately show ?thesis using assms(3-5)
    by (auto simp: RangeToNumber_def number_text_def s Let_def split: if_splits prod.splits)
qed

lemma RangeToNumber_accepts:
  assumes "traits_ok T" "kBase T \<noteq> 16" "fst (RangeToNumber T s)"
  obtains sg r ds where "number_text T s = Some (sg, r)" "digits_of (kBase T) r = Some ds" "r \<noteq> []"
proof -
  from assms(3) have "takeWhile isspace s = []" by (auto simp: RangeToNumber_def Let_def split: prod.splits)
  then have d: "dropWhile isspace s = s" by (cases s) (auto split: if_splits)
  let ?n = "s \<noteq> [] \<and> hd s = CHR ''-''"
  define sg where "sg = (if ?n then Negative else Positive)"
  define r where "r = (if ?n \<or> s \<noteq> [] \<and> hd s = CHR ''+'' then tl s else s)"
  have ok: "fst (Base_Invoke T sg r)" "sg = Positive \<or> is_signed T"
    using assms(3) by (auto simp: RangeToNumber_def Let_def d sg_def r_def split: if_splits prod.splits)
  with Base_Invoke_eq [OF assms(1,2) ok(2), of r] have "r \<noteq> []" "digits_of (kBase T) r \<noteq> None"
    by (metis fst_conv, metis fst_conv option.simps(4))
  moreover have "number_text T s = Some (sg, r)"
    using ok \<open>r \<noteq> []\<close> by (cases s) (auto simp: number_text_def sg_def r_def)
  ultimately show ?thesis using that by blast
qed

lemma traits_ok_intros: "2 \<le> n \<Longrightarrow> traits_ok (signed_traits n 10)" "2 \<le> n \<Longrightarrow> traits_ok (unsigned_traits n 10)"
proof -
  assume n: "2 \<le> n"
  have "(2 :: int) ^ 15 \<le> 2 ^ (8 * n - 1)" "(2 :: int) ^ 16 \<le> 2 ^ (8 * n)" using n by (intro power_increasing; simp)+
  then show "traits_ok (signed_traits n 10)" "traits_ok (unsigned_traits n 10)"
    by (simp_all add: traits_ok_def signed_traits_def unsigned_traits_def)
qed

text \<open>C38: \<open>StringToInt64\<close> and its kin accept exactly the decimal texts of the numbers of the type, with an
  optional sign and nothing else; a number outside the type leaves the nearest bound, and no text
  leaves a value outside.\<close>

theorem text_to_integer:
  assumes "traits_ok T" "kBase T = 10"
  shows "(RangeToNumber T s = (True, v) \<longleftrightarrow>
      (\<exists>sg r ds. number_text T s = Some (sg, r) \<and> r \<noteq> [] \<and> digits_of 10 r = Some ds
        \<and> v = signed sg (digits_from 10 0 ds) \<and> t_min T \<le> v \<and> v \<le> t_max T))
    \<and> (\<forall>sg r ds. number_text T s = Some (sg, r) \<and> r \<noteq> [] \<and> digits_of 10 r = Some ds
        \<and> \<not> fits T sg (digits_from 10 0 ds) \<longrightarrow> RangeToNumber T s = (False, limit T sg))
    \<and> t_min T \<le> snd (RangeToNumber T s) \<and> snd (RangeToNumber T s) \<le> t_max T"
proof (intro conjI iffI allI impI)
  have b: "kBase T \<noteq> 16" using assms(2) by simp
  show "t_min T \<le> snd (RangeToNumber T s)" "snd (RangeToNumber T s) \<le> t_max T"
    using RangeToNumber_range [OF assms(1) b, of s] by simp_all
  {
    assume ok: "RangeToNumber T s = (True, v)"
    then obtain sg r ds where n: "number_text T s = Some (sg, r)" "digits_of (kBase T) r = Some ds" "r \<noteq> []"
      using RangeToNumber_accepts [OF assms(1) b, of s] by auto
    from RangeToNumber_text [OF assms(1) b this] ok
    have "v = signed sg (digits_from 10 0 ds)" "t_min T \<le> v" "v \<le> t_max T"
      by (auto simp: assms(2) Let_def fits_def split: if_splits)
    with n assms(2) show "\<exists>sg r ds. number_text T s = Some (sg, r) \<and> r \<noteq> [] \<and> digits_of 10 r = Some ds
        \<and> v = signed sg (digits_from 10 0 ds) \<and> t_min T \<le> v \<and> v \<le> t_max T" by auto
  next
    assume "\<exists>sg r ds. number_text T s = Some (sg, r) \<and> r \<noteq> [] \<and> digits_of 10 r = Some ds
        \<and> v = signed sg (digits_from 10 0 ds) \<and> t_min T \<le> v \<and> v \<le> t_max T"
    then show "RangeToNumber T s = (True, v)"
      using RangeToNumber_text [OF assms(1) b, of s] by (auto simp: assms(2) fits_def)
  next
    fix sg r ds
    assume "number_text T s = Some (sg, r) \<and> r \<noteq> [] \<and> digits_of 10 r = Some ds \<and> \<not> fits T sg (digits_from 10 0 ds)"
    then show "RangeToNumber T s = (False, limit T sg)"
      using RangeToNumber_text [OF assms(1) b, of s sg r ds] by (simp add: assms(2))
  }
qed

lemma out_digits_ok:
  assumes "0 \<le> res"
  shows "\<exists>p ds. out_digits res acc = p @ acc \<and> p \<noteq> [] \<and> digits_of 10 p = Some ds \<and> digits_from 10 0 ds = res
    \<and> (\<forall>k \<ge> 1. res < 10 ^ k \<longrightarrow> length p \<le> k)"
  using assms
proof (induction res acc rule: out_digits.induct)
  case (1 res acc)
  let ?c = "char_of_digit (res mod 10)"
  have c: "CharToDigit 10 ?c = Some (res mod 10)"
    by (simp add: char_of_digit_def CharToDigit_def)
  show ?case
  proof (cases "res div 10 > 0")
    case True
    with 1(1) [OF refl refl True] obtain p ds where p: "out_digits (res div 10) (?c # acc) = p @ ?c # acc" "p \<noteq> []"
      "digits_of 10 p = Some ds" "digits_from 10 0 ds = res div 10" "\<forall>k \<ge> 1. res div 10 < 10 ^ k \<longrightarrow> length p \<le> k"
      by auto
    have "out_digits res acc = (p @ [?c]) @ acc" using True p(1) by (simp add: out_digits.simps [of res] Let_def)
    moreover have "digits_of 10 (p @ [?c]) = Some (ds @ [res mod 10])"
      using p(3) c by (simp add: digits_of_def those_map_Some)
    moreover have "digits_from 10 0 (ds @ [res mod 10]) = res" using p(4) by (simp add: digits_from_def)
    moreover have "length (p @ [?c]) \<le> k" if "1 \<le> k" "res < 10 ^ k" for k
    proof -
      have "k \<noteq> 1" using True that by auto
      with that obtain j where j: "k = Suc j" "1 \<le> j" by (cases k) auto
      with that(2) have "res div 10 < 10 ^ j" by (simp add: div_less_iff_less_mult)
      with p(5) j show ?thesis by simp
    qed
    ultimately show ?thesis by blast
  next
    case False
    with 1(2) have "res div 10 = 0" "res mod 10 = res" by (auto simp: not_less)
    with c False have "out_digits res acc = [?c] @ acc" "digits_of 10 [?c] = Some [res]"
      by (simp_all add: out_digits.simps [of res] digits_of_def)
    then show ?thesis by (intro exI [of _ "[?c]"] exI [of _ "[res]"]) simp
  qed
qed

text \<open>The text of a value of a type reads back as the value, and its digits and sign fit the buffer
  with a place to spare, as the assertion before each character demands.\<close>

theorem integer_text_roundtrip:
  assumes "2 \<le> n" "T = signed_traits n 10 \<or> T = unsigned_traits n 10" "t_min T \<le> v" "v \<le> t_max T"
  shows "RangeToNumber T (IntToString v) = (True, v) \<and> length (IntToString v) < kOutputBufSize T"
proof
  obtain p ds where p: "out_digits \<bar>v\<bar> [] = p" "p \<noteq> []" "digits_of 10 p = Some ds" "digits_from 10 0 ds = \<bar>v\<bar>"
    "\<forall>k \<ge> 1. \<bar>v\<bar> < 10 ^ k \<longrightarrow> length p \<le> k" using out_digits_ok [of "\<bar>v\<bar>" "[]"] by auto
  have T: "traits_ok T" "kBase T = 10" using assms(1,2) traits_ok_intros
    by (auto simp: signed_traits_def unsigned_traits_def)
  obtain c p' where cp: "p = c # p'" "CharToDigit 10 c \<noteq> None"
    using p(2,3) by (cases p) (auto simp: digits_of_def split: option.splits)
  then have c: "p = c # p'" "c \<noteq> CHR ''-''" "c \<noteq> CHR ''+''" by (auto simp: CharToDigit_def)
  have sg: "is_signed T" if "v < 0" using that assms(2,3) by (auto simp: signed_traits_def unsigned_traits_def)
  show "RangeToNumber T (IntToString v) = (True, v)"
  proof (cases "v < 0")
    case True
    then have "number_text T (IntToString v) = Some (Negative, p)"
      using sg p(1) by (simp add: IntToString_def SafeUnsignedAbs_def number_text_def)
    with RangeToNumber_text [OF T(1) _ this, of ds] True p T(2) assms(3,4) show ?thesis by (auto simp: fits_def)
  next
    case False
    then have "number_text T (IntToString v) = Some (Positive, p)"
      using c p(1) by (simp add: IntToString_def SafeUnsignedAbs_def number_text_def)
    with RangeToNumber_text [OF T(1) _ this, of ds] False p T(2) assms(3,4) show ?thesis by (auto simp: fits_def)
  qed
  obtain m where n: "n = m + 2" using assms(1) by (metis le_add_diff_inverse2)
  have "(2 :: int) ^ (8 * n) = 65536 * 256 ^ m" by (simp add: n power_add power_mult)
  also have "\<dots> \<le> 65536 * 1000 ^ m" by (intro mult_left_mono power_mono) auto
  also have "\<dots> < 100000 * 1000 ^ m" by simp
  also have "\<dots> = 10 ^ (3 * n - 1)" by (simp add: n power_add power_mult)
  finally have big: "(2 :: int) ^ (8 * n) < 10 ^ (3 * n - 1)" .
  have "(2 :: int) ^ (8 * n - 1) \<le> 2 ^ (8 * n)" by (intro power_increasing) auto
  moreover have "\<bar>v\<bar> \<le> 2 ^ (8 * n - 1) \<or> \<bar>v\<bar> < 2 ^ (8 * n)"
    using assms(2-4) by (auto simp: signed_traits_def unsigned_traits_def)
  ultimately have "\<bar>v\<bar> < 10 ^ (3 * n - 1)" using big by linarith
  with p(5) assms(1) have len: "length p \<le> 3 * n - 1" by simp
  have "size_of T = n" using assms(2) by (auto simp: signed_traits_def unsigned_traits_def)
  with len sg assms(1) p(1) show "length (IntToString v) < kOutputBufSize T"
    by (auto simp: IntToString_def SafeUnsignedAbs_def kOutputBufSize_def)
qed

theorem text_to_integer_witness:
  "RangeToNumber (signed_traits 8 10) ''-9223372036854775808'' = (True, - (2 ^ 63))
    \<and> RangeToNumber (signed_traits 8 10) ''9223372036854775808'' = (False, 2 ^ 63 - 1)"
proof -
  have T: "traits_ok (signed_traits 8 10)" "kBase (signed_traits 8 10) = 10"
    by (rule traits_ok_intros, simp) (simp add: signed_traits_def)
  have "number_text (signed_traits 8 10) ''-9223372036854775808'' = Some (Negative, ''9223372036854775808'')"
    "digits_of 10 ''9223372036854775808'' = Some [9,2,2,3,3,7,2,0,3,6,8,5,4,7,7,5,8,0,8]"
    "number_text (signed_traits 8 10) ''9223372036854775808'' = Some (Positive, ''9223372036854775808'')"
    by code_simp+
  moreover have "digits_from 10 0 [9,2,2,3,3,7,2,0,3,6,8,5,4,7,7,5,8,0,8] = 2 ^ 63" by code_simp
  ultimately show ?thesis
    using text_to_integer [OF T, of "''-9223372036854775808''" "- (2 ^ 63)"]
      text_to_integer [OF T, of "''9223372036854775808''" 0]
    by (auto simp: fits_def signed_traits_def)
qed

theorem integer_text_roundtrip_witness:
  "RangeToNumber (signed_traits 8 10) (IntToString (-5)) = (True, -5)"
  using integer_text_roundtrip [of 8 "signed_traits 8 10" "-5"] by (simp add: signed_traits_def)

text \<open>A decimal text of an amount is read as the nearest double.\<close>

lemma takeWhile_all: "\<forall>c \<in> set s. P c \<Longrightarrow> takeWhile P s = s" "\<forall>c \<in> set s. P c \<Longrightarrow> dropWhile P s = []"
  by (simp_all add: takeWhile_eq_all_conv dropWhile_eq_Nil_conv)

lemma digit_range: "is_digit_of 10 c \<longleftrightarrow> 48 \<le> ccode c \<and> ccode c \<le> 57"
  by (auto simp: is_digit_of_def CharToDigit_def)

lemma digit_facts: "is_digit_of 10 c \<Longrightarrow> \<not> isspace c \<and> lower c = c \<and> c \<notin> set ''-+.xin''"
  by (auto simp: digit_range isspace_def lower_def)

theorem decimal_text_reads:
  assumes "ip \<noteq> []" "\<forall>c \<in> set (ip @ fp). is_digit_of 10 c" "round_dbl False (of_int (digits_value 10 (ip @ fp)) / 10 ^ length fp) = (x, False)"
  shows "StringToDouble (ip @ CHR ''.'' # fp) = (True, x)"
proof -
  let ?s = "ip @ CHR ''.'' # fp"
  obtain c r where ip: "ip = c # r" using assms(1) by (cases ip) auto
  have c: "is_digit_of 10 c" using assms(2) ip by simp
  note d = digit_facts [OF c]
  have hd: "dropWhile isspace ?s = ?s" using d by (simp add: ip)
  have dot: "\<not> is_digit_of 10 CHR ''.''" "lower CHR ''.'' = CHR ''.''" by (simp_all add: digit_range lower_def)
  have "mantissa 10 ?s = Some (ip, fp, [])"
    using assms(1,2) dot by (auto simp: mantissa_def takeWhile_append dropWhile_append takeWhile_all Let_def)
  moreover have "lower (?s ! 1) \<noteq> CHR ''x''"
  proof (cases r)
    case (Cons e r')
    with assms(2) ip have "is_digit_of 10 e" by simp
    with digit_facts [OF this] show ?thesis by (simp add: ip Cons)
  qed (simp add: ip dot)
  ultimately have "float_number False ?s = Some (x, False, [])"
    using assms(3) by (cases "fp = []") (simp_all add: float_number_def exponent_part_def power_int_of_def Let_def)
  moreover have "take 8 (map lower ?s) \<noteq> ''infinity''" "take 3 (map lower ?s) \<noteq> ''inf''" "take 3 (map lower ?s) \<noteq> ''nan''"
    using d by (auto simp: ip)
  ultimately show ?thesis using d by (simp add: StringToDouble_def strtod_def hd Let_def) (simp add: ip)
qed

theorem decimal_text_reads_witness: "StringToDouble ''0.000249'' = (True, Fin (fl (249 / 1000000)))"
proof -
  have "round_dbl False (of_int (digits_value 10 (''0'' @ ''000249'')) / 10 ^ length ''000249'') = (Fin (fl (249 / 1000000)), False)"
    by code_simp
  from decimal_text_reads [OF _ _ this] show ?thesis by (simp add: digit_range)
qed

lemma kHexChars_digit: "n < 16 \<Longrightarrow> CharToDigit 16 (kHexChars ! n) = Some (int n)"
proof -
  have "list_all (\<lambda>n. CharToDigit 16 (kHexChars ! n) = Some (int n)) [0..<16]" by code_simp
  then show "n < 16 \<Longrightarrow> CharToDigit 16 (kHexChars ! n) = Some (int n)" by (simp add: list_all_iff)
qed

lemma HexEncode_eq:
  "HexEncode bs = concat (map (\<lambda>b. [kHexChars ! (unat b div 16), kHexChars ! (unat b mod 16)]) bs)"
  unfolding HexEncode_def by (simp only: nibble_unat(1)) (simp only: nibble_unat(2))

lemma nibbles_join: "push_bit 4 (of_int (int (unat (b :: byte) div 16))) OR of_int (int (unat b mod 16)) = b"
proof -
  have "(of_int (int (unat b div 16)) :: byte) = drop_bit 4 b AND 0xf" "(of_int (int (unat b mod 16)) :: byte) = b AND 0xf"
    by (simp only: nibble_unat(1) [symmetric], simp) (simp only: nibble_unat(2) [symmetric], simp)
  moreover have "push_bit 4 (drop_bit 4 b AND 0xf) OR (b AND 0xf) = b"
    unfolding and_0x0f by (rule bit_word_eqI) (auto simp: bit_simps)
  ultimately show ?thesis by simp
qed

text \<open>\<open>HexEncode\<close> is undone by \<open>HexStringToBytes\<close>, which refuses the empty text.\<close>

theorem hex_text_roundtrip: "HexStringToBytes (HexEncode bs) = (bs \<noteq> [], bs)"
proof -
  have "hex_pairs (HexEncode bs) = (True, bs)"
    by (induction bs) (simp_all only: HexEncode_eq list.map concat.simps append.simps hex_pairs.simps
      kHexChars_digit nibbles_less nibbles_join option.case prod.case)
  moreover have "length (HexEncode bs) = 2 * length bs" by (induction bs) (simp_all add: HexEncode_def)
  ultimately show ?thesis by (auto simp: HexStringToBytes_def)
qed

end
