(* ===== verification/Form_Flow.thy ===== *)
theory Form_Flow
  imports Number_Text Network_Thread
begin

text \<open>
  What the forms of wallet/gui have in common. A handler runs on the window's thread; what it does is
  the list of its actions: showing something, submitting a request with its callback, or an
  exception. The callback is run when the network thread has answered, and is given the reply; a
  request that is dropped as a duplicate is not answered. The messages are records of the fields that
  the forms use, their classes are generated code; the texts of the widgets are UTF-8 strings.
\<close>

section \<open>Messages\<close>

record account =
  acc_address :: bytes
  acc_balance :: "64 word"
  acc_frozen :: "(64 word \<times> 64 word) list"
  acc_asset :: "(string \<times> 64 word) list"

record asset_issue =
  iss_owner :: bytes
  iss_name :: string
  iss_total_supply :: "64 word"
  iss_trx_num :: "32 word"
  iss_num :: "32 word"
  iss_start_time :: "64 word"
  iss_end_time :: "64 word"
  iss_description :: string
  iss_url :: string

text \<open>The owner comes first; then the fields in the order of the message.\<close>

datatype contract =
  TransferContract bytes bytes "64 word"
| TransferAssetContract bytes string bytes "64 word"
| VoteWitnessContract bytes "(bytes \<times> 64 word) list"
| AssetIssueContract asset_issue
| ParticipateAssetIssueContract bytes bytes string "64 word"
| FreezeBalanceContract bytes "64 word" "64 word"
| UnfreezeBalanceContract bytes
| UpdateAssetContract bytes string string "64 word" "64 word"

datatype payload =
  Account bytes
| AccountPaginated bytes int int
| Contract contract
| Transaction tx_message
| EmptyMessage

record witness =
  wit_address :: bytes
  wit_votes :: "64 word"
  wit_url :: string

datatype answer =
  AnAccount account
| ATransaction tx_message
| AReturn bool string
| Witnesses "witness list"
| Issues "asset_issue list"
| Transactions "tx_message list"

section \<open>Actions\<close>

datatype ui =
  MessageBox string
| ShowStatus string
| AutoHideShowStatus string
| UIShow bool
| PostEvent string
| ShowContent string
| ShowTransactionInfo tx_message
| SaveDialog tx_message
| SetText string
| ShowMenu string bool
| ShowAddresses string "string list"
| OpenFileDlg string

datatype action =
  Ui ui
| Request NetworkRequestType payload "answer \<Rightarrow> action list"
| Raise error

text \<open>The callbacks of the typed replies.\<close>

fun on_account :: "(account \<Rightarrow> action list) \<Rightarrow> answer \<Rightarrow> action list" where
  "on_account k (AnAccount a) = k a"
| "on_account k _ = []"

fun on_transaction :: "(tx_message \<Rightarrow> action list) \<Rightarrow> answer \<Rightarrow> action list" where
  "on_transaction k (ATransaction t) = k t"
| "on_transaction k _ = []"

fun on_issues :: "(asset_issue list \<Rightarrow> action list) \<Rightarrow> answer \<Rightarrow> action list" where
  "on_issues k (Issues l) = k l"
| "on_issues k _ = []"

fun on_transactions :: "(tx_message list \<Rightarrow> action list) \<Rightarrow> answer \<Rightarrow> action list" where
  "on_transactions k (Transactions l) = k l"
| "on_transactions k _ = []"

fun on_return :: "(bool \<Rightarrow> string \<Rightarrow> action list) \<Rightarrow> answer \<Rightarrow> action list" where
  "on_return k (AReturn b m) = k b m"
| "on_return k _ = []"

text \<open>What an answer leads to: the callback of the first request of a handler. No handler of the forms
  modelled here submits two.\<close>

fun answered :: "answer \<Rightarrow> action list \<Rightarrow> action list" where
  "answered a [] = []"
| "answered a (Request t p k # acts) = k a"
| "answered a (_ # acts) = answered a acts"

definition follow :: "action list \<Rightarrow> answer list \<Rightarrow> action list" where
  "follow acts as = foldl (\<lambda>acts a. answered a acts) acts as"

fun requests :: "action list \<Rightarrow> (NetworkRequestType \<times> payload) list" where
  "requests [] = []"
| "requests (Request t p k # acts) = (t, p) # requests acts"
| "requests (_ # acts) = requests acts"

fun shown :: "action list \<Rightarrow> ui list" where
  "shown [] = []"
| "shown (Ui u # acts) = u # shown acts"
| "shown (_ # acts) = shown acts"

lemma follow_simps [simp]: "follow acts [] = acts" "follow acts (a # as) = follow (answered a acts) as"
  by (simp_all add: follow_def)

lemma follow_Nil [simp]: "follow [] as = []"
  by (induction as) simp_all

lemma requests_append [simp]: "requests (xs @ ys) = requests xs @ requests ys"
  by (induction xs rule: requests.induct) simp_all

section \<open>The account that signs\<close>

text \<open>
  What the forms ask of \<open>AccountManager\<close> and of the clock: the address of the account that is logged in
  (empty if none is), the secret for an address, and the readings of the clock.
\<close>

record form_env =
  fe_lib :: crypto_lib
  fe_ser :: "raw_data \<Rightarrow> bytes"
  fe_clock :: "nat \<Rightarrow> nat"
  fe_address :: bytes
  fe_private :: "bytes \<Rightarrow> bytes result"

abbreviation fe_sha :: "form_env \<Rightarrow> bytes \<Rightarrow> bytes" where
  "fe_sha E \<equiv> lib_sha256 (fe_lib E)"

definition SignTransaction :: "form_env \<Rightarrow> tx_message \<Rightarrow> (bool \<times> tx_message) result" where
  "SignTransaction E tx = SignTransaction_account (fe_lib E) (fe_ser E) (fe_clock E 1) (fe_address E) (fe_private E) tx"

definition OnTransactionCreateFailed :: "action list" where
  "OnTransactionCreateFailed = [Ui (AutoHideShowStatus ''Create transaction failed!'')]"

text \<open>The callback of every form for the transaction that the node has made of a contract: sign it and
  broadcast it; \<open>after\<close> is what follows the request.\<close>

definition SignAndBroadcast ::
  "form_env \<Rightarrow> (bool \<Rightarrow> string \<Rightarrow> action list) \<Rightarrow> action list \<Rightarrow> action list \<Rightarrow> tx_message \<Rightarrow> action list" where
  "SignAndBroadcast E ret after failed tx =
     (case SignTransaction E tx of
        Inl e \<Rightarrow> [Raise e]
      | Inr (ok, tx) \<Rightarrow>
          if ok then Request Request_BroadcastTransaction (Transaction tx) (on_return ret) # after else failed)"

text \<open>The conversion of a double: also an infinity or a NaN is out of range.\<close>

fun ToDrop_dbl :: "dbl \<Rightarrow> int result" where
  "ToDrop_dbl (Fin x) = ToDrop x"
| "ToDrop_dbl _ = Inl OutOfRange"

section \<open>Signing\<close>

text \<open>A transaction that was signed: its contracts are untouched, there is one, and a signature of the
  logged in account's key over the raw data has been added for each.\<close>

definition signed_by :: "form_env \<Rightarrow> tx_message \<Rightarrow> tx_message \<Rightarrow> bool" where
  "signed_by E tx tx' \<longleftrightarrow>
     (\<exists>adr key sig. ToAddress (fe_address E) = Inr adr \<and> fe_private E adr = Inr key \<and> key \<noteq> []
       \<and> raw_contracts (tx_raw tx) \<noteq> [] \<and> tx_raw tx' = (tx_raw tx)\<lparr>raw_timestamp := of_nat (fe_clock E 1)\<rparr>
       \<and> sign (fe_lib E) key (lib_sha256 (fe_lib E) (fe_ser E (tx_raw tx'))) = Inr sig
       \<and> tx_signatures tx' = tx_signatures tx @ replicate (length (raw_contracts (tx_raw tx))) sig)"

lemma SignTransaction_signed:
  assumes "SignTransaction E tx = Inr (True, tx')"
  shows "signed_by E tx tx'"
  using assms
  by (auto simp: SignTransaction_def SignTransaction_account_def signed_by_def add_signatures_def Let_def rbind_eq_Inr
      split: if_splits)

lemma SignAndBroadcast_requests:
  assumes "requests after = []" "requests failed = []" "r \<in> set (requests (SignAndBroadcast E ret after failed tx))"
  shows "\<exists>tx'. r = (Request_BroadcastTransaction, Transaction tx') \<and> signed_by E tx tx'"
  using assms SignTransaction_signed [of E tx]
  by (auto simp: SignAndBroadcast_def split: sum.splits if_splits)

section \<open>Whole amounts\<close>

lemma quotient_of_nat: "quotient_of (of_int n) = (n, 1)"
  by (simp add: quotient_of_int of_int_def [symmetric])

lemma exponent_of_int:
  assumes "0 < n"
  shows "exponent (of_int n) = bitlen n - 1"
proof -
  have "2 ^ nat (bitlen n - 1) \<le> n" using bitlen_bounds [OF assms] by simp
  moreover have "1 \<le> bitlen n" using assms by (simp add: bitlen_alt_def)
  moreover have "bitlen 1 = 1" by code_simp
  ultimately show ?thesis by (simp add: exponent_def quotient_of_nat pow2_def Let_def)
qed

lemma round_half_even_of_int: "round_half_even (of_int m) = m"
  by (simp only: round_half_even_def floor_of_int Let_def) simp

text \<open>A double holds every integer below \<open>2 ^ 53\<close>.\<close>

lemma fl_of_int:
  assumes "\<bar>n\<bar> < 2 ^ 53"
  shows "fl (of_int n) = of_int n"
proof (cases "n = 0")
  case False
  define e where "e = nat (bitlen \<bar>n\<bar> - 1)"
  have "2 ^ e \<le> \<bar>n\<bar>" using bitlen_bounds [of "\<bar>n\<bar>"] False by (simp add: e_def)
  with assms have "(2 :: int) ^ e < 2 ^ 53" by linarith
  then have "e < 53" using power_less_imp_less_exp [of "2 :: int" e 53] by simp
  have "bitlen \<bar>n\<bar> \<noteq> 0" using False by (simp add: bitlen_eq_zero_iff)
  then have "bitlen \<bar>n\<bar> = int e + 1" using bitlen_nonneg [of "\<bar>n\<bar>"] by (simp add: e_def)
  with False have x: "exponent \<bar>of_int n\<bar> = int e" by (simp add: exponent_of_int flip: of_int_abs)
  define u where "u = pow2 (int e - 52)"
  have u: "u = 1 / 2 ^ (52 - e)"
  proof (cases "e = 52")
    case False
    then have "int e - 52 < 0" "nat (52 - int e) = 52 - e" using \<open>e < 53\<close> by simp_all
    then show ?thesis by (simp add: u_def pow2_def)
  qed (simp add: u_def pow2_def)
  have "of_int n / u = of_int (n * 2 ^ (52 - e))" by (simp add: u)
  then have "round_half_even (of_int n / u) = n * 2 ^ (52 - e)" by (simp only: round_half_even_of_int)
  then have "fl (of_int n) = of_int (n * 2 ^ (52 - e)) * u"
    using False x by (simp add: fl_def u_def [symmetric] Let_def)
  then show ?thesis by (simp add: u)
qed (simp add: fl_def)

lemma ToDrop_of_int:
  assumes "\<bar>n * 1000000\<bar> < 2 ^ 53"
  shows "ToDrop (of_int n) = Inr (n * 1000000)"
proof -
  have "fl (of_int n * of_int TRX_DROP_RATE) = of_int (n * 1000000)"
    using fl_of_int [of "n * 1000000"] assms by (simp add: TRX_DROP_RATE_def)
  moreover have "to_int64 (of_int (n * 1000000)) = Inr (n * 1000000)"
    unfolding to_int64_def floor_of_int ceiling_of_int Let_def if_cancel using assms by (simp add: abs_less_iff)
  ultimately show ?thesis by (simp add: ToDrop_def)
qed

section \<open>A concrete environment\<close>

definition toy_env :: form_env where
  "toy_env = \<lparr>fe_lib = toy_lib, fe_ser = (\<lambda>r. concat (raw_contracts r)), fe_clock = (\<lambda>n. n),
     fe_address = ToTronAddress (replicate 20 7), fe_private = (\<lambda>_. Inr (replicate 32 1))\<rparr>"

lemma toy_text:
  obtains s where "s \<noteq> ''''" "CheckAddress (fe_sha toy_env) s = Inr (True, ToTronAddress (replicate 20 9))"
proof -
  have "length (fe_sha toy_env x) = 32" for x by (simp add: toy_env_def toy_lib_def)
  then show ?thesis using address_roundtrip' [of "fe_sha toy_env" "replicate 20 9"] that by auto
qed

lemma toy_other: "ToTronAddress (replicate 20 9) \<noteq> ToTronAddress (replicate 20 7)"
  by (simp add: ToTronAddress_def)

definition toy_tx :: tx_message where
  "toy_tx = \<lparr>tx_raw = \<lparr>raw_expiration = 0, raw_timestamp = 0, raw_contracts = [[1]]\<rparr>, tx_signatures = []\<rparr>"

end
