(* ===== verification/Send_Form.thy ===== *)
theory Send_Form
  imports Form_Flow
begin

text \<open>wallet/gui/send_form.cpp: sending TRX and tokens, or creating the unsigned transaction.\<close>

section \<open>State\<close>

text \<open>\<open>assert_\<close> holds what is available of each token; \<open>token_\<close> lists its keys, \<open>cur\<close> is the selection.\<close>

record send_form =
  sf_offline :: bool
  sf_address :: bytes
  assert_map :: "(string \<times> rat) list"
  sf_tokens :: "string list"
  sf_cur :: int
  sf_to :: string
  sf_amount :: string
  sf_avaliable :: "(rat \<times> string) option"

definition CSendForm_new :: "bool \<Rightarrow> send_form" where
  "CSendForm_new offline = \<lparr>sf_offline = offline, sf_address = [], assert_map = [], sf_tokens = [], sf_cur = -1,
     sf_to = '''', sf_amount = '''', sf_avaliable = None\<rparr>"

definition GetAvaliable :: "string \<Rightarrow> send_form \<Rightarrow> rat \<times> send_form" where
  "GetAvaliable type f =
     (case map_of (assert_map f) type of
        Some x \<Rightarrow> (x, f)
      | None \<Rightarrow> (0, f\<lparr>assert_map := al_put type 0 (assert_map f)\<rparr>))"

definition ShowAvaliable :: "send_form \<Rightarrow> send_form" where
  "ShowAvaliable f =
     (if 0 \<le> sf_cur f \<and> nat (sf_cur f) < length (sf_tokens f) then
        (let type = sf_tokens f ! nat (sf_cur f)
         in case GetAvaliable type f of (x, f) \<Rightarrow> f\<lparr>sf_avaliable := Some (x, type)\<rparr>)
      else f)"

text \<open>\<open>UpdteAddress\<close>: the request, and what its callback does to the form. An amount of a token is
  converted to a double.\<close>

definition int64_double :: "64 word \<Rightarrow> rat" where
  "int64_double v = fl (of_int (sint v))"

definition UpdteAddress :: "bytes \<Rightarrow> send_form \<Rightarrow> send_form \<times> (NetworkRequestType \<times> payload)" where
  "UpdteAddress adr f = (f\<lparr>sf_address := adr\<rparr>, (Request_GetAccount, Account adr))"

definition UpdteAddress_answer :: "account \<Rightarrow> send_form \<Rightarrow> send_form" where
  "UpdteAddress_answer a f =
     (let m = al_put ''TRX'' (ToTrx (acc_balance a)) (assert_map f);
          m = foldl (\<lambda>m (k, v). al_put k (int64_double v) m) m (acc_asset a)
      in ShowAvaliable (f\<lparr>assert_map := m, sf_tokens := map fst m, sf_cur := 0\<rparr>))"

definition sf_OnShow :: "bool \<Rightarrow> send_form \<Rightarrow> send_form" where
  "sf_OnShow show f = (if \<not> show then f\<lparr>sf_to := '''', sf_amount := ''''\<rparr> else f)"

section \<open>Checking the input\<close>

text \<open>An entry of the form is either refused with a message, or is the sender, the receiver, the token
  and the amount.\<close>

definition token_check :: "dbl \<Rightarrow> send_form \<Rightarrow> (string + string) \<times> send_form" where
  "token_check amount f =
     (if 0 \<le> sf_cur f then
        (let type = sf_tokens f ! nat (sf_cur f) in
         case GetAvaliable type f of (x, f) \<Rightarrow>
           (case amount of
              Fin y \<Rightarrow> if y > x then Inl ''Balance is not sufficient'' else Inr type
            | Inf neg \<Rightarrow> if \<not> neg then Inl ''Balance is not sufficient'' else Inr type
            | NaN \<Rightarrow> Inr type, f))
      else (Inr '''', f))"

fun not_positive :: "dbl \<Rightarrow> bool" where
  "not_positive (Fin x) \<longleftrightarrow> x \<le> 0"
| "not_positive (Inf neg) \<longleftrightarrow> neg"
| "not_positive NaN \<longleftrightarrow> False"

definition GetSendInfo ::
  "(bytes \<Rightarrow> bytes) \<Rightarrow> send_form \<Rightarrow> ((string + (bytes \<times> bytes \<times> string \<times> dbl)) \<times> send_form) result" where
  "GetSendInfo sha f =
     (let from = sf_address f; to = sf_to f in
      if to = '''' then Inr (Inl ''To address can't empty!'', f)
      else rbind (CheckAddress sha to) (\<lambda>(valid, to).
        if \<not> valid then Inr (Inl ''Invalid to address'', f)
        else if from = to then Inr (Inl ''Cannot transfer to yourself'', f)
        else if sf_amount f = '''' then Inr (Inl ''Amount can't empty!'', f)
        else
          (case StringToDouble (sf_amount f) of (ok, amount) \<Rightarrow>
             if \<not> ok then Inr (Inl ''Invalid amount'', f)
             else if not_positive amount then Inr (Inl ''Amount must greater than 0'', f)
             else
               (case token_check amount f of
                  (Inl e, f) \<Rightarrow> Inr (Inl e, f)
                | (Inr type, f) \<Rightarrow> Inr (Inr (from, to, type, amount), f)))))"

section \<open>The transaction\<close>

definition CreateTransaction :: "bytes \<Rightarrow> bytes \<Rightarrow> string \<Rightarrow> 64 word \<Rightarrow> (tx_message \<Rightarrow> action list) \<Rightarrow> action" where
  "CreateTransaction from to type amount callback =
     (if type = ''TRX'' then
        Request Request_CreateTransaction (Contract (TransferContract from to amount)) (on_transaction callback)
      else
        Request Request_TransferAsset (Contract (TransferAssetContract from type to amount)) (on_transaction callback))"

definition CreateUnsignedTransaction :: "bytes \<Rightarrow> bytes \<Rightarrow> string \<Rightarrow> 64 word \<Rightarrow> action list" where
  "CreateUnsignedTransaction from to type amount =
     [CreateTransaction from to type amount (\<lambda>tx.
        if raw_contracts (tx_raw tx) \<noteq> [] then [Ui (ShowTransactionInfo tx)] else OnTransactionCreateFailed)]"

definition SendToken :: "form_env \<Rightarrow> bytes \<Rightarrow> bytes \<Rightarrow> string \<Rightarrow> 64 word \<Rightarrow> action list" where
  "SendToken E from to type amount =
     [CreateTransaction from to type amount
        (SignAndBroadcast E (\<lambda>ok m. [Ui (AutoHideShowStatus (if ok then ''Send Success'' else m))]) [] OnTransactionCreateFailed),
      Ui (ShowStatus ''Sending'')]"

definition send_click :: "form_env \<Rightarrow> send_form \<Rightarrow> action list" where
  "send_click E f =
     (case GetSendInfo (fe_sha E) f of
        Inl e \<Rightarrow> [Raise e]
      | Inr (Inl msg, f) \<Rightarrow> [Ui (MessageBox msg)]
      | Inr (Inr (from, to, type, amount), f) \<Rightarrow>
          (case ToDrop_dbl amount of
             Inl e \<Rightarrow> [Raise e]
           | Inr drops \<Rightarrow>
               if sf_offline f then CreateUnsignedTransaction from to type (of_int drops)
               else SendToken E from to type (of_int drops)))"

section \<open>Properties\<close>

text \<open>What is available for the selected token, if one is selected.\<close>

definition selected :: "send_form \<Rightarrow> string" where
  "selected f = (if 0 \<le> sf_cur f then sf_tokens f ! nat (sf_cur f) else '''')"

definition available :: "send_form \<Rightarrow> rat" where
  "available f = (case map_of (assert_map f) (selected f) of Some x \<Rightarrow> x | None \<Rightarrow> 0)"

text \<open>The request for an amount in drops.\<close>

definition send_request :: "send_form \<Rightarrow> bytes \<Rightarrow> int \<Rightarrow> NetworkRequestType \<times> payload" where
  "send_request f to drops =
     (if selected f = ''TRX'' then (Request_CreateTransaction, Contract (TransferContract (sf_address f) to (of_int drops)))
      else (Request_TransferAsset, Contract (TransferAssetContract (sf_address f) (selected f) to (of_int drops))))"

lemma token_check_eq:
  "fst (token_check (Fin x) f) = (if 0 \<le> sf_cur f \<and> x > available f then Inl ''Balance is not sufficient'' else Inr (selected f))"
  by (auto simp: token_check_def GetAvaliable_def available_def selected_def Let_def split: option.split)

lemma token_check_keeps [simp]: "sf_offline (snd (token_check x f)) = sf_offline f" "sf_address (snd (token_check x f)) = sf_address f"
  by (auto simp: token_check_def GetAvaliable_def Let_def split: option.split dbl.split)

lemma send_click_requests:
  "requests (send_click E f) =
    (case GetSendInfo (fe_sha E) f of
       Inr (Inr (from, to, type, amount), f') \<Rightarrow>
         (case ToDrop_dbl amount of Inr drops \<Rightarrow>
            (if type = ''TRX'' then [(Request_CreateTransaction, Contract (TransferContract from to (of_int drops)))]
             else [(Request_TransferAsset, Contract (TransferAssetContract from type to (of_int drops)))]) | _ \<Rightarrow> [])
     | _ \<Rightarrow> [])"
  by (auto simp: send_click_def CreateUnsignedTransaction_def SendToken_def CreateTransaction_def
      split: sum.split prod.split)

lemma GetSendInfo_accepts:
  "(\<exists>f'. GetSendInfo sha f = Inr (Inr (from, to, type, Fin x), f')) \<longleftrightarrow>
    sf_to f \<noteq> '''' \<and> CheckAddress sha (sf_to f) = Inr (True, to) \<and> from = sf_address f \<and> to \<noteq> from
    \<and> StringToDouble (sf_amount f) = (True, Fin x) \<and> sf_amount f \<noteq> '''' \<and> 0 < x
    \<and> (0 \<le> sf_cur f \<longrightarrow> x \<le> available f) \<and> type = selected f"
proof -
  obtain ok amount where sd: "StringToDouble (sf_amount f) = (ok, amount)" by (cases "StringToDouble (sf_amount f)")
  obtain c g where tc: "token_check amount f = (c, g)" by (cases "token_check amount f")
  have t: "amount = Fin x \<Longrightarrow> c = (if 0 \<le> sf_cur f \<and> x > available f then Inl ''Balance is not sufficient'' else Inr (selected f))"
    using token_check_eq [of x f] tc by simp
  show ?thesis
  proof (cases "CheckAddress sha (sf_to f)")
    case (Inr p)
    then obtain valid to' where "CheckAddress sha (sf_to f) = Inr (valid, to')" by (cases p) auto
    then show ?thesis using t by (cases c) (auto simp: GetSendInfo_def Let_def sd tc split: if_splits)
  qed (auto simp: GetSendInfo_def Let_def)
qed

lemma send_click_iff':
  "requests (send_click E f) = [r] \<longleftrightarrow>
    (\<exists>to x drops. sf_to f \<noteq> '''' \<and> CheckAddress (fe_sha E) (sf_to f) = Inr (True, to) \<and> to \<noteq> sf_address f
      \<and> sf_amount f \<noteq> '''' \<and> StringToDouble (sf_amount f) = (True, Fin x) \<and> 0 < x
      \<and> (0 \<le> sf_cur f \<longrightarrow> x \<le> available f) \<and> ToDrop x = Inr drops \<and> r = send_request f to drops)"
  (is "?L \<longleftrightarrow> ?R")
proof
  assume ?L
  then obtain to type amount drops "from" f' where i: "GetSendInfo (fe_sha E) f = Inr (Inr (from, to, type, amount), f')"
    "ToDrop_dbl amount = Inr drops"
    "r = (if type = ''TRX'' then (Request_CreateTransaction, Contract (TransferContract from to (of_int drops)))
      else (Request_TransferAsset, Contract (TransferAssetContract from type to (of_int drops))))"
    by (auto simp: send_click_requests split: sum.splits prod.splits if_splits)
  then obtain x where x: "amount = Fin x" by (cases amount) auto
  have "\<exists>f'. GetSendInfo (fe_sha E) f = Inr (Inr (from, to, type, Fin x), f')" using i(1) x by blast
  then show ?R unfolding GetSendInfo_accepts using i(2,3) x by (auto simp: send_request_def)
next
  assume ?R
  then obtain to x drops where r: "sf_to f \<noteq> '''' \<and> CheckAddress (fe_sha E) (sf_to f) = Inr (True, to) \<and> sf_address f = sf_address f
      \<and> to \<noteq> sf_address f \<and> StringToDouble (sf_amount f) = (True, Fin x) \<and> sf_amount f \<noteq> '''' \<and> 0 < x
      \<and> (0 \<le> sf_cur f \<longrightarrow> x \<le> available f) \<and> selected f = selected f" "ToDrop x = Inr drops" "r = send_request f to drops"
    by blast
  from r(1) obtain f' where "GetSendInfo (fe_sha E) f = Inr (Inr (sf_address f, to, selected f, Fin x), f')"
    using GetSendInfo_accepts [of "fe_sha E" f "sf_address f" to "selected f" x] by auto
  with r(2,3) show ?L by (simp add: send_click_requests send_request_def)
qed

lemma GetSendInfo_state:
  assumes "GetSendInfo sha f = Inr (Inr (own, to, type, amount), f')"
  shows "f' = snd (token_check amount f)"
proof -
  obtain ok x where sd: "StringToDouble (sf_amount f) = (ok, x)" by (cases "StringToDouble (sf_amount f)")
  obtain c g where tc: "token_check x f = (c, g)" by (cases "token_check x f")
  show ?thesis
  proof (cases "CheckAddress sha (sf_to f)")
    case (Inr p)
    then obtain valid to' where "CheckAddress sha (sf_to f) = Inr (valid, to')" by (cases p) auto
    then show ?thesis using assms tc by (cases c) (auto simp: GetSendInfo_def Let_def sd split: if_splits)
  qed (use assms in \<open>auto simp: GetSendInfo_def Let_def split: if_splits\<close>)
qed

text \<open>C3: a click leads to a request exactly if the receiver is the text of a valid address other than the
  sender's, and the amount is the text of a finite positive number, not above what is available of the
  selected token, that fits in drops; the request is then for this receiver, token and amount.\<close>

theorem send_click_iff:
  "requests (send_click E f) = [r] \<longleftrightarrow>
    (\<exists>to x drops. sf_to f \<noteq> '''' \<and> CheckAddress (fe_sha E) (sf_to f) = Inr (True, to) \<and> to \<noteq> sf_address f
      \<and> sf_amount f \<noteq> '''' \<and> StringToDouble (sf_amount f) = (True, Fin x) \<and> 0 < x
      \<and> (0 \<le> sf_cur f \<longrightarrow> x \<le> available f) \<and> ToDrop x = Inr drops \<and> r = send_request f to drops)"
  by (rule send_click_iff')

text \<open>The answer to the request of a click.\<close>

lemma send_follow:
  assumes "requests (send_click E f) = [r]"
  shows "follow (send_click E f) [ATransaction tx] =
    (if sf_offline f then (if raw_contracts (tx_raw tx) \<noteq> [] then [Ui (ShowTransactionInfo tx)] else OnTransactionCreateFailed)
     else SignAndBroadcast E (\<lambda>ok m. [Ui (AutoHideShowStatus (if ok then ''Send Success'' else m))]) [] OnTransactionCreateFailed tx)"
proof -
  from assms obtain "from" to type amount f' drops where i: "GetSendInfo (fe_sha E) f = Inr (Inr (from, to, type, amount), f')"
    "ToDrop_dbl amount = Inr drops"
    by (auto simp: send_click_requests split: sum.splits prod.splits if_splits)
  then obtain x where "amount = Fin x" by (cases amount) auto
  moreover from i(1) have "sf_offline f' = sf_offline f" by (simp add: GetSendInfo_state [OF i(1)])
  ultimately show ?thesis using i
    by (simp add: send_click_def CreateUnsignedTransaction_def SendToken_def CreateTransaction_def)
qed

text \<open>C20: what the form signs and broadcasts is what the node answers: a transaction is broadcast only
  if the form is not offline, with a signature of the account's key for each contract of the answer; and
  it does not depend on the receiver, the token and the amount that were entered, which are compared
  with nothing in the answer.\<close>

theorem send_signs_the_answer:
  assumes "requests (send_click E f) = [r]" "requests (send_click E g) = [q]" "sf_offline f = sf_offline g"
  shows "follow (send_click E f) [ATransaction tx] = follow (send_click E g) [ATransaction tx]
    \<and> (\<forall>p \<in> set (requests (follow (send_click E f) [ATransaction tx])).
        \<not> sf_offline f \<and> (\<exists>tx'. p = (Request_BroadcastTransaction, Transaction tx') \<and> signed_by E tx tx'))"
proof
  show "follow (send_click E f) [ATransaction tx] = follow (send_click E g) [ATransaction tx]"
    unfolding send_follow [OF assms(1)] send_follow [OF assms(2)] assms(3) ..
  show "\<forall>p \<in> set (requests (follow (send_click E f) [ATransaction tx])).
      \<not> sf_offline f \<and> (\<exists>tx'. p = (Request_BroadcastTransaction, Transaction tx') \<and> signed_by E tx tx')"
    using SignAndBroadcast_requests [of "[]" OnTransactionCreateFailed _ E _ tx]
    unfolding send_follow [OF assms(1)] by (auto simp: OnTransactionCreateFailed_def)
qed


text \<open>C22: an amount of a token is compared with what is available in units of the token, but sent in drops:
  sending any of the token sends a million times as much, more than is available.\<close>

theorem send_token_scaled:
  assumes "0 \<le> sf_cur f" "selected f \<noteq> ''TRX''" "map_of (assert_map f) (selected f) = Some (of_int n)"
    "0 < n" "n * 1000000 < 2 ^ 53"
    "StringToDouble (sf_amount f) = (True, Fin (of_int n))" "sf_amount f \<noteq> ''''"
    "sf_to f \<noteq> ''''" "CheckAddress (fe_sha E) (sf_to f) = Inr (True, to)" "to \<noteq> sf_address f"
  shows "requests (send_click E f) =
    [(Request_TransferAsset, Contract (TransferAssetContract (sf_address f) (selected f) to (of_int (n * 1000000))))]"
  by (subst send_click_iff')
     (use assms in \<open>auto intro!: exI [of _ to] exI [of _ "of_int n"] exI [of _ "n * 1000000"]
       simp: available_def send_request_def ToDrop_of_int\<close>)

lemma map_of_foldl_put:
  "map_of (foldl (\<lambda>m (k, v). al_put k (g v) m) m kvs) t = (case map_of (rev kvs) t of Some v \<Rightarrow> Some (g v) | None \<Rightarrow> map_of m t)"
proof (induction kvs arbitrary: m)
  case (Cons p kvs)
  then show ?case by (cases p) (auto simp: map_add_def split: option.split)
qed simp

text \<open>The balances of another account are not forgotten: a token that the new account does not hold keeps
  the amount of the account shown before, and stays in the list.\<close>

theorem send_keeps_old_tokens:
  assumes "map_of (acc_asset a) t = None" "t \<noteq> ''TRX''" "map_of (assert_map f) t = Some x"
  shows "map_of (assert_map (UpdteAddress_answer a (fst (UpdteAddress adr f)))) t = Some x
    \<and> t \<in> set (sf_tokens (UpdteAddress_answer a (fst (UpdteAddress adr f))))"
proof -
  define m where "m = foldl (\<lambda>m (k, v). al_put k (int64_double v) m)
    (al_put ''TRX'' (ToTrx (acc_balance a)) (assert_map f)) (acc_asset a)"
  have "map_of (rev (acc_asset a)) t = None" using assms(1) by (simp add: map_of_eq_None_iff)
  with assms have m: "map_of m t = Some x"
    unfolding m_def by (subst map_of_foldl_put) simp
  then have "t \<in> set (map fst m)" by (force dest: map_of_SomeD)
  with m show ?thesis
    by (auto simp: UpdteAddress_def UpdteAddress_answer_def Let_def m_def [symmetric] ShowAvaliable_def GetAvaliable_def
        split: option.split)
qed

section \<open>Witnesses\<close>

definition toy_form :: "int \<Rightarrow> string \<Rightarrow> send_form" where
  "toy_form cur to =
     \<lparr>sf_offline = False, sf_address = ToTronAddress (replicate 20 7), assert_map = [(''TRX'', 9), (''FOO'', 5)],
      sf_tokens = [''TRX'', ''FOO''], sf_cur = cur, sf_to = to, sf_amount = ''5'', sf_avaliable = None\<rparr>"

lemma toy_number: "float_number False ''5'' = Some (Fin 5, False, [])" "ToDrop 5 = Inr 5000000"
  by code_simp+

lemma toy_amount: "StringToDouble ''5'' = (True, Fin 5)" "ToDrop 5 = Inr 5000000"
  by (simp_all add: StringToDouble_def strtod_def isspace_def lower_def Let_def toy_number)

theorem send_click_iff_witness:
  "\<exists>s. requests (send_click toy_env (toy_form 0 s)) =
    [(Request_CreateTransaction,
      Contract (TransferContract (ToTronAddress (replicate 20 7)) (ToTronAddress (replicate 20 9)) 5000000))]"
proof -
  obtain s where s: "s \<noteq> ''''" "CheckAddress (fe_sha toy_env) s = Inr (True, ToTronAddress (replicate 20 9))"
    by (rule toy_text)
  then have "requests (send_click toy_env (toy_form 0 s)) = [send_request (toy_form 0 s) (ToTronAddress (replicate 20 9)) 5000000]"
    by (subst send_click_iff)
       (auto simp: toy_form_def available_def selected_def toy_amount toy_other
         intro!: exI [of _ "ToTronAddress (replicate 20 9)"] exI [of _ 5] exI [of _ 5000000])
  then show ?thesis by (auto simp: send_request_def toy_form_def selected_def)
qed

theorem send_token_scaled_witness:
  "\<exists>s. requests (send_click toy_env (toy_form 1 s)) =
    [(Request_TransferAsset,
      Contract (TransferAssetContract (ToTronAddress (replicate 20 7)) ''FOO'' (ToTronAddress (replicate 20 9)) 5000000))]"
proof -
  obtain s where s: "s \<noteq> ''''" "CheckAddress (fe_sha toy_env) s = Inr (True, ToTronAddress (replicate 20 9))"
    by (rule toy_text)
  with send_token_scaled [of "toy_form 1 s" 5 toy_env "ToTronAddress (replicate 20 9)"] show ?thesis
    by (intro exI [of _ s]) (simp add: toy_form_def selected_def toy_amount toy_other)
qed

lemma toy_request:
  obtains s r q where "requests (send_click toy_env (toy_form 0 s)) = [r]" "requests (send_click toy_env (toy_form 1 s)) = [q]" "q \<noteq> r"
proof -
  obtain s where s: "s \<noteq> ''''" "CheckAddress (fe_sha toy_env) s = Inr (True, ToTronAddress (replicate 20 9))"
    by (rule toy_text)
  then obtain f' where "GetSendInfo (fe_sha toy_env) (toy_form 0 s) =
      Inr (Inr (ToTronAddress (replicate 20 7), ToTronAddress (replicate 20 9), ''TRX'', Fin 5), f')"
    using GetSendInfo_accepts [of "fe_sha toy_env" "toy_form 0 s" "ToTronAddress (replicate 20 7)" "ToTronAddress (replicate 20 9)" "''TRX''" 5]
    by (auto simp: toy_form_def available_def selected_def toy_amount toy_other)
  moreover from s obtain g' where "GetSendInfo (fe_sha toy_env) (toy_form 1 s) =
      Inr (Inr (ToTronAddress (replicate 20 7), ToTronAddress (replicate 20 9), ''FOO'', Fin 5), g')"
    using GetSendInfo_accepts [of "fe_sha toy_env" "toy_form 1 s" "ToTronAddress (replicate 20 7)" "ToTronAddress (replicate 20 9)" "''FOO''" 5]
    by (auto simp: toy_form_def available_def selected_def toy_amount toy_other)
  ultimately have "requests (send_click toy_env (toy_form 0 s)) = [(Request_CreateTransaction,
      Contract (TransferContract (ToTronAddress (replicate 20 7)) (ToTronAddress (replicate 20 9)) 5000000))]"
    "requests (send_click toy_env (toy_form 1 s)) = [(Request_TransferAsset,
      Contract (TransferAssetContract (ToTronAddress (replicate 20 7)) ''FOO'' (ToTronAddress (replicate 20 9)) 5000000))]"
    by (simp_all add: send_click_requests toy_amount)
  then show ?thesis by (rule that) simp
qed

theorem send_signs_the_answer_witness:
  "\<exists>s r q. requests (send_click toy_env (toy_form 0 s)) = [r] \<and> requests (send_click toy_env (toy_form 1 s)) = [q] \<and> q \<noteq> r
    \<and> follow (send_click toy_env (toy_form 0 s)) [ATransaction toy_tx] = follow (send_click toy_env (toy_form 1 s)) [ATransaction toy_tx]"
proof -
  obtain s r q where "requests (send_click toy_env (toy_form 0 s)) = [r]" "requests (send_click toy_env (toy_form 1 s)) = [q]" "q \<noteq> r"
    by (rule toy_request)
  with send_signs_the_answer [of toy_env "toy_form 0 s" r "toy_form 1 s" q toy_tx] show ?thesis
    by (intro exI [of _ s] exI [of _ r] exI [of _ q]) (simp add: toy_form_def)
qed

theorem send_keeps_old_tokens_witness:
  "''FOO'' \<in> set (sf_tokens (UpdteAddress_answer \<lparr>acc_address = [], acc_balance = 0, acc_frozen = [], acc_asset = []\<rparr>
    (fst (UpdteAddress [] (toy_form 0 '''')))))"
  using send_keeps_old_tokens [of "\<lparr>acc_address = [], acc_balance = 0, acc_frozen = [], acc_asset = []\<rparr>" "''FOO''" "toy_form 0 ''''" 5 "[]"]
  by (simp add: toy_form_def)

end
