(* ===== verification/Freeze_Form.thy ===== *)
theory Freeze_Form
  imports Form_Flow
begin

text \<open>
  wallet/gui/freeze_form.cpp and the unfreezing of wallet/gui/main_window.cpp: freezing TRX for three
  days, and taking it back. The product and the sums are those of 64-bit integers, which wrap around
  (for signed integers the language leaves it undefined).
\<close>

section \<open>Messages shared by the forms\<close>

definition account_not_exists :: "form_env \<Rightarrow> bytes \<Rightarrow> action list" where
  "account_not_exists E adr =
     (case AddressEncodeBase58Check (fe_sha E) adr of
        Inl e \<Rightarrow> [Raise e]
      | Inr s \<Rightarrow> [Ui (MessageBox (''Account '' @ s @ '' not exists''))])"

lemma account_not_exists_requests [simp]: "requests (account_not_exists E adr) = []"
  "follow (account_not_exists E adr) [] = account_not_exists E adr" "answered a (account_not_exists E adr) = []"
  by (auto simp: account_not_exists_def split: sum.split)

section \<open>Freezing\<close>

record freeze_form =
  ff_offline :: bool
  ff_address :: bytes
  ff_amount :: string

definition ff_OnShowUI :: "bool \<Rightarrow> freeze_form \<Rightarrow> freeze_form" where
  "ff_OnShowUI show f = (if \<not> show then f\<lparr>ff_amount := ''''\<rparr> else f)"

text \<open>Whether the text is a number is not asked; the value left by \<open>StringToInt64\<close> is used.\<close>

definition freeze_CreateContract :: "freeze_form \<Rightarrow> string + (64 word)" where
  "freeze_CreateContract f =
     (if ff_amount f = '''' then Inl ''Amount can't empty.''
      else
        (let amount = snd (StringToInt64 (ff_amount f)) in
         if amount \<le> 0 then Inl ''Frozen balance must be positive''
         else Inr (of_int amount * 1000000)))"

definition freeze_transaction :: "form_env \<Rightarrow> freeze_form \<Rightarrow> tx_message \<Rightarrow> action list" where
  "freeze_transaction E f tx =
     (if \<not> ff_offline f then
        SignAndBroadcast E
          (\<lambda>ok m. [Ui (AutoHideShowStatus (if ok then ''Freeze Token Success'' else m)), Ui (UIShow False), Ui (PostEvent ''Event_Show_BalanceList'')])
          [Ui (ShowStatus ''Freezing'')] OnTransactionCreateFailed tx
      else if raw_contracts (tx_raw tx) \<noteq> [] then [Ui (ShowTransactionInfo tx)] else OnTransactionCreateFailed)"

definition freeze_account :: "form_env \<Rightarrow> freeze_form \<Rightarrow> 64 word \<Rightarrow> account \<Rightarrow> action list" where
  "freeze_account E f frozen a =
     (if acc_address a = [] then account_not_exists E (ff_address f)
      else if sint frozen > sint (acc_balance a) then [Ui (MessageBox ''Frozen balance must be less than account balance.'')]
      else [Request Request_FreezeBalance (Contract (FreezeBalanceContract (ff_address f) frozen 3))
              (on_transaction (freeze_transaction E f))])"

definition freeze_click :: "form_env \<Rightarrow> freeze_form \<Rightarrow> action list" where
  "freeze_click E f =
     (case freeze_CreateContract f of
        Inl m \<Rightarrow> [Ui (MessageBox m)]
      | Inr frozen \<Rightarrow> [Request Request_GetAccount (Account (ff_address f)) (on_account (freeze_account E f frozen))])"

section \<open>Unfreezing\<close>

definition frozen_counts :: "nat \<Rightarrow> account \<Rightarrow> 64 word \<times> 64 word" where
  "frozen_counts now a =
     foldl (\<lambda>(expired, frozen) (balance, expire).
        (if sint expire \<le> sint (of_nat now :: 64 word) then expired + balance else expired, frozen + balance)) (0, 0) (acc_frozen a)"

definition unfreeze_account :: "form_env \<Rightarrow> bytes \<Rightarrow> account \<Rightarrow> action list" where
  "unfreeze_account E adr a =
     (case frozen_counts (fe_clock E 0) a of (expired, frozen) \<Rightarrow>
        if sint frozen \<le> 0 then [Ui (MessageBox ''No frozen balance.'')]
        else if sint expired \<le> 0 then [Ui (MessageBox ''It's not time to unfreeze.'')]
        else
          [Request Request_UnfreezeBalance (Contract (UnfreezeBalanceContract adr))
             (on_transaction (SignAndBroadcast E
               (\<lambda>ok m. [Ui (AutoHideShowStatus (if ok then ''UnFreeze Token Success'' else m))]) []
               [Ui (AutoHideShowStatus ''Create unfreeze transaction failed!'')])),
           Ui (ShowStatus ''Unfreezing'')])"

definition UnFreezeToken :: "form_env \<Rightarrow> bytes \<Rightarrow> action list" where
  "UnFreezeToken E adr = [Request Request_GetAccount (Account adr) (on_account (unfreeze_account E adr))]"

section \<open>Properties\<close>

lemma sint_of_int64: "- (2 ^ 63) \<le> n \<Longrightarrow> n < 2 ^ 63 \<Longrightarrow> sint (of_int n :: 64 word) = n"
  by (simp add: sint_sbintrunc' signed_take_bit_int_eq_self)

text \<open>An amount of whole TRX is frozen only if the account that the node answers exists and its balance
  covers it; for amounts up to 9223372036854 TRX the drops are exact.\<close>

theorem freeze_checked:
  assumes "ff_amount f \<noteq> ''''" "snd (StringToInt64 (ff_amount f)) = n" "0 < n" "n \<le> 9223372036854"
  shows "requests (freeze_click E f) = [(Request_GetAccount, Account (ff_address f))]
    \<and> requests (follow (freeze_click E f) [AnAccount a]) =
      (if acc_address a \<noteq> [] \<and> n * 1000000 \<le> sint (acc_balance a)
       then [(Request_FreezeBalance, Contract (FreezeBalanceContract (ff_address f) (of_int (n * 1000000)) 3))] else [])
    \<and> sint (of_int (n * 1000000) :: 64 word) = n * 1000000"
proof -
  have s: "sint (of_int (n * 1000000) :: 64 word) = n * 1000000" by (rule sint_of_int64) (use assms(3,4) in auto)
  define w where "w = (of_int (n * 1000000) :: 64 word)"
  have w: "of_int n * 1000000 = w" by (simp add: w_def)
  from assms(1-3) have "freeze_CreateContract f = Inr w"
    unfolding freeze_CreateContract_def Let_def w [symmetric] by simp
  then show ?thesis using s
    unfolding w_def [symmetric] by (auto simp: freeze_click_def freeze_account_def)
qed

text \<open>A number that does not fit 64 bits becomes the largest one, and its product with the rate wraps
  around to minus one TRX: whatever the balance, the check lets it pass.\<close>

theorem freeze_overflow:
  assumes "ff_amount f \<noteq> ''''" "StringToInt64 (ff_amount f) = (False, 2 ^ 63 - 1)" "acc_address a \<noteq> []"
    "0 \<le> sint (acc_balance a)"
  shows "requests (follow (freeze_click E f) [AnAccount a]) =
    [(Request_FreezeBalance, Contract (FreezeBalanceContract (ff_address f) (- 1000000) 3))]"
proof -
  have "(of_int (2 ^ 63 - 1) * 1000000 :: 64 word) = - 1000000" by simp
  moreover have "sint (- 1000000 :: 64 word) = - 1000000" by simp
  ultimately show ?thesis using assms
    by (simp add: freeze_click_def freeze_CreateContract_def freeze_account_def)
qed

text \<open>What the flow broadcasts is the node's transaction, signed; offline it broadcasts nothing.\<close>

theorem freeze_broadcast:
  "\<forall>r \<in> set (requests (follow (freeze_click E f) [AnAccount a, ATransaction tx])).
    \<not> ff_offline f \<and> (\<exists>tx'. r = (Request_BroadcastTransaction, Transaction tx') \<and> signed_by E tx tx')"
proof
  fix r assume r: "r \<in> set (requests (follow (freeze_click E f) [AnAccount a, ATransaction tx]))"
  then have "r \<in> set (requests (freeze_transaction E f tx))"
    by (auto simp: freeze_click_def freeze_account_def split: sum.splits if_splits)
  with SignAndBroadcast_requests [of "[Ui (ShowStatus ''Freezing'')]" OnTransactionCreateFailed r E _ tx]
  show "\<not> ff_offline f \<and> (\<exists>tx'. r = (Request_BroadcastTransaction, Transaction tx') \<and> signed_by E tx tx')"
    by (auto simp: freeze_transaction_def OnTransactionCreateFailed_def split: if_splits)
qed

definition expired_balances :: "nat \<Rightarrow> account \<Rightarrow> int list" where
  "expired_balances now a =
     map (\<lambda>p. sint (fst p)) (filter (\<lambda>p. sint (snd p) \<le> sint (of_nat now :: 64 word)) (acc_frozen a))"

lemma frozen_counts_eq:
  "frozen_counts now a = (of_int (sum_list (expired_balances now a)), of_int (sum_list (map (\<lambda>p. sint (fst p)) (acc_frozen a))))"
proof -
  have "foldl (\<lambda>(expired, frozen) (balance, expire).
        (if sint expire \<le> sint (of_nat now :: 64 word) then expired + balance else expired, frozen + balance)) (x, y) ps =
      (x + of_int (sum_list (map (\<lambda>p. sint (fst p)) (filter (\<lambda>p. sint (snd p) \<le> sint (of_nat now :: 64 word)) ps))),
       y + of_int (sum_list (map (\<lambda>p. sint (fst p)) ps)))" for x y and ps :: "(64 word \<times> 64 word) list"
  proof (induction ps arbitrary: x y)
    case (Cons p ps)
    then show ?case by (cases p) (simp add: add.assoc)
  qed simp
  from this [of 0 0 "acc_frozen a"] show ?thesis by (simp add: frozen_counts_def expired_balances_def)
qed

lemma sum_filter_le:
  fixes g :: "'a \<Rightarrow> int"
  shows "\<forall>x \<in> set xs. 0 \<le> g x \<Longrightarrow> 0 \<le> sum_list (map g (filter P xs)) \<and> sum_list (map g (filter P xs)) \<le> sum_list (map g xs)
    \<and> (0 < sum_list (map g (filter P xs)) \<longleftrightarrow> (\<exists>x \<in> set xs. P x \<and> 0 < g x))"
  by (induction xs) auto

text \<open>C18: unfreezing is requested exactly when some frozen balance of the account has expired, as long as
  the balances and their sum are those of an account (non-negative and within 64 bits).\<close>

theorem unfreeze_iff:
  assumes "\<forall>p \<in> set (acc_frozen a). 0 \<le> sint (fst p)" "sum_list (map (\<lambda>p. sint (fst p)) (acc_frozen a)) < 2 ^ 63"
  shows "requests (follow (UnFreezeToken E adr) [AnAccount a]) =
    (if \<exists>p \<in> set (acc_frozen a). sint (snd p) \<le> sint (of_nat (fe_clock E 0) :: 64 word) \<and> 0 < sint (fst p)
     then [(Request_UnfreezeBalance, Contract (UnfreezeBalanceContract adr))] else [])"
proof -
  let ?x = "sum_list (expired_balances (fe_clock E 0) a)" and ?y = "sum_list (map (\<lambda>p. sint (fst p)) (acc_frozen a))"
  from sum_filter_le [OF assms(1), of "\<lambda>p. sint (snd p) \<le> sint (of_nat (fe_clock E 0) :: 64 word)"]
  have x: "0 \<le> ?x" "?x \<le> ?y" "0 < ?x \<longleftrightarrow> (\<exists>p \<in> set (acc_frozen a). sint (snd p) \<le> sint (of_nat (fe_clock E 0) :: 64 word) \<and> 0 < sint (fst p))"
    by (simp_all only: expired_balances_def)
  with assms(2) have "sint (of_int ?x :: 64 word) = ?x" "sint (of_int ?y :: 64 word) = ?y"
    by (intro sint_of_int64; linarith)+
  then have "requests (unfreeze_account E adr a) = (if 0 < ?x then [(Request_UnfreezeBalance, Contract (UnfreezeBalanceContract adr))] else [])"
    using x(1,2) by (simp add: unfreeze_account_def frozen_counts_eq not_le)
  with x(3) show ?thesis by (simp add: UnFreezeToken_def)
qed

section \<open>Witnesses\<close>

definition toy_freeze :: "string \<Rightarrow> freeze_form" where
  "toy_freeze amount = \<lparr>ff_offline = False, ff_address = [1], ff_amount = amount\<rparr>"

definition toy_account :: account where
  "toy_account = \<lparr>acc_address = [1], acc_balance = 7000000, acc_frozen = [(5, 0)], acc_asset = []\<rparr>"

theorem freeze_checked_witness:
  "requests (follow (freeze_click toy_env (toy_freeze ''7'')) [AnAccount toy_account]) =
    [(Request_FreezeBalance, Contract (FreezeBalanceContract [1] 7000000 3))]"
proof -
  have "snd (StringToInt64 ''7'') = 7" by code_simp
  with freeze_checked [of "toy_freeze ''7''" 7 toy_env toy_account] show ?thesis
    by (simp add: toy_freeze_def toy_account_def)
qed

theorem freeze_overflow_witness:
  "requests (follow (freeze_click toy_env (toy_freeze ''9223372036854775808'')) [AnAccount toy_account]) =
    [(Request_FreezeBalance, Contract (FreezeBalanceContract [1] (- 1000000) 3))]"
proof -
  have "StringToInt64 ''9223372036854775808'' = (False, 2 ^ 63 - 1)" by code_simp
  with freeze_overflow [of "toy_freeze ''9223372036854775808''" toy_account toy_env] show ?thesis
    by (simp add: toy_freeze_def toy_account_def)
qed

theorem unfreeze_iff_witness:
  "requests (follow (UnFreezeToken toy_env [1]) [AnAccount toy_account]) =
    [(Request_UnfreezeBalance, Contract (UnfreezeBalanceContract [1]))]"
  using unfreeze_iff [of toy_account toy_env "[1]"] by (simp add: toy_account_def toy_env_def)

end
