(* ===== verification/Vote_Form.thy ===== *)
theory Vote_Form
  imports Freeze_Form
begin

text \<open>
  wallet/gui/vote_form.cpp: the list of witnesses, the contract made of the votes that were entered, and
  its validation against the account's Tron power. The sum of the votes is a 32-bit integer.
\<close>

section \<open>The list of witnesses\<close>

record vote_row =
  row_address :: string
  row_website :: string
  row_votes :: string
  row_myvotes :: string

record vote_form =
  vf_offline :: bool
  vf_address :: bytes
  vf_rows :: "vote_row list"
  vf_address_url :: "(string \<times> string) list"

definition witness_row :: "form_env \<Rightarrow> witness \<Rightarrow> vote_row result" where
  "witness_row E w =
     rbind (AddressEncodeBase58Check (fe_sha E) (wit_address w)) (\<lambda>s.
       Inr \<lparr>row_address = s, row_website = wit_url w, row_votes = IntToString (sint (wit_votes w)), row_myvotes = ''''\<rparr>)"

fun UpdateWitnessList :: "form_env \<Rightarrow> witness list \<Rightarrow> vote_row list result" where
  "UpdateWitnessList E [] = Inr []"
| "UpdateWitnessList E (w # ws) = rbind (witness_row E w) (\<lambda>r. rbind (UpdateWitnessList E ws) (\<lambda>rs. Inr (r # rs)))"

definition GetWitnessList :: "form_env \<Rightarrow> action list" where
  "GetWitnessList E =
     [Request Request_ListWitnesses EmptyMessage
        (\<lambda>a. case a of
           Witnesses ws \<Rightarrow>
             (case UpdateWitnessList E ws of
                Inl e \<Rightarrow> [Raise e]
              | Inr rows \<Rightarrow> [Ui (AutoHideShowStatus ''''), Ui (ShowContent ''vote_form'')])
         | _ \<Rightarrow> []),
      Ui (ShowStatus ''Loading Witness List'')]"

section \<open>The contract\<close>

text \<open>A row whose votes are not a number is skipped; the address is decoded from its text.\<close>

fun add_votes :: "form_env \<Rightarrow> vote_row list \<Rightarrow> (bytes \<times> 64 word) list \<Rightarrow> (string \<times> string) list
    \<Rightarrow> ((bytes \<times> 64 word) list \<times> (string \<times> string) list) result" where
  "add_votes E [] votes urls = Inr (votes, urls)"
| "add_votes E (r # rs) votes urls =
     (case StringToInt64 (row_myvotes r) of (ok, n) \<Rightarrow>
        if row_myvotes r \<noteq> '''' \<and> ok then
          rbind (AddressDecodeBase58Check (fe_sha E) (row_address r)) (\<lambda>(_, adr).
            add_votes E rs (votes @ [(adr, of_int n)])
              (if map_of urls (row_address r) = None then al_put (row_address r) (row_website r) urls else urls))
        else add_votes E rs votes urls)"

text \<open>\<open>None\<close> is the null contract of a user who is not logged in.\<close>

definition CreateVoteContract ::
  "form_env \<Rightarrow> vote_form \<Rightarrow> (bytes \<times> (bytes \<times> 64 word) list \<times> (string \<times> string) list) option result" where
  "CreateVoteContract E f =
     (if \<not> vf_offline f \<and> fe_address E = [] then Inr None
      else
        rbind (add_votes E (vf_rows f) [] (vf_address_url f)) (\<lambda>(votes, urls).
          Inr (Some (if \<not> vf_offline f then fe_address E else vf_address f, votes, urls))))"

section \<open>Validation\<close>

text \<open>\<open>sum += vote_count\<close> adds in 64 bits and keeps 32. An empty message is success; the numbers of the
  last message are left out.\<close>

fun sum_votes :: "64 word list \<Rightarrow> 32 word \<Rightarrow> string + 32 word" where
  "sum_votes [] s = Inr s"
| "sum_votes (v # vs) s = (if sint v < 0 then Inl ''vote count must be greater than 0'' else sum_votes vs (ucast (scast s + v)))"

definition ValidateContract :: "64 word list \<Rightarrow> 64 word \<Rightarrow> string result" where
  "ValidateContract counts tron_power =
     (if counts = [] then Inr ''VoteNumber must more than 0''
      else
        (case sum_votes counts 0 of
           Inl m \<Rightarrow> Inr m
         | Inr s \<Rightarrow>
             rbind (ToDrop (of_int (sint s))) (\<lambda>drops.
               Inr (if sint tron_power < drops then ''The total number of votes is greater than the tronPower'' else ''''))))"

section \<open>Voting\<close>

definition vote_transaction :: "form_env \<Rightarrow> vote_form \<Rightarrow> tx_message \<Rightarrow> action list" where
  "vote_transaction E f tx =
     (if vf_offline f then
        (if raw_contracts (tx_raw tx) \<noteq> [] then [Ui (ShowTransactionInfo tx), Ui (AutoHideShowStatus '''')]
         else OnTransactionCreateFailed)
      else SignAndBroadcast E (\<lambda>ok m. [Ui (AutoHideShowStatus (if ok then ''Vote success'' else ''Vote failed''))]) []
        OnTransactionCreateFailed tx)"

definition vote_account :: "form_env \<Rightarrow> vote_form \<Rightarrow> bytes \<Rightarrow> (bytes \<times> 64 word) list \<Rightarrow> account \<Rightarrow> action list" where
  "vote_account E f owner votes a =
     (if acc_address a = [] then account_not_exists E owner
      else
        (case ValidateContract (map snd votes) (CalcTronPower (map fst (acc_frozen a))) of
           Inl e \<Rightarrow> [Raise e]
         | Inr m \<Rightarrow>
             if m \<noteq> '''' then [Ui (MessageBox m)]
             else [Request Request_VoteWitnessAccount (Contract (VoteWitnessContract owner votes))
                     (on_transaction (vote_transaction E f)),
                   Ui (ShowStatus ''Creating vote witness contract'')]))"

definition vote_click :: "form_env \<Rightarrow> vote_form \<Rightarrow> action list" where
  "vote_click E f =
     (case CreateVoteContract E f of
        Inl e \<Rightarrow> [Raise e]
      | Inr None \<Rightarrow> []
      | Inr (Some (owner, votes, urls)) \<Rightarrow>
          [Request Request_GetAccount (Account owner) (on_account (vote_account E f owner votes))])"

section \<open>The sum of the votes\<close>

lemma low_word_of_int: "(ucast (word_of_int x :: 64 word) :: 32 word) = word_of_int x"
  by (rule ucast_down_wi) (simp add: is_down)

lemma add_low_bits: "(ucast (scast (s :: 32 word) + v) :: 32 word) = s + of_int (sint (v :: 64 word))"
proof -
  have "scast s + v = word_of_int (sint s + sint v)" by simp
  then have "(ucast (scast s + v) :: 32 word) = word_of_int (sint s + sint v)" by (simp only: low_word_of_int)
  then show ?thesis by simp
qed

lemma sum_votes_eq:
  "sum_votes vs s = (if \<exists>v \<in> set vs. sint v < 0 then Inl ''vote count must be greater than 0''
    else Inr (s + of_int (sum_list (map sint vs))))"
  by (induction vs s rule: sum_votes.induct) (auto simp: add_low_bits add.assoc)

lemma sint32_bound: "\<bar>sint (x :: 32 word)\<bar> \<le> 2 ^ 31"
  using sint_range_size [of x] by (auto simp: word_size)

text \<open>The form accepts votes exactly if there are some, none is negative, and a million times their sum
  modulo \<open>2 ^ 32\<close>, read as a signed number, is not above the Tron power.\<close>

lemma ValidateContract_eq:
  "ValidateContract counts tp = Inr '''' \<longleftrightarrow>
    counts \<noteq> [] \<and> (\<forall>v \<in> set counts. 0 \<le> sint v)
      \<and> sint (of_int (sum_list (map sint counts)) :: 32 word) * 1000000 \<le> sint tp"
proof -
  let ?n = "sint (of_int (sum_list (map sint counts)) :: 32 word)"
  have "\<bar>?n\<bar> \<le> 2 ^ 31" by (rule sint32_bound)
  then have "\<bar>?n * 1000000\<bar> < 2 ^ 53" by (simp add: abs_mult)
  then have d: "ToDrop (of_int ?n) = Inr (?n * 1000000)" by (rule ToDrop_of_int)
  show ?thesis
  proof (cases "\<exists>v \<in> set counts. sint v < 0")
    case True
    then have "\<not> (\<forall>v \<in> set counts. 0 \<le> sint v)" by (auto simp: not_le)
    with True show ?thesis by (simp add: ValidateContract_def sum_votes_eq)
  next
    case False
    then have "sum_votes counts 0 = Inr (of_int (sum_list (map sint counts)))" by (simp add: sum_votes_eq)
    moreover from False have "\<forall>v \<in> set counts. 0 \<le> sint v" by (auto simp: not_less)
    ultimately show ?thesis using d by (simp add: ValidateContract_def not_less)
  qed
qed

text \<open>C16: within 32 bits the validation is right: votes are accepted exactly if there are some, none is
  negative, and their sum in TRX does not exceed the Tron power.\<close>

theorem votes_validated:
  assumes "sum_list (map sint counts) < 2 ^ 31"
  shows "ValidateContract counts tp = Inr '''' \<longleftrightarrow>
    counts \<noteq> [] \<and> (\<forall>v \<in> set counts. 0 \<le> sint v) \<and> sum_list (map sint counts) * 1000000 \<le> sint tp"
proof (cases "counts \<noteq> [] \<and> (\<forall>v \<in> set counts. 0 \<le> sint v)")
  case True
  then have "0 \<le> sum_list (map sint counts)" by (intro sum_list_nonneg) auto
  with assms have "sint (of_int (sum_list (map sint counts)) :: 32 word) = sum_list (map sint counts)"
    by (simp add: sint_sbintrunc' signed_take_bit_int_eq_self)
  with True show ?thesis by (simp add: ValidateContract_eq)
qed (auto simp: ValidateContract_eq)

text \<open>C23: beyond 32 bits it is not: whatever the Tron power, a multiple of \<open>2 ^ 32\<close> votes is accepted, and so
  are sums whose lower half is negative.\<close>

theorem votes_overflow:
  assumes "0 \<le> k" "k < 2 ^ 31" "0 \<le> sint tp"
  shows "ValidateContract [of_int (k * 2 ^ 32)] tp = Inr ''''"
proof -
  have s: "sint (of_int (k * 2 ^ 32) :: 64 word) = k * 2 ^ 32" by (rule sint_of_int64) (use assms in auto)
  have "(2 ^ 32 :: 32 word) = 0" by code_simp
  then have "(of_int (k * 2 ^ 32) :: 32 word) = 0" by (simp only: of_int_mult of_int_power of_int_numeral mult_zero_right)
  then have "sint (of_int (sum_list (map sint [of_int (k * 2 ^ 32) :: 64 word])) :: 32 word) = 0" using s by (simp only: list.map sum_list.Cons sum_list.Nil add_0_right) simp
  with s assms show ?thesis by (simp only: ValidateContract_eq) (simp only: list.set, simp)
qed

section \<open>From the list of witnesses to the contract\<close>

definition entered :: "vote_row list \<Rightarrow> string list \<Rightarrow> vote_row list" where
  "entered rows ts = map2 (\<lambda>r t. r\<lparr>row_myvotes := t\<rparr>) rows ts"

definition counted :: "witness list \<Rightarrow> string list \<Rightarrow> (bytes \<times> 64 word) list" where
  "counted ws ts =
     map (\<lambda>(w, t). (wit_address w, of_int (snd (StringToInt64 t))))
       (filter (\<lambda>(w, t). t \<noteq> '''' \<and> fst (StringToInt64 t)) (zip ws ts))"

lemma counted_Cons [simp]: "counted (w # ws) (t # ts) =
    (if t \<noteq> '''' \<and> fst (StringToInt64 t) then [(wit_address w, of_int (snd (StringToInt64 t)))] else []) @ counted ws ts"
  and counted_Nil [simp]: "counted [] ts = []"
  by (simp_all add: counted_def)

lemma entered_Cons [simp]: "entered (r # rows) (t # ts) = r\<lparr>row_myvotes := t\<rparr> # entered rows ts"
  and entered_Nil [simp]: "entered [] ts = []"
  by (simp_all add: entered_def)

lemma add_votes_entered:
  assumes "\<And>x. length (fe_sha E x) = 32"
  shows "\<exists>rows. UpdateWitnessList E ws = Inr rows \<and>
    (\<forall>ts votes urls. length ts = length ws \<longrightarrow> (\<exists>urls'. add_votes E (entered rows ts) votes urls = Inr (votes @ counted ws ts, urls')))"
proof (induction ws)
  case (Cons w ws)
  obtain s where s: "AddressEncodeBase58Check (fe_sha E) (wit_address w) = Inr s"
    "AddressDecodeBase58Check (fe_sha E) s = Inr (True, wit_address w)"
    using Base58Check_roundtrip' [of "fe_sha E" "wit_address w"] assms
    by (auto simp: AddressEncodeBase58Check_def AddressDecodeBase58Check_def)
  from Cons obtain rows where rows: "UpdateWitnessList E ws = Inr rows"
    "\<And>ts votes urls. length ts = length ws \<Longrightarrow> \<exists>urls'. add_votes E (entered rows ts) votes urls = Inr (votes @ counted ws ts, urls')"
    by blast
  define r where "r = \<lparr>row_address = s, row_website = wit_url w, row_votes = IntToString (sint (wit_votes w)), row_myvotes = ''''\<rparr>"
  have "\<exists>urls'. add_votes E (entered (r # rows) ts) votes urls = Inr (votes @ counted (w # ws) ts, urls')"
    if len: "length ts = length (w # ws)" for ts votes urls
  proof -
    from len obtain t ts' where ts: "ts = t # ts'" "length ts' = length ws" by (cases ts) auto
    obtain ok n where n: "StringToInt64 t = (ok, n)" by (cases "StringToInt64 t")
    from rows(2) [OF ts(2), of "votes @ [(wit_address w, of_int n)]"] rows(2) [OF ts(2), of votes urls] s(2)
    show ?thesis by (auto simp: ts n r_def)
  qed
  moreover have "UpdateWitnessList E (w # ws) = Inr (r # rows)" using s(1) rows(1) by (simp add: witness_row_def r_def)
  ultimately show ?case by (intro exI [of _ "r # rows"]) blast
qed simp

text \<open>C15: the votes that are sent are those that were entered: the contract has, in the order of the list
  that the node answered, the witness' own address and the number for each row with the text of a
  number, and no other votes.\<close>

theorem votes_as_entered:
  assumes "\<And>x. length (fe_sha E x) = 32" "length ts = length ws" "vf_offline f \<or> fe_address E \<noteq> []"
  shows "\<exists>rows urls. UpdateWitnessList E ws = Inr rows
    \<and> CreateVoteContract E (f\<lparr>vf_rows := entered rows ts\<rparr>) =
      Inr (Some (if vf_offline f then vf_address f else fe_address E, counted ws ts, urls))"
proof -
  obtain rows where rows: "UpdateWitnessList E ws = Inr rows"
    "\<forall>ts votes urls. length ts = length ws \<longrightarrow> (\<exists>urls'. add_votes E (entered rows ts) votes urls = Inr (votes @ counted ws ts, urls'))"
    using add_votes_entered [of E ws, OF assms(1)] by blast
  then obtain urls where "add_votes E (entered rows ts) [] (vf_address_url f) = Inr ([] @ counted ws ts, urls)"
    using assms(2) by blast
  with rows(1) assms(3) show ?thesis by (auto simp: CreateVoteContract_def)
qed

text \<open>The flow asks for the account, then for the transaction if the account exists and the votes are
  valid, and then broadcasts the node's transaction, signed.\<close>

theorem vote_flow:
  assumes "CreateVoteContract E f = Inr (Some (owner, votes, urls))" "acc_address a \<noteq> []"
    "ValidateContract (map snd votes) (CalcTronPower (map fst (acc_frozen a))) = Inr m"
  shows "requests (vote_click E f) = [(Request_GetAccount, Account owner)]
    \<and> requests (follow (vote_click E f) [AnAccount a]) =
      (if m = '''' then [(Request_VoteWitnessAccount, Contract (VoteWitnessContract owner votes))] else [])
    \<and> (m = '''' \<longrightarrow> (\<forall>r \<in> set (requests (follow (vote_click E f) [AnAccount a, ATransaction tx])).
        \<not> vf_offline f \<and> (\<exists>tx'. r = (Request_BroadcastTransaction, Transaction tx') \<and> signed_by E tx tx')))"
proof (intro conjI impI)
  assume "m = ''''"
  with assms have "follow (vote_click E f) [AnAccount a, ATransaction tx] = vote_transaction E f tx"
    by (simp add: vote_click_def vote_account_def)
  with SignAndBroadcast_requests [of "[]" OnTransactionCreateFailed _ E _ tx]
  show "\<forall>r \<in> set (requests (follow (vote_click E f) [AnAccount a, ATransaction tx])).
        \<not> vf_offline f \<and> (\<exists>tx'. r = (Request_BroadcastTransaction, Transaction tx') \<and> signed_by E tx tx')"
    by (auto simp: vote_transaction_def OnTransactionCreateFailed_def)
qed (use assms in \<open>simp_all add: vote_click_def vote_account_def\<close>)

section \<open>Witnesses\<close>

definition toy_votes :: vote_form where
  "toy_votes = \<lparr>vf_offline = True, vf_address = [1], vf_rows = [], vf_address_url = []\<rparr>"

theorem votes_validated_witness: "ValidateContract [3, 4] 7000000 = Inr ''''"
  using votes_validated [of "[3, 4]" 7000000] by simp

theorem votes_overflow_witness: "ValidateContract [of_int (5 * 2 ^ 32)] 0 = Inr ''''"
  by (rule votes_overflow) simp_all

theorem votes_as_entered_witness:
  "\<exists>rows urls. CreateVoteContract toy_env (toy_votes\<lparr>vf_rows := entered rows [''12'', ''x'']\<rparr>) =
    Inr (Some ([1], [([65], 12)], urls))"
proof -
  let ?ws = "[\<lparr>wit_address = [65], wit_votes = 0, wit_url = ''u''\<rparr>, \<lparr>wit_address = [66], wit_votes = 0, wit_url = ''v''\<rparr>]"
  have sha: "length (fe_sha toy_env x) = 32" for x by (simp add: toy_env_def toy_lib_def)
  have "StringToInt64 ''12'' = (True, 12)" "fst (StringToInt64 ''x'') = False" by code_simp+
  then have "counted ?ws [''12'', ''x''] = [([65], 12)]" by simp
  with votes_as_entered [OF sha, of "[''12'', ''x'']" ?ws toy_votes] show ?thesis
    by (auto simp: toy_votes_def)
qed

theorem vote_flow_witness:
  "requests (follow (vote_click toy_env toy_votes) [AnAccount toy_account]) = []"
  using vote_flow [of toy_env toy_votes "[1]" "[]" "[]" toy_account "''VoteNumber must more than 0''" toy_tx]
  by (simp add: CreateVoteContract_def toy_votes_def toy_account_def ValidateContract_def)

end
