(* ===== verification/Token_Forms.thy ===== *)
theory Token_Forms
  imports Freeze_Form
begin

text \<open>
  wallet/gui/token_issue_form.cpp, token_modify_form.cpp, token_list_form.cpp and participate_form.cpp:
  issuing a token, changing it, the list of tokens and taking part in one. \<open>time_of\<close> is \<open>GetTime\<close> of a
  text, which depends on the time zone of the computer.
\<close>

section \<open>Issuing a token\<close>

record issue_form =
  if_name :: string
  if_supply :: string
  if_trx :: string
  if_token :: string
  if_description :: string
  if_url :: string
  if_start :: string
  if_end :: string

definition Check :: "string \<Rightarrow> string \<Rightarrow> string + string" where
  "Check text msg = (if text = '''' then Inl msg else Inr text)"

text \<open>The text may be anything; the value left by \<open>StringToInt64\<close> must be positive.\<close>

definition CheckNum :: "string \<Rightarrow> string \<Rightarrow> string + int" where
  "CheckNum text msg = (let n = snd (StringToInt64 text) in if n \<le> 0 then Inl msg else Inr n)"

definition CheckDataTime :: "(string \<Rightarrow> 64 word) \<Rightarrow> string \<Rightarrow> string + 64 word" where
  "CheckDataTime time_of text = (let t = time_of text in if t = 0 then Inl ''Date time format error!'' else Inr t)"

definition mbind :: "'e + 'a \<Rightarrow> ('a \<Rightarrow> 'e + 'b) \<Rightarrow> 'e + 'b" where
  "mbind r f = (case r of Inl m \<Rightarrow> Inl m | Inr x \<Rightarrow> f x)"

lemma mbind_simps [simp]: "mbind (Inl m) f = Inl m" "mbind (Inr x) f = f x"
  by (simp_all add: mbind_def)

lemma mbind_Inr: "mbind r f = Inr y \<longleftrightarrow> (\<exists>x. r = Inr x \<and> f x = Inr y)"
  by (cases r) auto

text \<open>The input that was checked: the supply, the TRX and token amounts and the times.\<close>

definition CheckIssue ::
  "(string \<Rightarrow> 64 word) \<Rightarrow> nat \<Rightarrow> issue_form \<Rightarrow> string + (int \<times> int \<times> int \<times> 64 word \<times> 64 word)" where
  "CheckIssue time_of now f =
     mbind (Check (if_name f) ''Please input token name!'') (\<lambda>_.
     mbind (Check (if_supply f) ''Please input total supply!'') (\<lambda>_.
     mbind (CheckNum (if_supply f) ''Total supply must greater than 0!'') (\<lambda>supply.
     mbind (Check (if_trx f) ''Please input trx amount!'') (\<lambda>_.
     mbind (CheckNum (if_trx f) ''TRX amount must greater than 0!'') (\<lambda>trx.
     mbind (Check (if_token f) ''Please input token amount!'') (\<lambda>_.
     mbind (CheckNum (if_token f) ''Token amount must greater than 0!'') (\<lambda>token.
     mbind (Check (if_description f) ''Please input description!'') (\<lambda>_.
     mbind (Check (if_url f) ''Please input url!'') (\<lambda>_.
     mbind (CheckDataTime time_of (if_start f)) (\<lambda>stime.
     mbind (CheckDataTime time_of (if_end f)) (\<lambda>etime.
       if stime < of_nat now then Inl ''Start time should be greater than now''
       else if etime < stime then Inl ''End time should be greater than start time''
       else Inr (supply, trx, token, stime, etime))))))))))))"

text \<open>The amounts of the message have 32 bits: \<open>set_trx_num\<close> and \<open>set_num\<close> truncate.\<close>

definition issue_contract :: "form_env \<Rightarrow> issue_form \<Rightarrow> int \<times> int \<times> int \<times> 64 word \<times> 64 word \<Rightarrow> asset_issue result" where
  "issue_contract E f = (\<lambda>(supply, trx, token, stime, etime).
     rbind (ToDrop (fl (of_int trx))) (\<lambda>drops.
       Inr \<lparr>iss_owner = fe_address E, iss_name = if_name f, iss_total_supply = of_int supply,
            iss_trx_num = of_int drops, iss_num = of_int token, iss_start_time = stime, iss_end_time = etime,
            iss_description = if_description f, iss_url = if_url f\<rparr>))"

definition issue_account :: "form_env \<Rightarrow> asset_issue \<Rightarrow> account \<Rightarrow> action list" where
  "issue_account E c a =
     (if acc_address a = [] then account_not_exists E (iss_owner c)
      else if ToTrx (acc_balance a) < 1024 then [Ui (MessageBox ''Balance must be greater than 1024'')]
      else
        [Request Request_CreateAssetIssue (Contract (AssetIssueContract c))
           (on_transaction (SignAndBroadcast E (\<lambda>ok m. [Ui (AutoHideShowStatus (if ok then ''Issue Success.'' else ''Issue Failed.''))])
             [] OnTransactionCreateFailed)),
         Ui (ShowStatus ''Issuing a token'')])"

definition CheckAndIssue :: "form_env \<Rightarrow> (string \<Rightarrow> 64 word) \<Rightarrow> issue_form \<Rightarrow> action list" where
  "CheckAndIssue E time_of f =
     (case CheckIssue time_of (fe_clock E 0) f of
        Inl m \<Rightarrow> [Ui (MessageBox m)]
      | Inr input \<Rightarrow>
          (case issue_contract E f input of
             Inl e \<Rightarrow> [Raise e]
           | Inr c \<Rightarrow> [Request Request_GetAccount (Account (iss_owner c)) (on_account (issue_account E c))]))"

section \<open>Changing a token\<close>

record modify_form =
  mf_description :: string
  mf_url :: string
  mf_limit :: string
  mf_public_limit :: string

text \<open>A \<open>long\<close> of the platform (Windows) has 32 bits.\<close>

definition ONE_DAY_NET_LIMIT :: int where
  "ONE_DAY_NET_LIMIT = sint (of_int 57600000000 :: 32 word)"

text \<open>The checks with the message of the first that fails, and the variables as far as they are set.\<close>

definition CheckModify :: "modify_form \<Rightarrow> string option \<times> (string \<times> string \<times> int \<times> int)" where
  "CheckModify f =
     (if mf_description f = '''' then (Some ''Please input description!'', '''', '''', 0, 0)
      else if mf_url f = '''' then (Some ''Please input url!'', mf_description f, '''', 0, 0)
      else if mf_limit f = '''' then (Some ''Please bandwidth limit!'', mf_description f, mf_url f, 0, 0)
      else
        (let n = snd (StringToInt64 (mf_limit f)) in
         if n < 0 \<or> n \<ge> ONE_DAY_NET_LIMIT then (Some ''Invalid bandwidth limit'', mf_description f, mf_url f, n, 0)
         else if mf_public_limit f = '''' then (Some ''Please input total bandwidth limit!'', mf_description f, mf_url f, n, 0)
         else
           (let p = snd (StringToInt64 (mf_public_limit f)) in
            if p < 0 \<or> p \<ge> ONE_DAY_NET_LIMIT then (Some ''Invalid total bandwidth limit'', mf_description f, mf_url f, n, p)
            else (None, mf_description f, mf_url f, n, p))))"

text \<open>The contract is sent in any case: the test is \<open>if (true)\<close>.\<close>

definition modify_click :: "form_env \<Rightarrow> modify_form \<Rightarrow> action list" where
  "modify_click E f =
     (case CheckModify f of (msg, desc, url, lmt, public_lmt) \<Rightarrow>
        (case msg of None \<Rightarrow> [] | Some m \<Rightarrow> [Ui (MessageBox m)]) @
        [Request Request_UpdateAsset
           (Contract (UpdateAssetContract (fe_address E) desc url (of_int lmt) (of_int public_lmt)))
           (on_transaction (SignAndBroadcast E (\<lambda>ok m. [Ui (AutoHideShowStatus (if ok then ''Update assert success'' else m))])
             [] OnTransactionCreateFailed)),
         Ui (ShowStatus ''Updating Assert'')])"

section \<open>The list of tokens\<close>

record issue_item =
  it_name :: string
  it_issuer :: string
  it_total_supply :: "64 word"
  it_start_time :: "64 word"
  it_end_time :: "64 word"
  it_description :: string
  it_url :: string
  it_avaliable :: "64 word"
  it_rate :: dbl

text \<open>The quotient and the product of doubles.\<close>

definition dbl_div :: "rat \<Rightarrow> rat \<Rightarrow> dbl" where
  "dbl_div x y = (if y = 0 then (if x = 0 then NaN else Inf (x < 0)) else Fin (fl (x / y)))"

fun dbl_mult :: "dbl \<Rightarrow> rat \<Rightarrow> dbl" where
  "dbl_mult (Fin x) y = Fin (fl (x * y))"
| "dbl_mult (Inf neg) y = (if y = 0 then NaN else Inf (neg \<noteq> (y < 0)))"
| "dbl_mult NaN y = NaN"

definition issue_item_of :: "form_env \<Rightarrow> asset_issue \<Rightarrow> issue_item result" where
  "issue_item_of E i =
     rbind (AddressEncodeBase58Check (fe_sha E) (iss_owner i)) (\<lambda>s.
       Inr \<lparr>it_name = iss_name i, it_issuer = s, it_total_supply = iss_total_supply i, it_start_time = iss_start_time i,
            it_end_time = iss_end_time i, it_description = iss_description i, it_url = iss_url i, it_avaliable = 0,
            it_rate = dbl_div (ToTrx (scast (iss_trx_num i))) (of_int (sint (iss_num i)))\<rparr>)"

fun UpdateIssueList :: "form_env \<Rightarrow> asset_issue list \<Rightarrow> issue_item list result" where
  "UpdateIssueList E [] = Inr []"
| "UpdateIssueList E (i # is) = rbind (issue_item_of E i) (\<lambda>x. rbind (UpdateIssueList E is) (\<lambda>xs. Inr (x # xs)))"

datatype action_button = Expired | NotStarted | Participate | Modify

text \<open>The times are compared as unsigned numbers.\<close>

definition GetActionButton :: "bool \<Rightarrow> nat \<Rightarrow> 64 word \<Rightarrow> 64 word \<Rightarrow> action_button" where
  "GetActionButton part now stime etime =
     (if part \<and> etime < of_nat now then Expired
      else if part \<and> stime > of_nat now then NotStarted
      else if part then Participate else Modify)"

section \<open>Taking part\<close>

text \<open>\<open>OnShowParticipate\<close> of the main window asks for the issuer's account and notes how many tokens it
  still has.\<close>

definition avaliable_of :: "account \<Rightarrow> issue_item \<Rightarrow> issue_item" where
  "avaliable_of a i = (case map_of (acc_asset a) (it_name i) of Some n \<Rightarrow> i\<lparr>it_avaliable := n\<rparr> | None \<Rightarrow> i)"

definition OnShowParticipate :: "form_env \<Rightarrow> issue_item \<Rightarrow> action list" where
  "OnShowParticipate E i =
     (case AddressDecodeBase58Check (fe_sha E) (it_issuer i) of
        Inl e \<Rightarrow> [Raise e]
      | Inr (valid, adr) \<Rightarrow>
          if valid then [Request Request_GetAccount (Account adr) (on_account (\<lambda>a. [Ui (ShowContent ''participate_form'')]))]
          else [Ui (AutoHideShowStatus (''Address '' @ it_issuer i @ '' format error!''))])"

text \<open>What \<open>UpdateItemData\<close> shows: the text of the button, whether it is enabled, how much is taken and
  the progress in percent.\<close>

definition item_progress :: "issue_item \<Rightarrow> string \<times> bool \<times> int \<times> int option" where
  "item_progress i =
     ((if sint (it_avaliable i) > 0 then ''Submit'' else ''Finished''), sint (it_avaliable i) > 0,
      uint (it_total_supply i - it_avaliable i),
      (if it_total_supply i > 0 then Some (uint ((it_total_supply i - it_avaliable i) * 100 div it_total_supply i)) else None))"

definition participate_account :: "form_env \<Rightarrow> bytes \<Rightarrow> bytes \<Rightarrow> string \<Rightarrow> 64 word \<Rightarrow> account \<Rightarrow> action list" where
  "participate_account E owner to name drops a =
     (if acc_address a = [] then account_not_exists E owner
      else
        [Request Request_ParticipateAssetIssue (Contract (ParticipateAssetIssueContract owner to name drops))
           (on_transaction (SignAndBroadcast E
             (\<lambda>ok m. [Ui (AutoHideShowStatus (if ok then ''Participate Success.'' else ''Participate Failed.''))]) []
             OnTransactionCreateFailed)),
         Ui (ShowStatus ''Participating'')])"

definition participate_click :: "form_env \<Rightarrow> issue_item \<Rightarrow> string \<Rightarrow> action list" where
  "participate_click E i text =
     (if fe_address E = [] then []
      else if text = '''' then [Ui (MessageBox ''Please input amount'')]
      else
        (let amount = snd (StringToInt64 text) in
         if amount > sint (it_avaliable i) then [Ui (MessageBox ''Participate amount greater than rest amount.'')]
         else
           (case ToDrop_dbl (dbl_mult (it_rate i) (fl (of_int amount))) of
              Inl e \<Rightarrow> [Raise e]
            | Inr drops \<Rightarrow>
                (case AddressDecodeBase58Check (fe_sha E) (it_issuer i) of
                   Inl e \<Rightarrow> [Raise e]
                 | Inr (_, to) \<Rightarrow>
                     if fe_address E = to then [Ui (MessageBox ''Cannot participate asset issue yourself!'')]
                     else [Request Request_GetAccount (Account (fe_address E))
                             (on_account (participate_account E (fe_address E) to (it_name i) (of_int drops)))]))))"

text \<open>The price shown while the amount is typed.\<close>

definition participate_preview :: "issue_item \<Rightarrow> string \<Rightarrow> (string + dbl) option" where
  "participate_preview i text =
     (if text = '''' then None
      else
        (let amount = snd (StringToInt64 text) in
         if amount > 0 then Some (Inr (dbl_mult (it_rate i) (fl (of_int amount))))
         else Some (Inl ''Amount must greater than 0!'')))"

text \<open>The price shown by the form that issues a token.\<close>

definition issue_preview :: "issue_form \<Rightarrow> string \<times> dbl" where
  "issue_preview f =
     (if if_name f = '''' then ''Token'' else if_name f,
      dbl_div (fl (of_int (snd (StringToInt64 (if_trx f))))) (fl (of_int (snd (StringToInt64 (if_token f))))))"

section \<open>Properties\<close>

text \<open>A token is submitted exactly if every field is filled in, the three numbers are positive, the two
  times are readable and the start is neither in the past nor after the end.\<close>

definition issue_valid :: "(string \<Rightarrow> 64 word) \<Rightarrow> nat \<Rightarrow> issue_form \<Rightarrow> bool" where
  "issue_valid time_of now f \<longleftrightarrow>
     '''' \<notin> {if_name f, if_supply f, if_trx f, if_token f, if_description f, if_url f}
     \<and> (\<forall>t \<in> {if_supply f, if_trx f, if_token f}. 0 < snd (StringToInt64 t))
     \<and> time_of (if_start f) \<noteq> 0 \<and> time_of (if_end f) \<noteq> 0
     \<and> of_nat now \<le> time_of (if_start f) \<and> time_of (if_start f) \<le> time_of (if_end f)"

lemma CheckIssue_Inr:
  "CheckIssue time_of now f = Inr x \<longleftrightarrow> issue_valid time_of now f
    \<and> x = (snd (StringToInt64 (if_supply f)), snd (StringToInt64 (if_trx f)), snd (StringToInt64 (if_token f)),
           time_of (if_start f), time_of (if_end f))"
  by (auto simp: CheckIssue_def mbind_Inr Check_def CheckNum_def CheckDataTime_def issue_valid_def Let_def not_less
      split: if_splits)

lemma issue_request:
  assumes "issue_valid time_of (fe_clock E 0) f"
    "issue_contract E f (snd (StringToInt64 (if_supply f)), snd (StringToInt64 (if_trx f)), snd (StringToInt64 (if_token f)),
       time_of (if_start f), time_of (if_end f)) = Inr c"
  shows "CheckAndIssue E time_of f = [Request Request_GetAccount (Account (iss_owner c)) (on_account (issue_account E c))]"
proof -
  have "CheckIssue time_of (fe_clock E 0) f = Inr (snd (StringToInt64 (if_supply f)), snd (StringToInt64 (if_trx f)),
      snd (StringToInt64 (if_token f)), time_of (if_start f), time_of (if_end f))"
    using assms(1) by (simp add: CheckIssue_Inr)
  with assms(2) show ?thesis by (simp add: CheckAndIssue_def)
qed

lemma sint32_of_int: "0 \<le> n \<Longrightarrow> sint (of_int n :: 32 word) = n \<longleftrightarrow> n < 2 ^ 31"
proof
  assume "0 \<le> n" "n < 2 ^ 31"
  then show "sint (of_int n :: 32 word) = n" by (simp add: sint_sbintrunc' signed_take_bit_int_eq_self)
next
  assume "sint (of_int n :: 32 word) = n"
  with sint_range_size [of "of_int n :: 32 word"] show "n < 2 ^ 31" by (simp add: word_size)
qed

text \<open>The message has 32 bits for the price. A valid form for a token at \<open>n\<close> TRX each leads to a contract
  with \<open>n\<close> million drops only up to 2147 TRX; beyond it the price of the contract is another one, and
  likewise from \<open>2 ^ 31\<close> tokens on.\<close>

theorem issue_price_truncated:
  assumes "issue_valid time_of (fe_clock E 0) f" "snd (StringToInt64 (if_trx f)) = n" "n * 1000000 < 2 ^ 53"
    "snd (StringToInt64 (if_token f)) = m"
  shows "\<exists>c. requests (CheckAndIssue E time_of f) = [(Request_GetAccount, Account (fe_address E))]
    \<and> requests (follow (CheckAndIssue E time_of f) [AnAccount a]) =
        (if acc_address a \<noteq> [] \<and> 1024 \<le> ToTrx (acc_balance a)
         then [(Request_CreateAssetIssue, Contract (AssetIssueContract c))] else [])
    \<and> (sint (iss_trx_num c) = n * 1000000 \<longleftrightarrow> n \<le> 2147) \<and> (sint (iss_num c) = m \<longleftrightarrow> m < 2 ^ 31)"
proof -
  from assms have pos: "0 < n" "0 < m" by (auto simp: issue_valid_def)
  with assms(3) have "\<bar>n\<bar> < 2 ^ 53" "\<bar>n * 1000000\<bar> < 2 ^ 53" by (simp_all add: abs_mult)
  then have d: "ToDrop (fl (of_int n)) = Inr (n * 1000000)" by (simp only: fl_of_int ToDrop_of_int)
  let ?in = "(snd (StringToInt64 (if_supply f)), snd (StringToInt64 (if_trx f)), snd (StringToInt64 (if_token f)),
       time_of (if_start f), time_of (if_end f))"
  define w where "w = (of_int (n * 1000000) :: 32 word)"
  obtain c where c: "issue_contract E f ?in = Inr c" "iss_owner c = fe_address E" "iss_trx_num c = w" "iss_num c = of_int m"
    using d unfolding issue_contract_def assms(2,4) w_def by auto
  have "sint w = n * 1000000 \<longleftrightarrow> n \<le> 2147"
    using sint32_of_int [of "n * 1000000"] pos unfolding w_def by auto
  moreover have "sint (of_int m :: 32 word) = m \<longleftrightarrow> m < 2 ^ 31" using pos by (intro sint32_of_int) simp
  ultimately show ?thesis using c issue_request [OF assms(1) c(1)]
    by (intro exI [of _ c]) (auto simp: issue_account_def not_less)
qed

text \<open>Changing a token sends the contract whatever was entered: a failed check shows its message, and the
  fields after it are sent as empty texts and zeros.\<close>

theorem modify_ignores_checks:
  "\<exists>desc url lmt public_lmt. requests (modify_click E f) =
      [(Request_UpdateAsset, Contract (UpdateAssetContract (fe_address E) desc url lmt public_lmt))]
    \<and> (fst (CheckModify f) = Some m \<longrightarrow> Ui (MessageBox m) \<in> set (modify_click E f))
    \<and> (mf_description f = '''' \<longrightarrow> desc = '''' \<and> url = '''' \<and> lmt = 0 \<and> public_lmt = 0)"
  by (cases "CheckModify f"; cases "fst (CheckModify f)") (auto simp: modify_click_def CheckModify_def)

lemma ToTrx_nonneg: "0 \<le> sint a \<Longrightarrow> ToTrx a = of_int (sint a div 1000000)"
  by (cases "sint a = 0") (simp_all add: ToTrx_def TRX_DROP_RATE_def)

lemma sint_scast: "sint (scast (x :: 32 word) :: 64 word) = sint x"
  by (rule sint_up_scast) (simp add: is_up)

text \<open>C19: for a token whose price is a whole number \<open>k\<close> of TRX, whoever takes part with \<open>n\<close> tokens of those left
  pays \<open>k n\<close> TRX to the issuer: the contract, requested for an existing account, names the issuer of
  the listed token and has \<open>k n\<close> million drops.\<close>

theorem participate_price:
  assumes "\<And>x. length (fe_sha E x) = 32" "fe_address E \<noteq> []" "fe_address E \<noteq> iss_owner iss"
    "sint (iss_trx_num iss) = k * sint (iss_num iss) * 1000000" "0 \<le> k" "0 < sint (iss_num iss)"
    "text \<noteq> ''''" "snd (StringToInt64 text) = n" "0 < n" "k * n * 1000000 < 2 ^ 53" "n < 2 ^ 53"
    "map_of (acc_asset issuer) (iss_name iss) = Some rest" "n \<le> sint rest" "acc_address a \<noteq> []"
  shows "\<exists>i. issue_item_of E iss = Inr i
    \<and> requests (follow (participate_click E (avaliable_of issuer i) text) [AnAccount a]) =
      [(Request_ParticipateAssetIssue,
        Contract (ParticipateAssetIssueContract (fe_address E) (iss_owner iss) (iss_name iss) (of_int (k * n * 1000000))))]"
proof -
  obtain s where s: "AddressEncodeBase58Check (fe_sha E) (iss_owner iss) = Inr s"
    "AddressDecodeBase58Check (fe_sha E) s = Inr (True, iss_owner iss)"
    using Base58Check_roundtrip' [of "fe_sha E" "iss_owner iss"] assms(1)
    by (auto simp: AddressEncodeBase58Check_def AddressDecodeBase58Check_def)
  let ?m = "sint (iss_num iss)"
  have "k * 1 \<le> k * n" using assms(5,9) by (intro mult_left_mono) auto
  with assms(5,9,10,11) have small: "\<bar>k\<bar> < 2 ^ 53" "\<bar>k * n\<bar> < 2 ^ 53" "\<bar>k * n * 1000000\<bar> < 2 ^ 53" "\<bar>n\<bar> < 2 ^ 53"
    by (simp_all add: abs_mult)
  have "ToTrx (scast (iss_trx_num iss)) = of_int (k * ?m)"
    using assms(4-6) ToTrx_nonneg [of "scast (iss_trx_num iss)"] by (simp add: sint_scast)
  moreover have "dbl_div (of_int (k * q)) (of_int q) = Fin (of_int k)" if "0 < q" for q
    using that fl_of_int [OF small(1)] by (simp add: dbl_div_def)
  ultimately have rate: "dbl_div (ToTrx (scast (iss_trx_num iss))) (of_int ?m) = Fin (of_int k)"
    using assms(6) by metis
  have "fl (of_int k * fl (of_int n)) = of_int (k * n)"
    using fl_of_int [OF small(2)] fl_of_int [OF small(4)] by simp
  then have drops: "ToDrop_dbl (dbl_mult (Fin (of_int k)) (fl (of_int n))) = Inr (k * n * 1000000)"
    using ToDrop_of_int [OF small(3)] by (simp only: dbl_mult.simps ToDrop_dbl.simps)
  obtain i where i: "issue_item_of E iss = Inr i" "it_issuer i = s" "it_name i = iss_name iss" "it_rate i = Fin (of_int k)"
    using s(1) rate by (simp add: issue_item_of_def)
  then have av: "avaliable_of issuer i = i\<lparr>it_avaliable := rest\<rparr>" using assms(12) by (simp add: avaliable_of_def)
  have "participate_click E (avaliable_of issuer i) text = [Request Request_GetAccount (Account (fe_address E))
      (on_account (participate_account E (fe_address E) (iss_owner iss) (iss_name iss) (of_int (k * n * 1000000))))]"
    using assms(2,3,7,8,13) s(2) drops i(2-4) unfolding participate_click_def av by (simp add: not_less)
  with i(1) assms(14) show ?thesis by (simp add: participate_account_def)
qed

text \<open>A price below one TRX is taken for nothing: the list shows the rate 0, and whoever takes part sends
  a contract over 0 drops.\<close>

theorem participate_free:
  assumes "0 \<le> sint (iss_trx_num iss)" "sint (iss_trx_num iss) < 1000000" "sint (iss_num iss) \<noteq> 0"
    "issue_item_of E iss = Inr i" "AddressDecodeBase58Check (fe_sha E) (it_issuer i) = Inr (valid, to)"
    "fe_address E \<noteq> []" "fe_address E \<noteq> to" "text \<noteq> ''''" "snd (StringToInt64 text) \<le> sint (it_avaliable i)" "acc_address a \<noteq> []"
  shows "it_rate i = Fin 0
    \<and> requests (follow (participate_click E i text) [AnAccount a]) =
      [(Request_ParticipateAssetIssue, Contract (ParticipateAssetIssueContract (fe_address E) to (it_name i) 0))]"
proof -
  have "ToTrx (scast (iss_trx_num iss)) = 0"
    using assms(1,2) ToTrx_nonneg [of "scast (iss_trx_num iss)"] by (simp add: sint_scast)
  moreover have "dbl_div 0 (of_int q) = Fin 0" if "q \<noteq> 0" for q
    using that by (simp add: dbl_div_def fl_def)
  ultimately have "dbl_div (ToTrx (scast (iss_trx_num iss))) (of_int (sint (iss_num iss))) = Fin 0"
    using assms(3) by metis
  with assms(4) have rate: "it_rate i = Fin 0" by (auto simp: issue_item_of_def rbind_eq_Inr)
  have "ToDrop_dbl (dbl_mult (Fin 0) x) = Inr 0" for x by (simp add: fl_def ToDrop_def to_int64_def)
  with rate assms(5-9) have "participate_click E i text = [Request Request_GetAccount (Account (fe_address E))
      (on_account (participate_account E (fe_address E) to (it_name i) 0))]"
    by (simp add: participate_click_def not_less)
  with rate assms(10) show ?thesis by (simp add: participate_account_def)
qed

section \<open>Witnesses\<close>

definition toy_issue :: issue_form where
  "toy_issue = \<lparr>if_name = ''T'', if_supply = ''9'', if_trx = ''2148'', if_token = ''1'', if_description = ''d'',
     if_url = ''u'', if_start = ''s'', if_end = ''e''\<rparr>"

definition toy_time :: "string \<Rightarrow> 64 word" where
  "toy_time s = (if s = ''s'' then 3 else 4)"

theorem issue_price_truncated_witness:
  "\<exists>c :: asset_issue. requests (CheckAndIssue toy_env toy_time toy_issue) = [(Request_GetAccount, Account (fe_address toy_env))]
    \<and> sint (iss_trx_num c) \<noteq> 2148000000"
proof -
  have n: "snd (StringToInt64 ''9'') = 9" "snd (StringToInt64 ''2148'') = 2148" "snd (StringToInt64 ''1'') = 1" by code_simp+
  have v: "issue_valid toy_time (fe_clock toy_env 0) toy_issue"
    by (simp add: issue_valid_def toy_issue_def toy_time_def toy_env_def n)
  have t: "snd (StringToInt64 (if_trx toy_issue)) = 2148" "snd (StringToInt64 (if_token toy_issue)) = 1"
    by (simp_all only: toy_issue_def issue_form.simps n)
  have b: "(2148::int) * 1000000 < 2 ^ 53" by simp
  obtain c :: asset_issue where c: "requests (CheckAndIssue toy_env toy_time toy_issue) = [(Request_GetAccount, Account (fe_address toy_env))]"
    "sint (iss_trx_num c) = 2148 * 1000000 \<longleftrightarrow> (2148::int) \<le> 2147"
    using issue_price_truncated [OF v t(1) b t(2), of toy_account] by - (elim exE conjE, rule that, assumption+)
  have "sint (iss_trx_num c) \<noteq> 2148000000" using c(2) by linarith
  with c(1) show ?thesis by (intro exI [of _ c] conjI)
qed

theorem modify_ignores_checks_witness:
  "\<exists>desc url. requests (modify_click toy_env \<lparr>mf_description = '''', mf_url = '''', mf_limit = '''', mf_public_limit = ''''\<rparr>) =
    [(Request_UpdateAsset, Contract (UpdateAssetContract (fe_address toy_env) desc url 0 0))]"
  using modify_ignores_checks [of toy_env "\<lparr>mf_description = '''', mf_url = '''', mf_limit = '''', mf_public_limit = ''''\<rparr>" "''''"]
  by auto

definition toy_asset :: "int \<Rightarrow> asset_issue" where
  "toy_asset trx = \<lparr>iss_owner = [3], iss_name = ''T'', iss_total_supply = 100, iss_trx_num = of_int trx, iss_num = 1,
     iss_start_time = 0, iss_end_time = 0, iss_description = '''', iss_url = ''''\<rparr>"

lemma toy_sha: "length (fe_sha toy_env x) = 32"
  by (simp add: toy_env_def toy_lib_def)

theorem participate_price_witness:
  "\<exists>i. requests (follow (participate_click toy_env (avaliable_of (toy_account\<lparr>acc_asset := [(''T'', 50)]\<rparr>) i) ''3'') [AnAccount toy_account]) =
    [(Request_ParticipateAssetIssue, Contract (ParticipateAssetIssueContract (fe_address toy_env) [3] ''T'' 6000000))]"
proof -
  have "snd (StringToInt64 ''3'') = 3" by code_simp
  moreover have "fe_address toy_env \<noteq> []" "fe_address toy_env \<noteq> [3]" by (simp_all add: toy_env_def ToTronAddress_def)
  ultimately show ?thesis
    using participate_price [OF toy_sha, of "toy_asset 2000000" 2 "''3''" 3 "toy_account\<lparr>acc_asset := [(''T'', 50)]\<rparr>" 50 toy_account]
    by (auto simp: toy_asset_def toy_account_def)
qed

theorem participate_free_witness:
  "\<exists>i. issue_item_of toy_env (toy_asset 500000) = Inr i \<and> it_rate i = Fin 0"
proof -
  obtain s where s: "AddressEncodeBase58Check (fe_sha toy_env) [3] = Inr s"
    "AddressDecodeBase58Check (fe_sha toy_env) s = Inr (True, [3])"
    using Base58Check_roundtrip' [of "fe_sha toy_env" "[3]"] toy_sha
    by (auto simp: AddressEncodeBase58Check_def AddressDecodeBase58Check_def)
  then obtain i where i: "issue_item_of toy_env (toy_asset 500000) = Inr i" "it_issuer i = s" "it_avaliable i = 0"
    by (simp add: issue_item_of_def toy_asset_def)
  have "snd (StringToInt64 ''0'') = 0" by code_simp
  moreover have "fe_address toy_env \<noteq> []" "fe_address toy_env \<noteq> [3]" by (simp_all add: toy_env_def ToTronAddress_def)
  ultimately show ?thesis
    using participate_free [of "toy_asset 500000" toy_env i True "[3]" "''0''" toy_account] i s
    by (auto simp: toy_asset_def toy_account_def)
qed

end
