(* ===== verification/Offline_Forms.thy ===== *)
theory Offline_Forms
  imports Freeze_Form Cold_Wallet
begin

text \<open>
  wallet/gui/transaction_info_form.cpp, freeze_info_form.cpp, vote_info_form.cpp, loaded_form.h and the
  loading of files in wallet_base_window.cpp: transactions that travel between the watching wallet and
  the cold wallet as files. A form is opened with one of three statuses: to save an unsigned
  transaction, to sign one with a generated key and save it, to broadcast a signed one.
\<close>

section \<open>Contracts in a transaction\<close>

datatype ContractType =
  Type_AccountCreateContract | Type_TransferContract | Type_TransferAssetContract | Type_VoteAssetContract
| Type_VoteWitnessContract | Type_WitnessCreateContract | Type_AssetIssueContract | Type_DeployContract
| Type_WitnessUpdateContract | Type_ParticipateAssetIssueContract | Type_AccountUpdateContract
| Type_FreezeBalanceContract | Type_UnfreezeBalanceContract | Type_WithdrawBalanceContract
| Type_UnfreezeAssetContract | Type_UpdateAssetContract | Type_CustomContract

text \<open>A contract has a type and a parameter of type \<open>google.protobuf.Any\<close>. \<open>UnpackTo\<close> succeeds if the
  parameter names the class of its argument and parses; \<open>any_unpack\<close> is the message it holds. The parser
  \<open>oe_contract\<close> is generated code.\<close>

record any_contract =
  any_type :: ContractType
  any_unpack :: "contract option"

record offline_env =
  oe_json :: json_io
  oe_codec :: "tx_message tx_codec"
  oe_contract :: "bytes \<Rightarrow> any_contract"
  oe_form :: form_env
  oe_lookup :: "string \<Rightarrow> bytes"

text \<open>A default constructed tuple is returned for any other transaction.\<close>

definition ParseTransaction :: "(bytes \<Rightarrow> any_contract) \<Rightarrow> tx_message \<Rightarrow> bytes \<times> bytes \<times> string \<times> rat \<times> bool" where
  "ParseTransaction dec tx =
     (let signature = tx_signatures tx \<noteq> [] in
      case raw_contracts (tx_raw tx) of
        [] \<Rightarrow> ([], [], '''', 0, False)
      | c # cs \<Rightarrow>
          (case (any_type (dec c), any_unpack (dec c)) of
             (Type_TransferContract, Some (TransferContract owner to amount)) \<Rightarrow> (owner, to, ''TRX'', ToTrx amount, signature)
           | (Type_TransferAssetContract, Some (TransferAssetContract owner name to amount)) \<Rightarrow>
               (owner, to, name, fl (of_int (sint amount)), signature)
           | _ \<Rightarrow> ([], [], '''', 0, False)))"

definition freeze_ParseTransaction :: "(bytes \<Rightarrow> any_contract) \<Rightarrow> tx_message \<Rightarrow> bytes \<times> 64 word \<times> 64 word \<times> bool" where
  "freeze_ParseTransaction dec tx =
     (let signature = tx_signatures tx \<noteq> [] in
      case raw_contracts (tx_raw tx) of
        [] \<Rightarrow> ([], 0, 0, False)
      | c # cs \<Rightarrow>
          (case (any_type (dec c), any_unpack (dec c)) of
             (Type_FreezeBalanceContract, Some (FreezeBalanceContract owner balance duration)) \<Rightarrow>
               (owner, balance, duration, signature)
           | _ \<Rightarrow> ([], 0, 0, False)))"

definition status_text :: "bool \<Rightarrow> string" where
  "status_text signature = ''Status: '' @ (if signature then ''signed'' else ''unsigned'')"

text \<open>What the freeze form shows: its status, the amount, the address (which its button signs for).\<close>

definition freeze_info_labels :: "offline_env \<Rightarrow> tx_message \<Rightarrow> (string \<times> string \<times> string) result" where
  "freeze_info_labels E tx =
     (case freeze_ParseTransaction (oe_contract E) tx of (owner, balance, duration, signature) \<Rightarrow>
        rbind (AddressEncodeBase58Check (fe_sha (oe_form E)) owner) (\<lambda>adr.
          Inr (status_text signature, ''Amount freeze: '' @ IntToString (sint balance) @ '' TRX'', adr)))"

text \<open>What the transaction form shows: its status, the amount with its token, the two addresses under
  \<open>Inputs\<close> and \<open>Outputs\<close>; the second one is the owner's.\<close>

definition transaction_info_labels :: "offline_env \<Rightarrow> tx_message \<Rightarrow> (string \<times> rat \<times> string \<times> string \<times> string) result" where
  "transaction_info_labels E tx =
     (case ParseTransaction (oe_contract E) tx of (from_adr, to, name, amount, signature) \<Rightarrow>
        rbind (AddressEncodeBase58Check (fe_sha (oe_form E)) to) (\<lambda>inputs.
        rbind (AddressEncodeBase58Check (fe_sha (oe_form E)) from_adr) (\<lambda>outputs.
          Inr (status_text signature, amount, name, inputs, outputs))))"

section \<open>The button of the transaction and the freeze form\<close>

text \<open>The save dialog is modal: \<open>dlg\<close> is the path it was closed with, if it was not cancelled. That path,
  of a file to be written, is taken as the directory of the file.\<close>

definition save_tx :: "offline_env \<Rightarrow> string option \<Rightarrow> tx_message \<Rightarrow> disk \<Rightarrow> Form_Flow.action list \<times> disk" where
  "save_tx E dlg t d =
     (case dlg of
        None \<Rightarrow> ([], d)
      | Some path \<Rightarrow>
          (case SaveTransaction (oe_json E) (oe_codec E) path t d of (success, d) \<Rightarrow>
             ([Ui (AutoHideShowStatus (if success then ''Save success'' else ''Save failed'')), Ui (UIShow False)], d)))"

text \<open>\<open>SignTransaction\<close> changes the transaction the form shares with the list it was opened from.\<close>

definition sign_with :: "offline_env \<Rightarrow> bytes \<Rightarrow> tx_message \<Rightarrow> (bool \<times> tx_message) result" where
  "sign_with E key t = SignTransaction_key (fe_lib (oe_form E)) (fe_ser (oe_form E)) (fe_clock (oe_form E) 0) (fe_clock (oe_form E) 1) key t"

definition HandleClickEvent ::
  "offline_env \<Rightarrow> TransactionStatus \<Rightarrow> string \<Rightarrow> string option \<Rightarrow> tx_message \<Rightarrow> disk \<Rightarrow> (Form_Flow.action list \<times> tx_message \<times> disk) result" where
  "HandleClickEvent E s adr dlg t d =
     (case s of
        SAVE \<Rightarrow> (case save_tx E dlg t d of (acts, d) \<Rightarrow> Inr (acts, t, d))
      | SIGN \<Rightarrow>
          if adr \<noteq> '''' then
            (let key = oe_lookup E adr in
             if \<not> hash_bool key then
               Inr ([Ui (AutoHideShowStatus (''Address '' @ adr @ '' not have private key!'')), Ui (UIShow False)], t, d)
             else
               rbind (sign_with E key t) (\<lambda>(ret, t).
                 if ret then (case save_tx E dlg t d of (acts, d) \<Rightarrow> Inr (acts, t, d))
                 else Inr ([Ui (AutoHideShowStatus ''Sign failed''), Ui (UIShow False)], t, d)))
          else Inr ([], t, d)
      | BROADCAST \<Rightarrow>
          Inr ([Request Request_BroadcastTransaction (Transaction t)
                  (on_return (\<lambda>ok m. [Ui (AutoHideShowStatus (if ok then ''Broadcast success'' else m)), Ui (UIShow False)])),
                Ui (ShowStatus ''Broadcasting'')], t, d))"

text \<open>The button passes the address that the form shows for the owner.\<close>

definition transaction_info_click ::
  "offline_env \<Rightarrow> TransactionStatus \<Rightarrow> string option \<Rightarrow> tx_message \<Rightarrow> disk \<Rightarrow> (Form_Flow.action list \<times> tx_message \<times> disk) result" where
  "transaction_info_click E s dlg t d =
     rbind (transaction_info_labels E t) (\<lambda>(_, _, _, _, outputs). HandleClickEvent E s outputs dlg t d)"

definition freeze_info_click ::
  "offline_env \<Rightarrow> TransactionStatus \<Rightarrow> string option \<Rightarrow> tx_message \<Rightarrow> disk \<Rightarrow> (Form_Flow.action list \<times> tx_message \<times> disk) result" where
  "freeze_info_click E s dlg t d =
     rbind (freeze_info_labels E t) (\<lambda>(_, _, adr). HandleClickEvent E s adr dlg t d)"

section \<open>Votes\<close>

text \<open>\<open>OnUICreate\<close> of the vote form: the rows, each with the web page of the witness and its votes, and the
  owner's address. Reading a page with \<open>operator[]\<close> enters an empty one for an unknown address.\<close>

fun vote_rows :: "offline_env \<Rightarrow> (bytes \<times> 64 word) list \<Rightarrow> (string \<times> string) list
    \<Rightarrow> ((string \<times> string) list \<times> (string \<times> string) list) result" where
  "vote_rows E [] urls = Inr ([], urls)"
| "vote_rows E ((adr, n) # vs) urls =
     rbind (AddressEncodeBase58Check (fe_sha (oe_form E)) adr) (\<lambda>key.
       let (url, urls) = (case map_of urls key of Some u \<Rightarrow> (u, urls) | None \<Rightarrow> ('''', map_put key '''' urls))
       in rbind (vote_rows E vs urls) (\<lambda>(rows, urls). Inr ((url, IntToString (sint n)) # rows, urls)))"

record vote_info =
  vi_status :: TransactionStatus
  vi_data :: "tx_message VoteData"
  owner_address :: string
  vi_rows :: "(string \<times> string) list"

definition CVoteInfoForm_create :: "offline_env \<Rightarrow> tx_message VoteData \<Rightarrow> TransactionStatus \<Rightarrow> vote_info result" where
  "CVoteInfoForm_create E v s =
     (let f = \<lparr>vi_status = s, vi_data = v, owner_address = '''', vi_rows = []\<rparr> in
      case vote_transaction v of
        None \<Rightarrow> Inl NullDeref
      | Some t \<Rightarrow>
          (case raw_contracts (tx_raw t) of
             [] \<Rightarrow> Inr f
           | c # cs \<Rightarrow>
               (case (any_type (oe_contract E c), any_unpack (oe_contract E c)) of
                  (Type_VoteWitnessContract, Some (VoteWitnessContract owner votes)) \<Rightarrow>
                    rbind (AddressEncodeBase58Check (fe_sha (oe_form E)) owner) (\<lambda>adr.
                    rbind (vote_rows E votes (address_url v)) (\<lambda>(rows, urls).
                      Inr (f\<lparr>owner_address := adr, vi_rows := rows, vi_data := v\<lparr>address_url := urls\<rparr>\<rparr>)))
                | _ \<Rightarrow> Inr f)))"

definition save_vote :: "offline_env \<Rightarrow> string option \<Rightarrow> tx_message VoteData \<Rightarrow> disk \<Rightarrow> (Form_Flow.action list \<times> disk) result" where
  "save_vote E dlg v d =
     (case dlg of
        None \<Rightarrow> Inr ([], d)
      | Some path \<Rightarrow>
          rbind (SaveVote (oe_json E) (oe_codec E) path v d) (\<lambda>(success, d).
            Inr ([Ui (AutoHideShowStatus (if success then ''Save success'' else ''Save failed'')), Ui (UIShow False)], d)))"

text \<open>The key of the owner is not tested: an unknown one is the zero secret.\<close>

definition vote_info_click ::
  "offline_env \<Rightarrow> string option \<Rightarrow> vote_info \<Rightarrow> disk \<Rightarrow> (Form_Flow.action list \<times> vote_info \<times> disk) result" where
  "vote_info_click E dlg f d =
     (case vote_transaction (vi_data f) of
        None \<Rightarrow> Inl NullDeref
      | Some t \<Rightarrow>
          (case vi_status f of
             SAVE \<Rightarrow> rbind (save_vote E dlg (vi_data f) d) (\<lambda>(acts, d). Inr (acts, f, d))
           | SIGN \<Rightarrow>
               if owner_address f \<noteq> '''' then
                 rbind (sign_with E (oe_lookup E (owner_address f)) t) (\<lambda>(ret, t).
                   let f = f\<lparr>vi_data := (vi_data f)\<lparr>vote_transaction := Some t\<rparr>\<rparr> in
                   if ret then rbind (save_vote E dlg (vi_data f) d) (\<lambda>(acts, d). Inr (acts, f, d))
                   else Inr ([Ui (AutoHideShowStatus ''Sign failed''), Ui (UIShow False)], f, d))
               else Inr ([], f, d)
           | BROADCAST \<Rightarrow>
               Inr ([Request Request_BroadcastTransaction (Transaction t)
                       (on_return (\<lambda>ok m. [Ui (AutoHideShowStatus
                          (if ok then ''Broadcast success'' else if m = '''' then ''Broadcast failed'' else m)), Ui (UIShow False)]))],
                    f, d)))"

section \<open>Lists of loaded files\<close>

text \<open>\<open>LoadTransaction\<close> and \<open>LoadVotes\<close> of the windows: the files that cannot be read are skipped, and
  without any other nothing is shown.\<close>

definition LoadTransactions :: "offline_env \<Rightarrow> string list \<Rightarrow> disk \<Rightarrow> tx_message list option" where
  "LoadTransactions E paths d =
     (let ts = List.map_filter (\<lambda>p. LoadTransaction (oe_json E) (oe_codec E) p d) paths
      in if length ts > 0 then Some ts else None)"

fun load_votes :: "offline_env \<Rightarrow> string list \<Rightarrow> disk \<Rightarrow> tx_message VoteData list result" where
  "load_votes E [] d = Inr []"
| "load_votes E (p # ps) d =
     rbind (LoadVote (oe_json E) (oe_codec E) p d) (\<lambda>v.
     rbind (load_votes E ps d) (\<lambda>vs. Inr (if vote_transaction v \<noteq> None then v # vs else vs)))"

definition LoadVotes :: "offline_env \<Rightarrow> string list \<Rightarrow> disk \<Rightarrow> tx_message VoteData list option result" where
  "LoadVotes E paths d = rbind (load_votes E paths d) (\<lambda>vs. Inr (if length vs > 0 then Some vs else None))"

datatype info_control = CTransactionInfoForm | CFreezeInfoForm

definition CreateShowInfoControl :: "(bytes \<Rightarrow> any_contract) \<Rightarrow> tx_message \<Rightarrow> info_control option" where
  "CreateShowInfoControl dec t =
     (case raw_contracts (tx_raw t) of
        [] \<Rightarrow> None
      | c # cs \<Rightarrow>
          if any_type (dec c) = Type_TransferContract \<or> any_type (dec c) = Type_TransferAssetContract then Some CTransactionInfoForm
          else if any_type (dec c) = Type_FreezeBalanceContract then Some CFreezeInfoForm
          else None)"

text \<open>The control is used without a test.\<close>

definition OnItemClick :: "(bytes \<Rightarrow> any_contract) \<Rightarrow> tx_message list \<Rightarrow> nat \<Rightarrow> (info_control \<times> tx_message) option result" where
  "OnItemClick dec datas row =
     (if length datas > row then
        (case CreateShowInfoControl dec (datas ! row) of
           None \<Rightarrow> Inl NullDeref
         | Some control \<Rightarrow> Inr (Some (control, datas ! row)))
      else Inr None)"

definition loaded_click ::
  "offline_env \<Rightarrow> TransactionStatus \<Rightarrow> string option \<Rightarrow> info_control \<times> tx_message \<Rightarrow> disk
    \<Rightarrow> (Form_Flow.action list \<times> tx_message \<times> disk) result" where
  "loaded_click E s dlg = (\<lambda>(control, t) d.
     case control of
       CTransactionInfoForm \<Rightarrow> transaction_info_click E s dlg t d
     | CFreezeInfoForm \<Rightarrow> freeze_info_click E s dlg t d)"

section \<open>The owner's address\<close>

text \<open>The owner of a transaction that the cold wallet can show.\<close>

definition owner_of :: "(bytes \<Rightarrow> any_contract) \<Rightarrow> tx_message \<Rightarrow> bytes option" where
  "owner_of dec t =
     (case raw_contracts (tx_raw t) of
        [] \<Rightarrow> None
      | c # cs \<Rightarrow>
          (case (any_type (dec c), any_unpack (dec c)) of
             (Type_TransferContract, Some (TransferContract owner to amount)) \<Rightarrow> Some owner
           | (Type_TransferAssetContract, Some (TransferAssetContract owner name to amount)) \<Rightarrow> Some owner
           | (Type_FreezeBalanceContract, Some (FreezeBalanceContract owner balance duration)) \<Rightarrow> Some owner
           | _ \<Rightarrow> None))"

definition control_of :: "(bytes \<Rightarrow> any_contract) \<Rightarrow> tx_message \<Rightarrow> info_control" where
  "control_of dec t = (if any_type (dec (hd (raw_contracts (tx_raw t)))) = Type_FreezeBalanceContract then CFreezeInfoForm
     else CTransactionInfoForm)"

lemma owner_of_Some:
  assumes "owner_of dec t = Some owner"
  obtains c cs to amount where "raw_contracts (tx_raw t) = c # cs" "any_type (dec c) = Type_TransferContract"
    "any_unpack (dec c) = Some (TransferContract owner to amount)"
  | c cs name to amount where "raw_contracts (tx_raw t) = c # cs" "any_type (dec c) = Type_TransferAssetContract"
    "any_unpack (dec c) = Some (TransferAssetContract owner name to amount)"
  | c cs balance duration where "raw_contracts (tx_raw t) = c # cs" "any_type (dec c) = Type_FreezeBalanceContract"
    "any_unpack (dec c) = Some (FreezeBalanceContract owner balance duration)"
  using assms unfolding owner_of_def
  by (auto split: list.splits ContractType.splits option.splits contract.splits)

lemma Encode_total: "\<exists>s. AddressEncodeBase58Check sha b = Inr s"
  using EncodeBase58_total by (simp add: AddressEncodeBase58Check_def EncodeBase58Check_def Let_def) blast

text \<open>Whatever its form, the button acts on the owner's address.\<close>

lemma loaded_owner:
  assumes "owner_of (oe_contract E) t = Some owner" "AddressEncodeBase58Check (fe_sha (oe_form E)) owner = Inr s"
  shows "loaded_click E st dlg (control_of (oe_contract E) t, t) d = HandleClickEvent E st s dlg t d"
  using assms(1)
proof (cases rule: owner_of_Some)
  case (1 c cs to amount)
  moreover obtain x where "AddressEncodeBase58Check (fe_sha (oe_form E)) to = Inr x" using Encode_total by blast
  ultimately show ?thesis
    by (simp add: loaded_click_def control_of_def transaction_info_click_def transaction_info_labels_def ParseTransaction_def assms(2))
next
  case (2 c cs name to amount)
  moreover obtain x where "AddressEncodeBase58Check (fe_sha (oe_form E)) to = Inr x" using Encode_total by blast
  ultimately show ?thesis
    by (simp add: loaded_click_def control_of_def transaction_info_click_def transaction_info_labels_def ParseTransaction_def assms(2))
next
  case 3
  then show ?thesis
    by (simp add: loaded_click_def control_of_def freeze_info_click_def freeze_info_labels_def freeze_ParseTransaction_def assms(2))
qed

lemma item_owner: "owner_of dec t = Some owner \<Longrightarrow> OnItemClick dec [t] 0 = Inr (Some (control_of dec t, t))"
  by (erule owner_of_Some) (simp_all add: OnItemClick_def CreateShowInfoControl_def control_of_def)

lemma owner_of_same: "raw_contracts (tx_raw t') = raw_contracts (tx_raw t) \<Longrightarrow>
  owner_of dec t' = owner_of dec t \<and> control_of dec t' = control_of dec t"
  by (simp add: owner_of_def control_of_def)

lemma save_tx_saves:
  assumes "json_io_ok (oe_json E)" "codec_ok (oe_codec E)" "path = transaction_path dir (toHex (SerializeAsString (oe_codec E) t))"
    "jio_can_open (oe_json E) path"
  obtains d' where "save_tx E (Some dir) t d = ([Ui (AutoHideShowStatus ''Save success''), Ui (UIShow False)], d')"
    "LoadTransactions E [path] d' = Some [t]"
  using SaveTransaction_loads [OF assms(1,2), of dir t d] assms(3,4) that
  by (auto simp: save_tx_def LoadTransactions_def map_filter_simps)

section \<open>Properties\<close>

text \<open>C2: a transaction signed offline: what the watching wallet saves is what the cold wallet opens; its
  button signs for the owner the form shows, and what it saves is what the watching wallet opens and
  broadcasts. Of the transaction only the times and the signatures have changed: one for each
  contract, under the key that the cold wallet has for the owner's address.\<close>

theorem cold_signing:
  assumes "json_io_ok (oe_json E)" "codec_ok (oe_codec E)"
    and "owner_of (oe_contract E) t = Some owner" "AddressEncodeBase58Check (fe_sha (oe_form E)) owner = Inr s" "s \<noteq> ''''"
    and "oe_lookup E s = key" "hash_bool key"
    and "raw = (tx_raw t)\<lparr>raw_expiration := of_nat (fe_clock (oe_form E) 0 + TRANSACTION_DELAY_TIME),
      raw_timestamp := of_nat (fe_clock (oe_form E) 1)\<rparr>"
    and "sign (fe_lib (oe_form E)) key (fe_sha (oe_form E) (fe_ser (oe_form E) raw)) = Inr sig"
    and "t' = \<lparr>tx_raw = raw, tx_signatures = tx_signatures t @ replicate (length (raw_contracts (tx_raw t))) sig\<rparr>"
    and "path = transaction_path dir (toHex (SerializeAsString (oe_codec E) t))" "jio_can_open (oe_json E) path"
    and "path' = transaction_path dir' (toHex (SerializeAsString (oe_codec E) t'))" "jio_can_open (oe_json E) path'"
  shows "\<exists>form d1 d2 acts. loaded_click E SAVE (Some dir) (form, t) d =
        Inr ([Ui (AutoHideShowStatus ''Save success''), Ui (UIShow False)], t, d1)
    \<and> LoadTransactions E [path] d1 = Some [t] \<and> OnItemClick (oe_contract E) [t] 0 = Inr (Some (form, t))
    \<and> loaded_click E SIGN (Some dir') (form, t) d1 =
        Inr ([Ui (AutoHideShowStatus ''Save success''), Ui (UIShow False)], t', d2)
    \<and> LoadTransactions E [path'] d2 = Some [t'] \<and> OnItemClick (oe_contract E) [t'] 0 = Inr (Some (form, t'))
    \<and> loaded_click E BROADCAST None (form, t') d2 = Inr (acts, t', d2)
    \<and> requests acts = [(Request_BroadcastTransaction, Transaction t')]"
proof -
  obtain d1 where d1: "save_tx E (Some dir) t d = ([Ui (AutoHideShowStatus ''Save success''), Ui (UIShow False)], d1)"
    "LoadTransactions E [path] d1 = Some [t]" using save_tx_saves [OF assms(1,2,11,12)] .
  obtain d2 where d2: "save_tx E (Some dir') t' d1 = ([Ui (AutoHideShowStatus ''Save success''), Ui (UIShow False)], d2)"
    "LoadTransactions E [path'] d2 = Some [t']" using save_tx_saves [OF assms(1,2,13,14)] .
  have t': "raw_contracts (tx_raw t') = raw_contracts (tx_raw t)" using assms(8,10) by simp
  note o = assms(3) owner_of_same [OF t', of "oe_contract E"]
  have ne: "raw_contracts (tx_raw t) \<noteq> []" using assms(3) by (auto elim: owner_of_Some)
  have "key \<noteq> []" using assms(7) by (auto simp: hash_bool_def)
  with assms(8,9) have "sign_with E key t = Inr (True, t')"
    using ne by (simp add: sign_with_def SignTransaction_key_def add_signatures_def assms(10))
  then show ?thesis
    using o d1 d2 loaded_owner [of E t, OF _ assms(4)] loaded_owner [of E t', OF _ assms(4)] item_owner [of "oe_contract E" t] item_owner [of "oe_contract E" t']
      assms(5-7)
    by (intro exI [of _ "control_of (oe_contract E) t"] exI [of _ d1] exI [of _ d2])
      (simp add: HandleClickEvent_def)
qed

text \<open>The button of the vote form does not test the key of the owner: for an address the cold wallet
  does not know, the vote is given null signatures and is saved as signed. The transaction form
  refuses such an address and leaves the transaction and the disk as they are.\<close>

theorem vote_signed_without_key:
  assumes "\<And>h. ec_sign (fe_lib (oe_form E)) h (hash_empty 32) = None" "oe_lookup E adr = hash_empty 32" "adr \<noteq> ''''"
    and "vi_status f = SIGN" "owner_address f = adr" "vote_transaction (vi_data f) = Some t" "raw_contracts (tx_raw t) = c # cs"
  shows "HandleClickEvent E SIGN adr (Some dir) t d =
      Inr ([Ui (AutoHideShowStatus (''Address '' @ adr @ '' not have private key!'')), Ui (UIShow False)], t, d)
    \<and> (\<exists>t' v success d'. tx_signatures t' = tx_signatures t @ replicate (Suc (length cs)) (replicate 65 0)
        \<and> v = (vi_data f)\<lparr>vote_transaction := Some t'\<rparr> \<and> SaveVote (oe_json E) (oe_codec E) dir v d = Inr (success, d')
        \<and> vote_info_click E (Some dir) f d =
            Inr ([Ui (AutoHideShowStatus (if success then ''Save success'' else ''Save failed'')), Ui (UIShow False)],
                 f\<lparr>vi_data := v\<rparr>, d'))"
proof -
  define t' where "t' = \<lparr>tx_raw = (tx_raw t)\<lparr>raw_expiration := of_nat (fe_clock (oe_form E) 0 + TRANSACTION_DELAY_TIME),
      raw_timestamp := of_nat (fe_clock (oe_form E) 1)\<rparr>,
    tx_signatures = tx_signatures t @ replicate (Suc (length cs)) (replicate 65 0)\<rparr>"
  have s: "sign_with E (hash_empty 32) t = Inr (True, t')"
    using assms(1,7) by (simp add: sign_with_def SignTransaction_key_def sign_def add_signatures_def t'_def Let_def hash_empty_def)
  let ?v = "(vi_data f)\<lparr>vote_transaction := Some t'\<rparr>"
  obtain ok d' where sv: "SaveVote (oe_json E) (oe_codec E) dir ?v d = Inr (ok, d')"
    by (simp add: SaveVote_def Let_def) (meson surj_pair)
  have z: "\<not> hash_bool (hash_empty 32)" by (simp add: hash_bool_def hash_empty_def list_ex_iff)
  from z assms s sv show ?thesis
    by (intro conjI exI [of _ t'] exI [of _ ?v] exI [of _ ok] exI [of _ d'])
      (simp_all add: HandleClickEvent_def vote_info_click_def save_vote_def t'_def Let_def)
qed

text \<open>A file of a vote can be opened with \<open>Load Transaction\<close>, which reads only the transaction; the row
  is then listed, and clicking it dereferences a null pointer, as for every contract that is neither
  a transfer nor a freeze.\<close>

theorem vote_file_crashes:
  assumes "json_io_ok (oe_json E)" "codec_ok (oe_codec E)" "vote_transaction v = Some t"
    "ordered_keys (address_url v)"
    "\<forall>(a, u) \<in> set (address_url v). CHR ''.'' \<notin> set a \<and> jio_utf8 (oe_json E) a \<and> jio_utf8 (oe_json E) u"
    "path = transaction_path dir (toHex (SerializeAsString (oe_codec E) t))" "jio_can_open (oe_json E) path"
    "raw_contracts (tx_raw t) = c # cs" "any_type (oe_contract E c) = Type_VoteWitnessContract"
  shows "\<exists>d'. SaveVote (oe_json E) (oe_codec E) dir v d = Inr (True, d') \<and> LoadTransactions E [path] d' = Some [t]
    \<and> OnItemClick (oe_contract E) [t] 0 = Inl NullDeref"
proof -
  let ?J = "oe_json E" and ?h = "toHex (SerializeAsString (oe_codec E) t)"
  from SaveVote_loads [OF assms(1-7), of d] obtain d' where
    "SaveVote ?J (oe_codec E) dir v d = Inr (True, d')" "LoadTransaction ?J (oe_codec E) path d' = Some t" by blast
  with assms(8,9) show ?thesis
    by (auto simp: LoadTransactions_def map_filter_simps OnItemClick_def CreateShowInfoControl_def)
qed

text \<open>The form that shows a freeze to be signed prints the amount in drops and calls them TRX: for \<open>k\<close> TRX
  entered in the freeze form it says \<open>k\<close> million.\<close>

theorem freeze_shown_in_drops:
  assumes "freeze_CreateContract f = Inr frozen" "snd (StringToInt64 (ff_amount f)) = k" "k * 1000000 < 2 ^ 63"
    "raw_contracts (tx_raw t) = c # cs" "any_type (oe_contract E c) = Type_FreezeBalanceContract"
    "any_unpack (oe_contract E c) = Some (FreezeBalanceContract owner frozen 3)"
  shows "\<exists>s. freeze_info_labels E t =
    Inr (status_text (tx_signatures t \<noteq> []), ''Amount freeze: '' @ IntToString (k * 1000000) @ '' TRX'', s)"
proof -
  obtain s where s: "AddressEncodeBase58Check (fe_sha (oe_form E)) owner = Inr s" using Encode_total by blast
  define w where "w = (of_int k * 1000000 :: 64 word)"
  have "frozen = w" "0 < k" using assms(1,2) by (auto simp: freeze_CreateContract_def Let_def w_def split: if_splits)
  moreover have "sint w = k * 1000000" unfolding w_def using \<open>0 < k\<close> assms(3) sint_of_int64 [of "k * 1000000"] by simp
  ultimately show ?thesis using assms(4-6) s
    by (intro exI [of _ s]) (simp add: freeze_info_labels_def freeze_ParseTransaction_def)
qed

section \<open>A concrete codec\<close>

text \<open>A codec for the witnesses: a list of byte strings with tags, two of them for a message.\<close>

fun put_list :: "bytes list \<Rightarrow> bytes" where
  "put_list [] = [0]"
| "put_list ([] # xs) = 1 # put_list xs"
| "put_list ((b # bs) # xs) = 2 # b # put_list (bs # xs)"

fun get_list :: "bytes \<Rightarrow> (bytes list \<times> bytes) option" where
  "get_list [] = None"
| "get_list [x] = (if x = 0 then Some ([], []) else None)"
| "get_list (x # b # r) =
     (if x = 0 then Some ([], b # r)
      else if x = 1 then map_option (\<lambda>(xs, s). ([] # xs, s)) (get_list (b # r))
      else (case get_list r of Some (y # ys, s) \<Rightarrow> Some ((b # y) # ys, s) | _ \<Rightarrow> None))"

lemma get_zero: "get_list (0 # r) = Some ([], r)"
  by (cases r) simp_all

lemma put_list_ne: "put_list xs \<noteq> []"
  by (induction xs rule: put_list.induct) simp_all

lemma get_one: "y \<noteq> [] \<Longrightarrow> get_list (1 # y) = map_option (\<lambda>(xs, s). ([] # xs, s)) (get_list y)"
  by (cases y) simp_all

lemma get_put_list: "get_list (put_list xs @ r) = Some (xs, r)"
  by (induction xs rule: put_list.induct) (simp_all add: get_zero get_one put_list_ne)

definition toy_tx_codec :: "tx_message tx_codec" where
  "toy_tx_codec = \<lparr>
     SerializeAsString = (\<lambda>t. put_list (hash_of_arith 8 (unat (raw_expiration (tx_raw t))) # hash_of_arith 8 (unat (raw_timestamp (tx_raw t)))
        # raw_contracts (tx_raw t)) @ put_list (tx_signatures t)),
     ParseFromArray = (\<lambda>b. case get_list b of
        Some (e # n # cs, s) \<Rightarrow>
          (case get_list s of
             Some (sigs, _) \<Rightarrow> Some \<lparr>tx_raw = \<lparr>raw_expiration = of_nat (hash_arith e), raw_timestamp = of_nat (hash_arith n), raw_contracts = cs\<rparr>, tx_signatures = sigs\<rparr>
           | None \<Rightarrow> None)
      | _ \<Rightarrow> None)\<rparr>"

lemma toy_tx_codec_ok: "codec_ok toy_tx_codec"
proof -
  have "get_list (put_list xs) = Some (xs, [])" for xs using get_put_list [of xs "[]"] by simp
  moreover have "of_nat (hash_arith (hash_of_arith 8 (unat w))) = w" for w :: "64 word"
  proof -
    have "unat w < 2 ^ LENGTH(64)" by (rule unsigned_less)
    then show ?thesis by (simp add: hash_arith_of_arith)
  qed
  ultimately show ?thesis
    by (simp add: codec_ok_def toy_tx_codec_def get_put_list del: put_list.simps)
qed

section \<open>Witnesses\<close>

definition toy_sig :: bytes where
  "toy_sig = replicate 32 5 @ hash_empty 32 @ [0]"

definition toy_signer :: "bytes \<Rightarrow> bytes \<Rightarrow> (bytes \<times> nat) option" where
  "toy_signer h k = (if hash_bool k then Some (replicate 32 5 @ hash_empty 32, 0) else None)"

definition toy_offline :: "ContractType \<Rightarrow> contract \<Rightarrow> offline_env" where
  "toy_offline ty c = \<lparr>oe_json = toy_json_io, oe_codec = toy_tx_codec, oe_contract = (\<lambda>_. \<lparr>any_type = ty, any_unpack = Some c\<rparr>),
     oe_form = Form_Flow.toy_env\<lparr>fe_lib := toy_lib\<lparr>ec_sign := toy_signer\<rparr>\<rparr>,
     oe_lookup = (\<lambda>a. if a = ''.'' then hash_empty 32 else replicate 32 1)\<rparr>"

lemma toy_offline_fields [simp]:
  "oe_json (toy_offline ty c) = toy_json_io" "oe_codec (toy_offline ty c) = toy_tx_codec"
  "oe_contract (toy_offline ty c) x = \<lparr>any_type = ty, any_unpack = Some c\<rparr>"
  "ec_sign (fe_lib (oe_form (toy_offline ty c))) = toy_signer"
  by (simp_all add: toy_offline_def Form_Flow.toy_env_def)

lemma sign_low:
  assumes "ec_sign L h k = Some (a @ b, 0)" "length a = 32" "length b = 32" "hash_arith b \<le> secp256k1n div 2"
  shows "sign L k h = Inr (a @ b @ [0])"
  using assms by (simp add: sign_def Let_def)

lemma toy_offline_sign: "sign (fe_lib (oe_form (toy_offline ty c))) (replicate 32 1) h = Inr toy_sig"
  unfolding toy_sig_def
proof (rule sign_low)
  have "hash_bool (replicate 32 1)" by (simp add: hash_bool_def list_ex_iff)
  then show "ec_sign (fe_lib (oe_form (toy_offline ty c))) h (replicate 32 1) = Some (replicate 32 5 @ hash_empty 32, 0)"
    by (simp only: toy_offline_fields toy_signer_def if_True)
  show "hash_arith (hash_empty 32) \<le> secp256k1n div 2" by simp
qed simp_all

lemma toy_encoded: obtains s where "AddressEncodeBase58Check sha [1] = Inr s" "s \<noteq> ''''" "s \<noteq> ''.''"
proof -
  obtain s where s: "AddressEncodeBase58Check sha [1] = Inr s" using Encode_total by blast
  then have "s \<noteq> ''''" "CHR ''.'' \<notin> set s" using encoded_plain [of "[1] @ take 4 (sha (sha [1]))"]
    by (simp_all add: AddressEncodeBase58Check_def EncodeBase58Check_def Let_def)
  with s show ?thesis by (intro that) auto
qed

theorem cold_signing_witness:
  "\<exists>form t' d1 d2 acts. let E = toy_offline Type_TransferContract (TransferContract [1] [2] 3) in
    loaded_click E SAVE (Some ''a'') (form, toy_tx) (\<lambda>p. None) =
      Inr ([Ui (AutoHideShowStatus ''Save success''), Ui (UIShow False)], toy_tx, d1)
    \<and> loaded_click E SIGN (Some ''b'') (form, toy_tx) d1 =
      Inr ([Ui (AutoHideShowStatus ''Save success''), Ui (UIShow False)], t', d2)
    \<and> tx_signatures t' = [toy_sig]
    \<and> loaded_click E BROADCAST None (form, t') d2 = Inr (acts, t', d2)
    \<and> requests acts = [(Request_BroadcastTransaction, Transaction t')]"
proof -
  let ?E = "toy_offline Type_TransferContract (TransferContract [1] [2] 3)"
  obtain s where s: "AddressEncodeBase58Check (fe_sha (oe_form ?E)) [1] = Inr s" "s \<noteq> ''''" "s \<noteq> ''.''" by (rule toy_encoded)
  then have k: "oe_lookup ?E s = replicate 32 1" by (simp add: toy_offline_def)
  have o: "owner_of (oe_contract ?E) toy_tx = Some [1]" by (simp add: owner_of_def toy_tx_def)
  have c: "jio_can_open (oe_json ?E) p" for p by (simp add: toy_json_io_def)
  have ok: "json_io_ok (oe_json ?E)" "codec_ok (oe_codec ?E)" by (simp_all add: toy_json_io_ok toy_tx_codec_ok)
  have b: "hash_bool (replicate 32 1)" by (simp add: hash_bool_def list_ex_iff)
  define raw where "raw = (tx_raw toy_tx)\<lparr>raw_expiration := of_nat (fe_clock (oe_form ?E) 0 + TRANSACTION_DELAY_TIME),
      raw_timestamp := of_nat (fe_clock (oe_form ?E) 1)\<rparr>"
  define t' where "t' = \<lparr>tx_raw = raw,
      tx_signatures = tx_signatures toy_tx @ replicate (length (raw_contracts (tx_raw toy_tx))) toy_sig\<rparr>"
  have "tx_signatures t' = [toy_sig]" by (simp add: t'_def toy_tx_def)
  then show ?thesis
    using cold_signing [where dir = "''a''" and dir' = "''b''" and d = "\<lambda>p. None",
        OF ok o s(1,2) k b raw_def toy_offline_sign t'_def refl c refl c]
    unfolding Let_def by blast
qed

theorem vote_signed_without_key_witness:
  "\<exists>t' success d'. tx_signatures t' = [replicate 65 0]
    \<and> vote_info_click (toy_offline Type_VoteWitnessContract (VoteWitnessContract [1] [])) (Some ''a'')
        \<lparr>vi_status = SIGN, vi_data = \<lparr>vote_transaction = Some toy_tx, address_url = []\<rparr>, owner_address = ''.'', vi_rows = []\<rparr> (\<lambda>p. None)
      = Inr ([Ui (AutoHideShowStatus (if success then ''Save success'' else ''Save failed'')), Ui (UIShow False)],
          \<lparr>vi_status = SIGN, vi_data = \<lparr>vote_transaction = Some t', address_url = []\<rparr>, owner_address = ''.'', vi_rows = []\<rparr>, d')"
proof -
  let ?E = "toy_offline Type_VoteWitnessContract (VoteWitnessContract [1] [])"
  let ?f = "\<lparr>vi_status = SIGN, vi_data = \<lparr>vote_transaction = Some toy_tx, address_url = []\<rparr>, owner_address = ''.'', vi_rows = []\<rparr>"
  have n: "ec_sign (fe_lib (oe_form ?E)) h (hash_empty 32) = None" for h
    by (simp add: toy_signer_def hash_bool_def hash_empty_def list_ex_iff)
  have l: "oe_lookup ?E ''.'' = hash_empty 32" by (simp add: toy_offline_def)
  show ?thesis
    using vote_signed_without_key [OF n l, of ?f toy_tx "[1]" "[]" "''a''" "\<lambda>p. None"] by (fastforce simp: toy_tx_def)
qed

theorem vote_file_crashes_witness:
  "\<exists>d'. SaveVote toy_json_io toy_tx_codec ''out'' \<lparr>vote_transaction = Some toy_tx, address_url = [(''27A'', ''a.org'')]\<rparr> (\<lambda>p. None)
      = Inr (True, d')
    \<and> OnItemClick (\<lambda>_. \<lparr>any_type = Type_VoteWitnessContract, any_unpack = None\<rparr>) [toy_tx] 0 = Inl NullDeref"
proof -
  let ?E = "toy_offline Type_VoteWitnessContract (VoteWitnessContract [1] [])"
  let ?v = "\<lparr>vote_transaction = Some toy_tx, address_url = [(''27A'', ''a.org'')]\<rparr> :: tx_message VoteData"
  have "json_io_ok (oe_json ?E)" "codec_ok (oe_codec ?E)" "jio_can_open (oe_json ?E) p" for p
    by (simp_all add: toy_json_io_ok toy_tx_codec_ok) (simp add: toy_json_io_def)
  then show ?thesis
    using vote_file_crashes [of ?E ?v toy_tx _ "''out''" "[1]" "[]" "\<lambda>p. None"]
    by (auto simp: toy_tx_def ordered_keys_def toy_json_io_def OnItemClick_def CreateShowInfoControl_def)
qed

theorem freeze_shown_in_drops_witness:
  "\<exists>s. freeze_info_labels (toy_offline Type_FreezeBalanceContract (FreezeBalanceContract [1] 5000000 3)) toy_tx
    = Inr (''Status: unsigned'', ''Amount freeze: 5000000 TRX'', s)"
proof -
  have "snd (StringToInt64 ''5'') = 5" by code_simp
  moreover have "IntToString 5000000 = ''5000000''" by code_simp
  ultimately show ?thesis
    using freeze_shown_in_drops [of "toy_freeze ''5''" 5000000 5 toy_tx "[1]" "[]"
        "toy_offline Type_FreezeBalanceContract (FreezeBalanceContract [1] 5000000 3)" "[1]"]
    by (simp add: toy_freeze_def freeze_CreateContract_def toy_tx_def status_text_def)
qed

end
