(* ===== verification/Vanity_Search.thy ===== *)
theory Vanity_Search
  imports Crypto_Common Transition_System
begin

text \<open>
  \<open>KeyManager::newKeyPair\<close> of wallet/core/key_manager.cpp: several threads look for a key pair whose
  address has a pattern; the first to find one stores it and stops the others by a flag that is
  neither atomic nor locked. A step of a thread is what it does between two accesses of the shared
  variables \<open>keepGoing\<close> and \<open>p\<close>, so that every interleaving of the accesses is a run; the secrets
  drawn in it are an argument, as is \<open>KeyPair::create\<close> (\<open>KeyPair_create\<close> of the wallet's library). The counter \<open>done\<close> is only logged and is left out.
\<close>

type_synonym creator = "bytes list \<Rightarrow> (KeyPair \<times> bytes list) result"

section \<open>Patterns\<close>

datatype NewKeyType = DirectICAP | NoVanity | FirstTwo | FirstTwoNextTwo | FirstThree | FirstFour

definition vanity_match :: "NewKeyType \<Rightarrow> bytes \<Rightarrow> bool" where
  "vanity_match type a \<longleftrightarrow>
     type = NoVanity \<or>
     (type = DirectICAP \<and> a ! 0 = 0) \<or>
     (type = FirstTwo \<and> a ! 0 = a ! 1) \<or>
     (type = FirstTwoNextTwo \<and> a ! 0 = a ! 1 \<and> a ! 2 = a ! 3) \<or>
     (type = FirstThree \<and> a ! 0 = a ! 1 \<and> a ! 1 = a ! 2) \<or>
     (type = FirstFour \<and> a ! 0 = a ! 1 \<and> a ! 1 = a ! 2 \<and> a ! 2 = a ! 3)"

section \<open>Threads\<close>

text \<open>Where a thread is: before its first key pair, at the test of the loop, after a key pair in the
  loop, after the loop, before \<open>p = lp\<close>, before the flag is cleared, and at its end.\<close>

datatype search_phase =
  Start
| Test KeyPair
| Made KeyPair
| Left KeyPair
| Storing KeyPair
| Finishing
| Ended

record search =
  keepGoing :: bool
  found :: KeyPair
  threads :: "search_phase list"

text \<open>The other threads and the calling one. \<open>hardware_concurrency\<close> may answer 0.\<close>

definition thread_count :: "32 word \<Rightarrow> nat" where
  "thread_count hardware_concurrency = unat (hardware_concurrency - 1) + 1"

definition newKeyPair_begin :: "creator \<Rightarrow> bytes list \<Rightarrow> 32 word \<Rightarrow> search result" where
  "newKeyPair_begin C rs hardware_concurrency =
     rbind (C rs) (\<lambda>(p, _).
       Inr \<lparr>keepGoing = True, found = p, threads = replicate (thread_count hardware_concurrency) Start\<rparr>)"

fun phase_step :: "creator \<Rightarrow> NewKeyType \<Rightarrow> bytes list \<Rightarrow> search_phase \<Rightarrow> search \<Rightarrow> (search_phase \<times> search) option" where
  "phase_step C type rs Start s =
     (case C rs of Inr (lp, _) \<Rightarrow> Some (Test lp, s) | Inl _ \<Rightarrow> None)"
| "phase_step C type rs (Test lp) s =
     (if keepGoing s then (case C rs of Inr (lp, _) \<Rightarrow> Some (Made lp, s) | Inl _ \<Rightarrow> None)
      else Some (Left lp, s))"
| "phase_step C type rs (Made lp) s = Some (if vanity_match type (m_address lp) then Left lp else Test lp, s)"
| "phase_step C type rs (Left lp) s = Some (if keepGoing s then Storing lp else Finishing, s)"
| "phase_step C type rs (Storing lp) s = Some (Finishing, s\<lparr>found := lp\<rparr>)"
| "phase_step C type rs Finishing s = Some (Ended, s\<lparr>keepGoing := False\<rparr>)"
| "phase_step C type rs Ended s = None"

definition thread_step :: "creator \<Rightarrow> NewKeyType \<Rightarrow> nat \<Rightarrow> bytes list \<Rightarrow> search \<Rightarrow> search option" where
  "thread_step C type i rs s =
     (if i < length (threads s) then
        (case phase_step C type rs (threads s ! i) s of
           None \<Rightarrow> None
         | Some (ph, s') \<Rightarrow> Some (s'\<lparr>threads := (threads s')[i := ph]\<rparr>))
      else None)"

inductive search_step :: "creator \<Rightarrow> NewKeyType \<Rightarrow> search \<Rightarrow> search \<Rightarrow> bool" for C type where
  search_step: "thread_step C type i rs s = Some t \<Longrightarrow> search_step C type s t"

inductive_cases search_stepE: "search_step C type s t"

definition search_init :: "creator \<Rightarrow> search \<Rightarrow> bool" where
  "search_init C s \<longleftrightarrow> (\<exists>rs hc. newKeyPair_begin C rs hc = Inr s)"

text \<open>The caller returns \<open>p\<close> when every thread has been joined.\<close>

definition newKeyPair_end :: "search \<Rightarrow> KeyPair option" where
  "newKeyPair_end s = (if list_all (\<lambda>ph. ph = Ended) (threads s) then Some (found s) else None)"

section \<open>The invariant\<close>

definition drawn :: "creator \<Rightarrow> KeyPair \<Rightarrow> bool" where
  "drawn C k \<longleftrightarrow> (\<exists>rs rs'. C rs = Inr (k, rs'))"

definition good_key :: "creator \<Rightarrow> NewKeyType \<Rightarrow> KeyPair \<Rightarrow> bool" where
  "good_key C type k \<longleftrightarrow> drawn C k \<and> vanity_match type (m_address k)"

fun phase_ok :: "creator \<Rightarrow> NewKeyType \<Rightarrow> bool \<Rightarrow> KeyPair \<Rightarrow> search_phase \<Rightarrow> bool" where
  "phase_ok C type going p Start \<longleftrightarrow> True"
| "phase_ok C type going p (Test lp) \<longleftrightarrow> True"
| "phase_ok C type going p (Made lp) \<longleftrightarrow> drawn C lp"
| "phase_ok C type going p (Left lp) \<longleftrightarrow> good_key C type lp \<or> \<not> going"
| "phase_ok C type going p (Storing lp) \<longleftrightarrow> good_key C type lp"
| "phase_ok C type going p Finishing \<longleftrightarrow> good_key C type p"
| "phase_ok C type going p Ended \<longleftrightarrow> good_key C type p \<and> \<not> going"

definition search_inv :: "creator \<Rightarrow> NewKeyType \<Rightarrow> search \<Rightarrow> bool" where
  "search_inv C type s \<longleftrightarrow>
     (\<forall>ph \<in> set (threads s). phase_ok C type (keepGoing s) (found s) ph)
     \<and> (\<not> keepGoing s \<longrightarrow> good_key C type (found s)) \<and> threads s \<noteq> []"

lemma drawnI: "C rs = Inr (k, rs') \<Longrightarrow> drawn C k"
  by (auto simp: drawn_def)

lemma init_search_inv: "search_init C s \<Longrightarrow> search_inv C type s"
  by (auto simp: search_init_def newKeyPair_begin_def rbind_eq_Inr search_inv_def thread_count_def)

lemma phase_ok_mono:
  "phase_ok C type going p ph \<Longrightarrow> (going' \<longrightarrow> going) \<Longrightarrow> good_key C type p' \<or> p' = p \<Longrightarrow> phase_ok C type going' p' ph"
  by (cases ph) auto

lemma phase_step_ok:
  assumes "phase_step C type rs ph s = Some (ph', s')" "phase_ok C type (keepGoing s) (found s) ph"
    "\<not> keepGoing s \<longrightarrow> good_key C type (found s)"
  shows "threads s' = threads s \<and> (keepGoing s' \<longrightarrow> keepGoing s) \<and> (good_key C type (found s') \<or> found s' = found s)
    \<and> phase_ok C type (keepGoing s') (found s') ph' \<and> (\<not> keepGoing s' \<longrightarrow> good_key C type (found s'))"
  using assms
  by (cases ph) (auto simp: good_key_def intro: drawnI split: sum.splits if_splits)

lemma step_search_inv: "search_inv C type s \<Longrightarrow> search_step C type s t \<Longrightarrow> search_inv C type t"
proof (erule search_stepE)
  fix i rs assume inv: "search_inv C type s" and t: "thread_step C type i rs s = Some t"
  obtain ph s' where i: "i < length (threads s)" "phase_step C type rs (threads s ! i) s = Some (ph, s')"
    "t = s'\<lparr>threads := (threads s')[i := ph]\<rparr>"
    using t by (auto simp: thread_step_def split: if_splits option.splits)
  from inv i(1) have "phase_ok C type (keepGoing s) (found s) (threads s ! i)" "\<not> keepGoing s \<longrightarrow> good_key C type (found s)"
    by (auto simp: search_inv_def)
  from phase_step_ok [OF i(2) this] inv i(1) show "search_inv C type t" unfolding search_inv_def i(3)
    by (auto dest!: set_update_subset_insert [THEN subsetD] intro: phase_ok_mono)
qed

interpretation vanity: state_machine "search_init C" "search_step C type" "search_inv C type" for C type
  by unfold_locales (fact init_search_inv step_search_inv)+

section \<open>Coming to an end\<close>

definition unfinished :: "search \<Rightarrow> nat" where
  "unfinished s = length (filter (\<lambda>ph. ph \<noteq> Ended) (threads s))"

definition ends :: "creator \<Rightarrow> NewKeyType \<Rightarrow> nat \<Rightarrow> search \<Rightarrow> bool" where
  "ends C type i s \<longleftrightarrow> (\<exists>t. (search_step C type)\<^sup>*\<^sup>* s t \<and> threads t = (threads s)[i := Ended])"

lemma ends_step:
  assumes "i < length (threads s)" "phase_step C type rs (threads s ! i) s = Some (ph, s')" "threads s' = threads s"
    "ph = Ended \<or> ends C type i (s'\<lparr>threads := (threads s)[i := ph]\<rparr>)"
  shows "ends C type i s"
proof -
  have "search_step C type s (s'\<lparr>threads := (threads s)[i := ph]\<rparr>)"
    using assms(1-3) by (intro search_step [of C type i rs]) (simp add: thread_step_def)
  with assms(4) show ?thesis
    unfolding ends_def by (auto intro: converse_rtranclp_into_rtranclp)
qed

lemma run_thread:
  assumes k: "C rs = Inr (k, rs')" "vanity_match type (m_address k)"
  shows "i < length (threads s) \<Longrightarrow> ends C type i s"
proof -
  have finish: "ends C type i s" if "threads s ! i = Finishing" "i < length (threads s)" for s
    using that by (intro ends_step [where rs = rs and ph = Ended and s' = "s\<lparr>keepGoing := False\<rparr>"]) (simp_all add: ends_def)
  have storing: "ends C type i s" if "threads s ! i = Storing lp" "i < length (threads s)" for s lp
    using that by (intro ends_step [where rs = rs and ph = Finishing and s' = "s\<lparr>found := lp\<rparr>"]) (simp_all add: finish)
  have left: "ends C type i s" if "threads s ! i = Left lp" "i < length (threads s)" for s lp
    using that by (intro ends_step [where rs = rs and ph = "if keepGoing s then Storing lp else Finishing" and s' = s])
      (simp_all add: finish storing)
  have made: "ends C type i s" if "threads s ! i = Made k" "i < length (threads s)" for s
    using that k(2) by (intro ends_step [where rs = rs and ph = "Left k" and s' = s]) (simp_all add: left)
  have test: "ends C type i s" if "threads s ! i = Test lp" "i < length (threads s)" for s lp
    using that k(1) by (intro ends_step [where rs = rs and ph = "if keepGoing s then Made k else Left lp" and s' = s])
      (simp_all add: left made)
  have made': "ends C type i s" if "threads s ! i = Made lp" "i < length (threads s)" for s lp
    using that by (intro ends_step [where rs = rs and ph = "if vanity_match type (m_address lp) then Left lp else Test lp" and s' = s])
      (simp_all add: left test)
  have start: "ends C type i s" if "threads s ! i = Start" "i < length (threads s)" for s
    using that k(1) by (intro ends_step [where rs = rs and ph = "Test k" and s' = s]) (simp_all add: test)
  have ended: "ends C type i s" if "threads s ! i = Ended" for s
    using that unfolding ends_def by (intro exI [of _ s]) (metis list_update_id rtranclp.rtrancl_refl)
  assume "i < length (threads s)"
  then show ?thesis
    by (cases "threads s ! i") (simp_all add: finish storing left test made' start ended)
qed

lemma run_threads:
  assumes "C rs = Inr (k, rs')" "vanity_match type (m_address k)" "n \<le> length (threads s)"
  shows "\<exists>t. (search_step C type)\<^sup>*\<^sup>* s t \<and> threads t = replicate n Ended @ drop n (threads s)"
  using assms(3)
proof (induction n)
  case 0
  show ?case by (intro exI [of _ s]) simp
next
  case (Suc n)
  then obtain t where t: "(search_step C type)\<^sup>*\<^sup>* s t" "threads t = replicate n Ended @ drop n (threads s)" by auto
  with Suc.prems have "n < length (threads t)" by simp
  from run_thread [of C rs k rs' type n t] assms(1,2) this obtain u where u: "(search_step C type)\<^sup>*\<^sup>* t u" "threads u = (threads t)[n := Ended]"
    by (auto simp: ends_def)
  have "threads u = replicate (Suc n) Ended @ drop (Suc n) (threads s)"
    using u(2) t(2) Suc.prems
    by (simp add: list_update_append Cons_nth_drop_Suc [symmetric] replicate_append_same)
  with t(1) u(1) show ?case by (intro exI [of _ u] conjI rtranclp_trans [of _ s t u]) auto
qed

section \<open>Properties\<close>

text \<open>C9: however the threads interleave, when all have ended the pair that is returned is one that was
  drawn and has the pattern; and as long as a pair with the pattern can be drawn, the search can still
  end. It starts as many threads as the machine has, but where that number is unknown (0) it starts
  \<open>2 ^ 32\<close>.\<close>

theorem vanity_search:
  assumes "reachable (search_init C) (search_step C type) s"
  shows "(\<forall>k. newKeyPair_end s = Some k \<longrightarrow> (\<exists>rs rs'. C rs = Inr (k, rs')) \<and> vanity_match type (m_address k))
    \<and> (C rs = Inr (k, rs') \<and> vanity_match type (m_address k)
        \<longrightarrow> (\<exists>t. (search_step C type)\<^sup>*\<^sup>* s t \<and> newKeyPair_end t \<noteq> None))
    \<and> (newKeyPair_begin C rs hc = Inr s0 \<longrightarrow> length (threads s0) = (if hc = 0 then 2 ^ 32 else unat hc))"
proof (intro conjI allI impI)
  have inv: "search_inv C type s" using assms by (rule vanity.reachable_inv)
  fix k assume "newKeyPair_end s = Some k"
  then have k: "k = found s" "list_all (\<lambda>ph. ph = Ended) (threads s)" by (auto simp: newKeyPair_end_def split: if_splits)
  with inv have "good_key C type k" by (cases "threads s") (auto simp: search_inv_def)
  then show "\<exists>rs rs'. C rs = Inr (k, rs')" "vanity_match type (m_address k)" by (auto simp: good_key_def drawn_def)
next
  assume "C rs = Inr (k, rs') \<and> vanity_match type (m_address k)"
  then obtain t where "(search_step C type)\<^sup>*\<^sup>* s t" "threads t = replicate (length (threads s)) Ended"
    using run_threads [of C rs k rs' type "length (threads s)" s] by auto
  then show "\<exists>t. (search_step C type)\<^sup>*\<^sup>* s t \<and> newKeyPair_end t \<noteq> None"
    by (intro exI [of _ t]) (auto simp: newKeyPair_end_def list_all_iff)
next
  assume "newKeyPair_begin C rs hc = Inr s0"
  then have "length (threads s0) = unat (hc - 1) + 1" by (auto simp: newKeyPair_begin_def rbind_eq_Inr thread_count_def)
  moreover have "unat (hc - 1) + 1 = unat hc" if "hc \<noteq> 0"
  proof -
    have "unat hc \<noteq> 0" using that by (metis unat_0_iff)
    then show ?thesis using unat_minus_one [OF that] by linarith
  qed
  moreover have "unat (hc - 1) + 1 = 2 ^ 32" if "hc = 0" using that unsigned_minus_1_eq_mask [where 'a = nat and 'b = 32] by (simp add: mask_eq_exp_minus_1)
  ultimately show "length (threads s0) = (if hc = 0 then 2 ^ 32 else unat hc)" by simp
qed

text \<open>With the wallet's \<open>KeyPair::create\<close> the pair belongs together and its address is not zero.\<close>

lemma create_genuine:
  "KeyPair_create L rs = Inr (k, rs') \<Longrightarrow> KeyPair_of L (m_secret k) = Inr k \<and> hash_bool (m_address k)"
proof (induction rs)
  case (Cons r rs)
  have "m_secret x = r" if "KeyPair_of L r = Inr x" for x using that by (auto simp: KeyPair_of_def rbind_eq_Inr)
  with Cons show ?case by (auto simp: rbind_eq_Inr split: if_splits)
qed simp

definition toy_creator :: creator where
  "toy_creator rs = Inr (\<lparr>m_secret = concat rs, m_public = [], m_address = [1, 1, 2, 2]\<rparr>, [])"

theorem vanity_search_witness:
  "\<exists>s t. newKeyPair_begin toy_creator [] 2 = Inr s \<and> length (threads s) = 2
    \<and> (search_step toy_creator FirstTwoNextTwo)\<^sup>*\<^sup>* s t \<and> newKeyPair_end t \<noteq> None"
proof -
  obtain s where s: "newKeyPair_begin toy_creator [] 2 = Inr s" by (simp add: newKeyPair_begin_def toy_creator_def)
  then have r: "reachable (search_init toy_creator) (search_step toy_creator FirstTwoNextTwo) s"
    by (intro reachable_init) (auto simp: search_init_def)
  have "vanity_match FirstTwoNextTwo [1, 1, 2, 2]" by code_simp
  with vanity_search [OF r, of "[]" "\<lparr>m_secret = [], m_public = [], m_address = [1, 1, 2, 2]\<rparr>" "[]" 2 s] s
  show ?thesis by (auto simp: toy_creator_def)
qed

end
