(* ===== verification/Connection_Form.thy ===== *)
theory Connection_Form
  imports Network_Thread
begin

text \<open>
  wallet/gui/connection_form.cpp: the addresses of the two nodes, entered by the user, are checked, written
  to \<open>config.json\<close>, which the network thread reads when the wallet starts, and passed to the running
  network thread.
\<close>

section \<open>Checking an address\<close>

text \<open>\<open>std::regex_search\<close> for \<open>(\d{1,3}(\.\d{1,3}){3})\<close>: somewhere in the text there are four groups of digits
  with dots between them. Nothing is said of what surrounds them. A group is not followed by a dot
  unless it is the whole run of digits; of the last one the first digit is enough.\<close>

definition is_digit :: "char \<Rightarrow> bool" where
  "is_digit c \<longleftrightarrow> c \<in> set ''0123456789''"

definition match_group :: "string \<Rightarrow> string option" where
  "match_group s =
     (let d = takeWhile is_digit s; r = drop (length d) s in
      if 1 \<le> length d \<and> length d \<le> 3 \<and> r \<noteq> '''' \<and> hd r = CHR ''.'' then Some (tl r) else None)"

definition match_ip :: "string \<Rightarrow> bool" where
  "match_ip s =
     (case match_group s of None \<Rightarrow> False | Some s \<Rightarrow>
       (case match_group s of None \<Rightarrow> False | Some s \<Rightarrow>
         (case match_group s of None \<Rightarrow> False | Some s \<Rightarrow> s \<noteq> '''' \<and> is_digit (hd s))))"

definition regex_search :: "string \<Rightarrow> bool" where
  "regex_search s = list_ex (\<lambda>i. match_ip (drop i s)) [0..<Suc (length s)]"

definition CheckIPAddress :: "string \<Rightarrow> string \<Rightarrow> string option" where
  "CheckIPAddress address_text port =
     (if (address_text = '''') \<noteq> (port = '''') then Some ''IP address or port can't empty!''
      else if address_text \<noteq> '''' \<and> \<not> regex_search address_text then Some ''IP address format error!''
      else None)"

section \<open>Saving\<close>

definition CreateNode :: "string \<Rightarrow> string \<Rightarrow> dict" where
  "CreateNode ip port = Dict_SetString (Dict_SetString [] ''address'' ip) ''port'' port"

definition config_document :: "string \<Rightarrow> string \<Rightarrow> string \<Rightarrow> string \<Rightarrow> dict" where
  "config_document full_ip full_port sol_ip sol_port =
     Dict_Set (Dict_Set [] ''full'' (BDict (CreateNode full_ip full_port))) ''solidity'' (BDict (CreateNode sol_ip sol_port))"

text \<open>The message box, if one is shown, the disk and the network thread.\<close>

definition connection_Save ::
  "json_io \<Rightarrow> string \<Rightarrow> string \<Rightarrow> string \<Rightarrow> string \<Rightarrow> string \<Rightarrow> disk \<Rightarrow> net \<Rightarrow> string option \<times> disk \<times> net" where
  "connection_Save J ConfigDir full_ip full_port sol_ip sol_port d s =
     (case JSONFile_Serialize J (ConfigDir @ ''/config.json'') (BDict (config_document full_ip full_port sol_ip sol_port)) d of
        (success, d) \<Rightarrow>
          if \<not> success then (Some ''Save failed!'', d, s)
          else (None, d, ReSetSub (full_ip @ '':'' @ full_port) (sol_ip @ '':'' @ sol_port) s))"

record connection_form =
  cf_full_ip :: string
  cf_full_port :: string
  cf_sol_ip :: string
  cf_sol_port :: string

definition connection_Reset :: "connection_form \<Rightarrow> connection_form" where
  "connection_Reset f = \<lparr>cf_full_ip = '''', cf_full_port = '''', cf_sol_ip = '''', cf_sol_port = ''''\<rparr>"

definition connection_click :: "json_io \<Rightarrow> string \<Rightarrow> connection_form \<Rightarrow> disk \<Rightarrow> net \<Rightarrow> string option \<times> disk \<times> net" where
  "connection_click J ConfigDir f d s =
     (case CheckIPAddress (cf_full_ip f) (cf_full_port f) of
        Some m \<Rightarrow> (Some m, d, s)
      | None \<Rightarrow>
          (case CheckIPAddress (cf_sol_ip f) (cf_sol_port f) of
             Some m \<Rightarrow> (Some m, d, s)
           | None \<Rightarrow> connection_Save J ConfigDir (cf_full_ip f) (cf_full_port f) (cf_sol_ip f) (cf_sol_port f) d s))"

section \<open>The document\<close>

lemma config_document_eq:
  "config_document a p b q =
     [(''full'', BDict [(''address'', BString a), (''port'', BString p)]),
      (''solidity'', BDict [(''address'', BString b), (''port'', BString q)])]"
  by (simp add: config_document_def CreateNode_def Dict_SetString_def Dict_Set.simps cut_path_def)

lemma node_values:
  "node_value (config_document a p b q) ''full'' = (if a \<noteq> '''' \<and> p \<noteq> '''' then a @ '':'' @ p else '''')"
  "node_value (config_document a p b q) ''solidity'' = (if b \<noteq> '''' \<and> q \<noteq> '''' then b @ '':'' @ q else '''')"
  by (simp_all add: node_value_def config_document_eq Dict_GetString_def GetAsString_def Dict_Get.simps cut_path_def
      GetDictionaryWithoutPathExpansion_def GetAsDictionary_def)

lemma config_text_dict:
  assumes "json_io_ok J" "jio_utf8 J a" "jio_utf8 J p" "jio_utf8 J b" "jio_utf8 J q"
  shows "text_dict (jio_utf8 J) (config_document a p b q)"
proof -
  have "ascii ''full''" "ascii ''solidity''" "ascii ''address''" "ascii ''port''" by (simp_all add: ascii_def)
  then have "jio_utf8 J ''full''" "jio_utf8 J ''solidity''" "jio_utf8 J ''address''" "jio_utf8 J ''port''"
    using json_io_ascii [OF assms(1)] by blast+
  with assms(2-) show ?thesis
    by (simp add: config_document_eq text_dict_def flat_dict_def ordered_keys_def)
qed

lemma connection_saved:
  assumes "json_io_ok J" "jio_can_open J (dir @ ''/config.json'')"
    "jio_utf8 J a" "jio_utf8 J p" "jio_utf8 J b" "jio_utf8 J q"
    "CheckIPAddress a p = None" "CheckIPAddress b q = None"
  obtains d' where "connection_click J dir \<lparr>cf_full_ip = a, cf_full_port = p, cf_sol_ip = b, cf_sol_port = q\<rparr> d s =
      (None, d', ReSetSub (a @ '':'' @ p) (b @ '':'' @ q) s)"
    "JSONFile_Deserialize J (dir @ ''/config.json'') d' = Some (BDict (config_document a p b q))"
proof -
  obtain d' where "JSONFile_Serialize J (dir @ ''/config.json'') (BDict (config_document a p b q)) d = (True, d')"
    "JSONFile_Deserialize J (dir @ ''/config.json'') d' = Some (BDict (config_document a p b q))"
    using file_roundtrip [OF assms(1) config_text_dict [OF assms(1,3-6)] assms(2), of d] by blast
  with assms(7,8) show ?thesis by (intro that [of d']) (simp_all add: connection_click_def connection_Save_def)
qed

lemma CheckIP_empty: "CheckIPAddress a p = None \<Longrightarrow> a = '''' \<longleftrightarrow> p = ''''"
  by (auto simp: CheckIPAddress_def split: if_splits)

definition connected :: "net \<Rightarrow> string \<times> string" where
  "connected s = (full_stub s, solidity_stub s)"

definition stubs_ok :: "net \<Rightarrow> bool" where
  "stubs_ok s \<longleftrightarrow> full_stub s = full_address_port s \<and> solidity_stub s = solidity_address_port s
     \<and> extension_stub s = solidity_address_port s"

lemma clear_pool_fields [simp]:
  "full_address_port (clear_pool s) = full_address_port s" "solidity_address_port (clear_pool s) = solidity_address_port s"
  "full_stub (clear_pool s) = full_stub s" "solidity_stub (clear_pool s) = solidity_stub s"
  "extension_stub (clear_pool s) = extension_stub s"
  by (simp_all add: clear_pool_def)

lemma run_reset_connected:
  "stubs_ok s \<Longrightarrow> x \<noteq> '''' \<Longrightarrow> y \<noteq> '''' \<Longrightarrow> connected (run_reset x y s) = (x, y) \<and> stubs_ok (run_reset x y s)"
  by (auto simp: run_reset_def Let_def CreateFullStub_def CreateSolidutyStub_def connected_def stubs_ok_def)

section \<open>Properties\<close>

text \<open>C21: addresses that are entered for both nodes and accepted are those that the wallet is connected
  to, once the posted task has run and also after the next start.\<close>

theorem connection_roundtrip:
  assumes "json_io_ok J" "jio_can_open J (dir @ ''/config.json'')"
    "jio_utf8 J a" "jio_utf8 J p" "jio_utf8 J b" "jio_utf8 J q"
    "CheckIPAddress a p = None" "CheckIPAddress b q = None" "a \<noteq> ''''" "b \<noteq> ''''"
    and "f = \<lparr>cf_full_ip = a, cf_full_port = p, cf_sol_ip = b, cf_sol_port = q\<rparr>" "stubs_ok s"
  shows "\<exists>d' full sol. connection_click J dir f d s = (None, d', ReSetSub full sol s)
    \<and> full = a @ '':'' @ p \<and> sol = b @ '':'' @ q
    \<and> connected (run_reset full sol s) = (full, sol) \<and> connected (CNetworkThread_new J dir d') = (full, sol)"
proof -
  obtain d' where d': "connection_click J dir f d s = (None, d', ReSetSub (a @ '':'' @ p) (b @ '':'' @ q) s)"
    "JSONFile_Deserialize J (dir @ ''/config.json'') d' = Some (BDict (config_document a p b q))"
    using connection_saved [OF assms(1-8)] unfolding assms(11) .
  have ne: "p \<noteq> ''''" "q \<noteq> ''''" using assms(7-10) CheckIP_empty by blast+
  with assms(9,10) d'(2) have "connected (CNetworkThread_new J dir d') = (a @ '':'' @ p, b @ '':'' @ q)"
    by (simp add: CNetworkThread_new_def CreateFullStub_def CreateSolidutyStub_def connected_def Load_def node_values Let_def)
  then show ?thesis using d'(1) run_reset_connected [OF assms(12)] assms(9,10) by (intro exI) auto
qed

text \<open>Fields that are left empty are accepted as well, but mean two things: the running wallet
  connects to the address \<open>:\<close>, while the next start takes the address that is built in.\<close>

theorem connection_empty:
  assumes "json_io_ok J" "jio_can_open J (dir @ ''/config.json'')" "jio_utf8 J b" "jio_utf8 J q"
    "CheckIPAddress b q = None" "f = \<lparr>cf_full_ip = '''', cf_full_port = '''', cf_sol_ip = b, cf_sol_port = q\<rparr>" "stubs_ok s"
  shows "\<exists>d' sol. connection_click J dir f d s = (None, d', ReSetSub '':'' sol s)
    \<and> fst (connected (run_reset '':'' sol s)) = '':''
    \<and> fst (connected (CNetworkThread_new J dir d')) = full_address_port net_fields"
proof -
  have e: "jio_utf8 J ''''" "CheckIPAddress '''' '''' = None"
    using json_io_ascii [OF assms(1), of "''''"] by (simp_all add: ascii_def CheckIPAddress_def)
  obtain d' where d': "connection_click J dir f d s = (None, d', ReSetSub '':'' (b @ '':'' @ q) s)"
    "JSONFile_Deserialize J (dir @ ''/config.json'') d' = Some (BDict (config_document '''' '''' b q))"
    using connection_saved [OF assms(1,2) e(1) e(1) assms(3,4) e(2) assms(5)] unfolding assms(6) by auto
  have "fst (connected (CNetworkThread_new J dir d')) = full_address_port net_fields"
    using d'(2) by (simp add: CNetworkThread_new_def CreateFullStub_def CreateSolidutyStub_def connected_def Load_def node_values Let_def)
  then show ?thesis using d'(1) run_reset_connected [OF assms(7), of "'':''"] by (intro exI conjI) auto
qed

text \<open>Only a part of the text has to look like an address: whatever stands before and after it is
  accepted.\<close>

theorem connection_accepts_more:
  assumes "port \<noteq> ''''"
  shows "CheckIPAddress (before @ ''1.2.3.4'' @ after) port = None"
proof -
  have "match_ip (''1.2.3.4'' @ after)"
    by (simp add: match_ip_def match_group_def is_digit_def)
  then have "match_ip (drop (length before) (before @ ''1.2.3.4'' @ after))" by simp
  moreover have "length before \<in> set [0..<Suc (length (before @ ''1.2.3.4'' @ after))]" by simp
  ultimately have "regex_search (before @ ''1.2.3.4'' @ after)"
    unfolding regex_search_def list_ex_iff by blast
  then show ?thesis using assms by (simp add: CheckIPAddress_def)
qed

lemma toy_start: "stubs_ok (CNetworkThread_new toy_json_io '''' (\<lambda>p. None))"
  by (simp add: CNetworkThread_new_def CreateFullStub_def CreateSolidutyStub_def stubs_ok_def)

lemma toy_ip: "CheckIPAddress ''10.0.0.1'' ''5'' = None" "CheckIPAddress ''10.0.0.2'' ''6'' = None"
  by code_simp+

theorem connection_roundtrip_witness:
  "\<exists>d'. connected (CNetworkThread_new toy_json_io '''' d') = (''10.0.0.1:5'', ''10.0.0.2:6'')"
  using connection_roundtrip [of toy_json_io "''''" "''10.0.0.1''" "''5''" "''10.0.0.2''" "''6''", OF _ _ _ _ _ _ _ _ _ _ refl toy_start]
  by (simp add: toy_json_io_ok toy_ip) (auto simp: toy_json_io_def)

theorem connection_empty_witness:
  "\<exists>d'. fst (connected (CNetworkThread_new toy_json_io '''' d')) = ''47.254.16.55:50051''"
  using connection_empty [of toy_json_io "''''" "''10.0.0.2''" "''6''", OF _ _ _ _ _ refl toy_start]
  by (simp add: toy_json_io_ok toy_ip) (auto simp: toy_json_io_def net_fields_def)

theorem connection_accepts_more_witness: "CheckIPAddress ''nodes.evil.org/1.2.3.4.html'' ''80'' = None"
  using connection_accepts_more [of "''80''" "''nodes.evil.org/''" "''.html''"] by simp

end
