(* ===== verification/String_Tools.thy ===== *)
theory String_Tools
  imports Wallet_Prelude
begin

text \<open>
  The string functions of base/macros.cc: trimming, splitting at separators and joining. A position is
  an index into the string, \<open>npos\<close> is \<open>None\<close>; a string that is split at the empty separator is never
  finished with, so splitting returns an option. The three instances for wider characters are the
  same functions.
\<close>

section \<open>Positions\<close>

definition find_at :: "(nat \<Rightarrow> bool) \<Rightarrow> string \<Rightarrow> nat \<Rightarrow> nat \<Rightarrow> nat option" where
  "find_at P s pos n = List.find P [pos..<n]"

definition find_char :: "char \<Rightarrow> string \<Rightarrow> nat \<Rightarrow> nat option" where
  "find_char c s pos = find_at (\<lambda>i. s ! i = c) s pos (length s)"

definition find_string :: "string \<Rightarrow> string \<Rightarrow> nat \<Rightarrow> nat option" where
  "find_string t s pos = find_at (\<lambda>i. take (length t) (drop i s) = t) s pos (Suc (length s))"

definition find_first_of :: "string \<Rightarrow> string \<Rightarrow> nat \<Rightarrow> nat option" where
  "find_first_of t s pos = find_at (\<lambda>i. s ! i \<in> set t) s pos (length s)"

section \<open>Trimming\<close>

datatype TrimPositions = TRIM_NONE | TRIM_LEADING | TRIM_TRAILING | TRIM_ALL

text \<open>The constants are sets of bits: the code's \<open>|\<close> is the supremum of the inclusion order, and its test
  \<open>positions & TRIM_LEADING\<close> is \<open>TRIM_LEADING \<le> positions\<close>.\<close>

instantiation TrimPositions :: semilattice_sup
begin

definition less_eq_TrimPositions :: "TrimPositions \<Rightarrow> TrimPositions \<Rightarrow> bool" where
  "less_eq_TrimPositions p q \<longleftrightarrow> p = TRIM_NONE \<or> q = TRIM_ALL \<or> p = q"

definition less_TrimPositions :: "TrimPositions \<Rightarrow> TrimPositions \<Rightarrow> bool" where
  "less_TrimPositions p q \<longleftrightarrow> p \<le> q \<and> p \<noteq> q"

definition sup_TrimPositions :: "TrimPositions \<Rightarrow> TrimPositions \<Rightarrow> TrimPositions" where
  "sup_TrimPositions p q = (if p \<le> q then q else if q \<le> p then p else TRIM_ALL)"

instance
proof
  fix p q r :: TrimPositions
  show "p < q \<longleftrightarrow> p \<le> q \<and> \<not> q \<le> p" by (cases p; cases q) (simp_all add: less_eq_TrimPositions_def less_TrimPositions_def)
  show "p \<le> p" "p \<le> sup p q" "q \<le> sup p q" by (cases p; cases q; simp add: less_eq_TrimPositions_def sup_TrimPositions_def)+
  show "p \<le> q \<Longrightarrow> q \<le> r \<Longrightarrow> p \<le> r" "p \<le> q \<Longrightarrow> q \<le> p \<Longrightarrow> p = q" "q \<le> p \<Longrightarrow> r \<le> p \<Longrightarrow> sup q r \<le> p"
    by (cases p; cases q; cases r; simp add: less_eq_TrimPositions_def sup_TrimPositions_def)+
qed

end

lemmas trim_bits = less_eq_TrimPositions_def sup_TrimPositions_def

abbreviation leading :: "TrimPositions \<Rightarrow> bool" where
  "leading p \<equiv> TRIM_LEADING \<le> p"

abbreviation trailing :: "TrimPositions \<Rightarrow> bool" where
  "trailing p \<equiv> TRIM_TRAILING \<le> p"

definition find_first_not_of :: "string \<Rightarrow> string \<Rightarrow> nat option" where
  "find_first_not_of t s = List.find (\<lambda>i. s ! i \<notin> set t) [0..<length s]"

definition find_last_not_of :: "string \<Rightarrow> string \<Rightarrow> nat option" where
  "find_last_not_of t s = List.find (\<lambda>i. s ! i \<notin> set t) (rev [0..<length s])"

text \<open>\<open>begin\<close> and \<open>end\<close> are cut to the size; \<open>npos + 1\<close> is 0, and a negative length is all that is left.\<close>

definition TrimStringPieceT :: "string \<Rightarrow> string \<Rightarrow> TrimPositions \<Rightarrow> string" where
  "TrimStringPieceT s t positions =
     (let b = (if leading positions then (case find_first_not_of t s of Some i \<Rightarrow> i | None \<Rightarrow> length s) else 0);
          e = (if trailing positions then (case find_last_not_of t s of Some i \<Rightarrow> i + 1 | None \<Rightarrow> 0) else length s)
      in if b \<le> e then take (e - b) (drop b s) else drop b s)"

text \<open>The other form reports where something was cut.\<close>

definition TrimStringT :: "string \<Rightarrow> string \<Rightarrow> TrimPositions \<Rightarrow> string \<times> TrimPositions" where
  "TrimStringT s t positions =
     (let last_char = length s - 1;
          first_good = (if leading positions then find_first_not_of t s else Some 0);
          last_good = (if trailing positions then find_last_not_of t s else Some last_char)
      in if s = '''' then ('''', TRIM_NONE)
         else (case (first_good, last_good) of
           (Some f, Some l) \<Rightarrow>
             (take (l - f + 1) (drop f s),
              sup (if f = 0 then TRIM_NONE else TRIM_LEADING) (if l = last_char then TRIM_NONE else TRIM_TRAILING))
         | _ \<Rightarrow> ('''', positions)))"

definition kWhitespaceASCII :: string where
  "kWhitespaceASCII = [CHR 0x09, CHR 0x0A, CHR 0x0B, CHR 0x0C, CHR 0x0D, CHR 0x20]"

section \<open>Splitting\<close>

datatype SeparatorType = SEPARATOR_ALL | SEPARATOR_ONE
datatype WhitespaceHandling = KEEP_WHITESPACE | TRIM_WHITESPACE
datatype SplitResult = SPLIT_WANT_ALL | SPLIT_WANT_NONEMPTY

text \<open>\<open>FindFirstOf\<close> and \<open>GetAdvanceLen\<close> for a separator that is a character or a string.\<close>

datatype delimiter = Char char | Chars string

fun FindFirstOf :: "string \<Rightarrow> delimiter \<Rightarrow> nat \<Rightarrow> bool \<Rightarrow> nat option" where
  "FindFirstOf s (Char c) pos find_all = find_char c s pos"
| "FindFirstOf s (Chars t) pos find_all = (if find_all then find_string t s pos else find_first_of t s pos)"

fun GetAdvanceLen :: "delimiter \<Rightarrow> bool \<Rightarrow> nat" where
  "GetAdvanceLen (Char c) find_all = 1"
| "GetAdvanceLen (Chars t) find_all = (if find_all then length t else 1)"

definition cut_piece :: "WhitespaceHandling \<Rightarrow> string \<Rightarrow> string" where
  "cut_piece ws piece = (if ws = TRIM_WHITESPACE then TrimStringPieceT piece kWhitespaceASCII TRIM_ALL else piece)"

definition push_piece :: "WhitespaceHandling \<Rightarrow> SplitResult \<Rightarrow> string \<Rightarrow> string list \<Rightarrow> string list" where
  "push_piece ws rt piece result =
     (let piece = cut_piece ws piece
      in if rt = SPLIT_WANT_ALL \<or> piece \<noteq> '''' then piece # result else result)"

partial_function (option) split_loop ::
  "string \<Rightarrow> delimiter \<Rightarrow> bool \<Rightarrow> WhitespaceHandling \<Rightarrow> SplitResult \<Rightarrow> nat \<Rightarrow> string list option" where
  "split_loop s d find_all ws rt start =
     (case FindFirstOf s d start find_all of
        None \<Rightarrow> Some (push_piece ws rt (drop start s) [])
      | Some e \<Rightarrow>
          Option.bind (split_loop s d find_all ws rt (e + GetAdvanceLen d find_all))
            (\<lambda>result. Some (push_piece ws rt (take (e - start) (drop start s)) result)))"

definition SplitStringT :: "string \<Rightarrow> delimiter \<Rightarrow> SeparatorType \<Rightarrow> WhitespaceHandling \<Rightarrow> SplitResult \<Rightarrow> string list option" where
  "SplitStringT s d st ws rt = (if s = '''' then Some [] else split_loop s d (st = SEPARATOR_ALL) ws rt 0)"

definition SplitString :: "string \<Rightarrow> string \<Rightarrow> SeparatorType \<Rightarrow> WhitespaceHandling \<Rightarrow> SplitResult \<Rightarrow> string list option" where
  "SplitString s separators st ws rt =
     (if length separators = 1 then SplitStringT s (Char (separators ! 0)) SEPARATOR_ONE ws rt
      else SplitStringT s (Chars separators) st ws rt)"

section \<open>Joining\<close>

fun JoinString :: "string list \<Rightarrow> string \<Rightarrow> string" where
  "JoinString [] sep = ''''"
| "JoinString (p # ps) sep = foldl (\<lambda>result q. result @ sep @ q) p ps"

section \<open>Finding\<close>

lemma find_upt_Some:
  "List.find P [a..<b] = Some i \<longleftrightarrow> a \<le> i \<and> i < b \<and> P i \<and> (\<forall>j. a \<le> j \<and> j < i \<longrightarrow> \<not> P j)"
proof (induction "b - a" arbitrary: a)
  case 0
  then show ?case by auto
next
  case (Suc n)
  then have ab: "[a..<b] = a # [Suc a..<b]" by (simp add: upt_rec)
  show ?case
  proof (cases "P a")
    case True
    then show ?thesis using ab Suc.hyps(2) by (auto simp: le_less)
  next
    case False
    with Suc.hyps show ?thesis unfolding ab by (auto simp: Suc_le_eq) (metis le_neq_implies_less)+
  qed
qed

lemma find_upt_None: "List.find P [a..<b] = None \<longleftrightarrow> (\<forall>j. a \<le> j \<and> j < b \<longrightarrow> \<not> P j)"
  by (auto simp: find_None_iff)

section \<open>Termination\<close>

lemma find_bounds:
  "find_char c s pos = Some e \<Longrightarrow> pos \<le> e \<and> e < length s"
  "find_first_of t s pos = Some e \<Longrightarrow> pos \<le> e \<and> e < length s"
  "find_string t s pos = Some e \<Longrightarrow> pos \<le> e \<and> e + length t \<le> length s"
proof -
  show "find_string t s pos = Some e \<Longrightarrow> pos \<le> e \<and> e + length t \<le> length s"
    unfolding find_string_def find_at_def find_upt_Some
    by (metis diff_add_inverse2 le_add_diff_inverse le_diff_conv length_drop length_take less_Suc_eq_le min.cobounded1 add.commute add_le_mono1 min_def)
qed (auto simp: find_char_def find_first_of_def find_at_def find_upt_Some)

lemma FindFirstOf_bounds: "FindFirstOf s d pos fa = Some e \<Longrightarrow> pos \<le> e \<and> e + GetAdvanceLen d fa \<le> length s"
  by (cases d) (auto dest: find_bounds split: if_splits)

lemma split_loop_returns: "0 < GetAdvanceLen d fa \<Longrightarrow> split_loop s d fa ws rt start \<noteq> None"
proof (induction "length s - start" arbitrary: start rule: less_induct)
  case less
  show ?case
  proof (cases "FindFirstOf s d start fa")
    case None
    then show ?thesis by (subst split_loop.simps) simp
  next
    case (Some e)
    with FindFirstOf_bounds [OF this] less.prems
    have "length s - (e + GetAdvanceLen d fa) < length s - start" by linarith
    from less.hyps [OF this less.prems] Some show ?thesis by (subst split_loop.simps) auto
  qed
qed

lemma find_empty: "pos \<le> length s \<Longrightarrow> find_string '''' s pos = Some pos"
  unfolding find_string_def find_at_def find_upt_Some by simp

lemma split_empty_diverges:
  assumes "split_loop s d fa ws rt start = Some r"
  shows "\<not> (d = Chars '''' \<and> fa \<and> start \<le> length s)"
proof (rule split_loop.raw_induct [where P = "\<lambda>s d fa ws rt start r. \<not> (d = Chars '''' \<and> fa \<and> start \<le> length s)", OF _ assms])
  fix f s d fa ws rt start r
  assume IH: "\<And>s d fa ws rt start r. f s d fa ws rt start = Some r \<Longrightarrow> \<not> (d = Chars '''' \<and> fa \<and> start \<le> length s)"
    and step: "(case FindFirstOf s d start fa of None \<Rightarrow> Some (push_piece ws rt (drop start s) [])
      | Some e \<Rightarrow> Option.bind (f s d fa ws rt (e + GetAdvanceLen d fa))
          (\<lambda>result. Some (push_piece ws rt (take (e - start) (drop start s)) result))) = Some r"
  show "\<not> (d = Chars '''' \<and> fa \<and> start \<le> length s)"
  proof
    assume a: "d = Chars '''' \<and> fa \<and> start \<le> length s"
    with step obtain x where "f s d fa ws rt start = Some x" by (auto simp: find_empty bind_eq_Some_conv)
    from IH [OF this] a show False by blast
  qed
qed

section \<open>Splitting undoes joining\<close>

text \<open>The pieces of a text between the occurrences of one character.\<close>

fun pieces :: "char \<Rightarrow> string \<Rightarrow> string list" where
  "pieces c [] = [[]]"
| "pieces c (x # xs) =
     (if x = c then [] # pieces c xs
      else (case pieces c xs of [] \<Rightarrow> [[x]] | p # ps \<Rightarrow> (x # p) # ps))"

lemma pieces_nonempty [simp]: "pieces c s \<noteq> []"
  by (cases s) (auto split: list.splits)

lemma pieces_none: "c \<notin> set s \<Longrightarrow> pieces c s = [s]"
  by (induction s) auto

lemma pieces_first: "c \<notin> set p \<Longrightarrow> pieces c (p @ c # s) = p # pieces c s"
  by (induction p) auto

lemma find_char_None: "find_char c s pos = None \<Longrightarrow> c \<notin> set (drop pos s)"
  unfolding find_char_def find_at_def find_upt_None by (auto simp: in_set_conv_nth)

lemma find_char_Some:
  assumes "find_char c s pos = Some e"
  shows "c \<notin> set (take (e - pos) (drop pos s)) \<and> drop pos s = take (e - pos) (drop pos s) @ c # drop (Suc e) s"
proof -
  from assms have e: "pos \<le> e" "e < length s" "s ! e = c" "\<And>j. pos \<le> j \<Longrightarrow> j < e \<Longrightarrow> s ! j \<noteq> c"
    unfolding find_char_def find_at_def find_upt_Some by auto
  from e(2,3) have "drop e s = c # drop (Suc e) s" using Cons_nth_drop_Suc by metis
  moreover have "drop pos s = take (e - pos) (drop pos s) @ drop e s"
    using e(1) by (metis append_take_drop_id drop_drop le_add_diff_inverse2)
  moreover have "c \<notin> set (take (e - pos) (drop pos s))"
    using e by (auto simp: in_set_conv_nth)
  ultimately show ?thesis by simp
qed

lemma split_char:
  "split_loop s (Char c) fa ws SPLIT_WANT_ALL start = Some (map (cut_piece ws) (pieces c (drop start s)))"
proof (induction "length s - start" arbitrary: start rule: less_induct)
  case less
  show ?case
  proof (cases "find_char c s start")
    case None
    then show ?thesis
      by (subst split_loop.simps) (simp add: push_piece_def pieces_none find_char_None)
  next
    case (Some e)
    note f = find_char_Some [OF Some]
    from find_bounds(1) [OF Some] have "length s - (e + 1) < length s - start" by linarith
    from less.hyps [OF this] Some
    have "split_loop s (Char c) fa ws SPLIT_WANT_ALL start
        = Some (map (cut_piece ws) (take (e - start) (drop start s) # pieces c (drop (Suc e) s)))"
      by (subst split_loop.simps) (simp add: push_piece_def)
    also have "take (e - start) (drop start s) # pieces c (drop (Suc e) s) = pieces c (drop start s)"
      using f pieces_first by metis
    finally show ?thesis .
  qed
qed

lemma cut_keep [simp]: "cut_piece KEEP_WHITESPACE = (\<lambda>p. p)"
  by (simp add: cut_piece_def fun_eq_iff)

lemma JoinString_cons: "JoinString (p # q # ps) sep = p @ sep @ JoinString (q # ps) sep"
proof -
  have "foldl (\<lambda>result q. result @ sep @ q) (a @ b) ps = a @ foldl (\<lambda>result q. result @ sep @ q) b ps" for a b
    by (induction ps arbitrary: b) auto
  from this [of "p @ sep" q] show ?thesis by simp
qed

lemma join_pieces: "JoinString (pieces c s) [c] = s"
proof (induction s)
  case (Cons x s)
  obtain p ps where p: "pieces c s = p # ps" by (cases "pieces c s") auto
  have "JoinString ((x # p) # ps) [c] = x # JoinString (p # ps) [c]"
    by (cases ps) (simp, simp only: JoinString_cons append_Cons)
  with Cons p show ?case by (simp only: pieces.simps p list.case if_split)
      (cases "x = c", simp_all add: JoinString_cons del: JoinString.simps)
qed simp

lemma pieces_join: "ps \<noteq> [] \<Longrightarrow> \<forall>p\<in>set ps. c \<notin> set p \<Longrightarrow> pieces c (JoinString ps [c]) = ps"
proof (induction ps rule: induct_list012)
  case (3 p q ps)
  then show ?case by (simp add: JoinString_cons pieces_first del: JoinString.simps)
qed (auto simp: pieces_none)

section \<open>Trimming, both ways\<close>

lemma find_map: "List.find P (map f xs) = map_option f (List.find (P \<circ> f) xs)"
  by (induction xs) auto

lemma find_first_not_of_takeWhile:
  "find_first_not_of t s = (if set s \<subseteq> set t then None else Some (length (takeWhile (\<lambda>c. c \<in> set t) s)))"
proof (cases "set s \<subseteq> set t")
  case True
  then show ?thesis by (auto simp: find_first_not_of_def find_upt_None dest: nth_mem)
next
  case False
  let ?i = "length (takeWhile (\<lambda>c. c \<in> set t) s)"
  from False obtain x where "x \<in> set s" "x \<notin> set t" by auto
  then have i: "?i < length s"
    using length_takeWhile_le [of "\<lambda>c. c \<in> set t" s] takeWhile_eq_all_conv [of "\<lambda>c. c \<in> set t" s]
    by (metis le_neq_implies_less takeWhile_eq_take take_all)
  moreover have "s ! j \<in> set t" if "j < ?i" for j
    using that by (metis nth_mem set_takeWhileD takeWhile_nth)
  ultimately show ?thesis using False nth_length_takeWhile [OF i]
    by (auto simp: find_first_not_of_def find_upt_Some)
qed

lemma find_last_not_of_rev:
  "find_last_not_of t s = map_option (\<lambda>i. length s - 1 - i) (find_first_not_of t (rev s))"
proof -
  have r: "rev [0..<n] = map (\<lambda>i. n - 1 - i) [0..<n]" for n
    by (rule nth_equalityI) (simp_all add: rev_nth)
  have "List.find ((\<lambda>i. s ! i \<notin> set t) \<circ> (\<lambda>i. length s - 1 - i)) [0..<length s] = List.find (\<lambda>i. rev s ! i \<notin> set t) [0..<length s]"
    by (rule find_cong) (simp_all add: rev_nth)
  then show ?thesis unfolding find_last_not_of_def find_first_not_of_def r find_map by (simp only: length_rev)
qed

abbreviation strip :: "string \<Rightarrow> string \<Rightarrow> string" where
  "strip t \<equiv> dropWhile (\<lambda>c. c \<in> set t)"

lemma strip_Nil: "strip t s = [] \<longleftrightarrow> set s \<subseteq> set t"
  by (auto simp: dropWhile_eq_Nil_conv)

lemma drop_strip: "drop (length (takeWhile (\<lambda>c. c \<in> set t) s)) s = strip t s"
  by (rule dropWhile_eq_drop [symmetric])

lemma length_strip: "length (takeWhile (\<lambda>c. c \<in> set t) s) + length (strip t s) = length s"
  by (metis length_append takeWhile_dropWhile_id)

lemma take_strip: "take (length s - length (takeWhile (\<lambda>c. c \<in> set t) (rev s))) s = rev (strip t (rev s))"
  by (metis drop_strip length_rev rev_drop rev_rev_ident)

lemma strip_both:
  assumes "\<not> set s \<subseteq> set t"
  shows "take (length s - length (takeWhile (\<lambda>c. c \<in> set t) (rev s)) - length (takeWhile (\<lambda>c. c \<in> set t) s)) (strip t s)
    = rev (strip t (rev (strip t s)))"
proof -
  let ?a = "takeWhile (\<lambda>c. c \<in> set t) s"
  have "takeWhile (\<lambda>c. c \<in> set t) (rev s) = takeWhile (\<lambda>c. c \<in> set t) (rev (strip t s))"
  proof -
    have "rev s = rev (strip t s) @ rev ?a" by (metis rev_append takeWhile_dropWhile_id)
    moreover have "\<not> set (rev (strip t s)) \<subseteq> set t"
      using assms by (metis set_rev strip_Nil dropWhile_idem)
    ultimately show ?thesis using takeWhile_append1 by (metis subsetI)
  qed
  moreover have "length s = length ?a + length (strip t s)" by (simp only: length_strip)
  ultimately show ?thesis using take_strip [of "strip t s" t] by (simp add: diff_commute)
qed

lemma strip_ends:
  fixes s t :: string
  assumes "\<not> set s \<subseteq> set t"
  shows "length (takeWhile (\<lambda>c. c \<in> set t) (rev s)) < length s"
    "length (takeWhile (\<lambda>c. c \<in> set t) s) < length s - length (takeWhile (\<lambda>c. c \<in> set t) (rev s))"
proof -
  have "strip t (rev s) \<noteq> []" using assms by (simp add: strip_Nil del: dropWhile_eq_Nil_conv)
  then show "length (takeWhile (\<lambda>c. c \<in> set t) (rev s)) < length s"
    using length_strip [of t "rev s"] by (simp only: length_rev) (metis length_greater_0_conv less_add_same_cancel1)
  have "rev (strip t (rev (strip t s))) \<noteq> []"
    using assms by (metis dropWhile_idem rev_is_Nil_conv set_rev strip_Nil)
  then have "length s - length (takeWhile (\<lambda>c. c \<in> set t) (rev s)) - length (takeWhile (\<lambda>c. c \<in> set t) s) \<noteq> 0"
    using strip_both [OF assms] by (metis take_eq_Nil)
  then show "length (takeWhile (\<lambda>c. c \<in> set t) s) < length s - length (takeWhile (\<lambda>c. c \<in> set t) (rev s))" by simp
qed

lemma trim_piece:
  "TrimStringPieceT s t p =
     (let s = (if leading p then strip t s else s) in if trailing p then rev (strip t (rev s)) else s)"
proof (cases "set s \<subseteq> set t")
  case True
  then have "strip t s = []" "strip t (rev s) = []" by (simp_all add: strip_Nil del: dropWhile_eq_Nil_conv)
  then show ?thesis unfolding TrimStringPieceT_def find_last_not_of_rev find_first_not_of_takeWhile
    using True by (simp add: Let_def del: dropWhile_eq_Nil_conv)
next
  case False
  let ?b = "length (takeWhile (\<lambda>c. c \<in> set t) s)" and ?e = "length (takeWhile (\<lambda>c. c \<in> set t) (rev s))"
  note e = strip_ends [OF False]
  have "TrimStringPieceT s t p =
      (let b = (if leading p then ?b else 0); e = (if trailing p then length s - 1 - ?e + 1 else length s)
       in if b \<le> e then take (e - b) (drop b s) else drop b s)"
    using False by (simp only: TrimStringPieceT_def find_last_not_of_rev find_first_not_of_takeWhile set_rev if_False
        option.case option.map(2) length_rev)
  moreover have "length s - 1 - ?e + 1 = length s - ?e" "?b \<le> length s" "?b \<le> length s - ?e" "length (strip t s) \<le> length s - ?b"
    using e length_strip [of t s] by linarith+
  ultimately show ?thesis
    by (cases "leading p"; cases "trailing p") (simp_all only: Let_def if_True if_False drop_strip strip_both [OF False] take_strip
        drop_0 diff_zero take_all le0 order.refl)
qed

text \<open>The two implementations of trimming agree for every choice of ends, and what they compute is the
  text without the leading and trailing run of the given characters.\<close>

theorem trimming_agrees:
  "fst (TrimStringT s t p) = TrimStringPieceT s t p
    \<and> TrimStringPieceT s t TRIM_ALL = rev (strip t (rev (strip t s)))"
proof -
  have "fst (TrimStringT s t p) = TrimStringPieceT s t p"
  proof (cases "set s \<subseteq> set t")
    case True
    then have "strip t s = []" "strip t (rev s) = []" by (simp_all add: strip_Nil del: dropWhile_eq_Nil_conv)
    with True show ?thesis unfolding trim_piece TrimStringT_def find_last_not_of_rev find_first_not_of_takeWhile
      by (cases p) (auto simp: Let_def trim_bits simp del: dropWhile_eq_Nil_conv)
  next
    case False
    let ?b = "length (takeWhile (\<lambda>c. c \<in> set t) s)" and ?e = "length (takeWhile (\<lambda>c. c \<in> set t) (rev s))"
    from strip_ends [OF False] have n: "length s - 1 - ?e - ?b + 1 = length s - ?e - ?b" "length s - 1 - ?e + 1 = length s - ?e" by linarith+
    have "s \<noteq> []" using False by auto
    then have "length s - 1 + 1 = length s" by simp
    have "fst (TrimStringT s t p) = take ((if trailing p then length s - 1 - ?e else length s - 1) - (if leading p then ?b else 0) + 1)
        (drop (if leading p then ?b else 0) s)"
      unfolding TrimStringT_def find_last_not_of_rev find_first_not_of_takeWhile
      using False \<open>s \<noteq> []\<close> by (simp add: Let_def)
    also have "\<dots> = TrimStringPieceT s t p"
    proof (cases "leading p")
      case l: True
      show ?thesis
      proof (cases "trailing p")
        case True
        then show ?thesis using l n(1) strip_both [OF False] by (simp add: trim_piece drop_strip)
      next
        case no: False
        have "length (strip t s) \<le> length s - 1 - ?b + 1" using length_strip [of t s] by linarith
        then show ?thesis using l no by (simp add: trim_piece drop_strip)
      qed
    next
      case l: False
      show ?thesis using l n(2) take_strip [of s t] \<open>length s - 1 + 1 = length s\<close>
        by (cases "trailing p") (simp_all add: trim_piece)
    qed
    finally show ?thesis .
  qed
  then show ?thesis by (simp add: trim_piece trim_bits)
qed

text \<open>Splitting a text returns unless the text is not empty and the separator is the empty string that is
  to be found as a whole: then the position does not advance and the loop does not end.\<close>

theorem splitting_returns:
  "SplitString s separators st ws rt = None \<longleftrightarrow> s \<noteq> '''' \<and> separators = '''' \<and> st = SEPARATOR_ALL"
proof (cases "s \<noteq> '''' \<and> separators = '''' \<and> st = SEPARATOR_ALL")
  case True
  then have "split_loop s (Chars separators) True ws rt 0 = None"
    using split_empty_diverges [of s "Chars separators" True ws rt 0] by (cases "split_loop s (Chars separators) True ws rt 0") auto
  with True show ?thesis by (simp add: SplitString_def SplitStringT_def)
next
  case False
  have "s = '''' \<or> 0 < GetAdvanceLen (Chars separators) (st = SEPARATOR_ALL)" using False by auto
  then have "SplitString s separators st ws rt \<noteq> None"
    unfolding SplitString_def SplitStringT_def using split_loop_returns by (auto simp del: GetAdvanceLen.simps(2))
  with False show ?thesis by blast
qed

text \<open>Joining is the opposite of splitting at a character, and splitting that of joining if no part
  contains the character and the parts are not a single empty one.\<close>

theorem split_join:
  assumes "\<forall>p\<in>set ps. c \<notin> set p" "ps \<noteq> ['''']"
  shows "SplitString (JoinString ps [c]) [c] st KEEP_WHITESPACE SPLIT_WANT_ALL = Some ps
    \<and> (\<exists>qs. SplitString s [c] st KEEP_WHITESPACE SPLIT_WANT_ALL = Some qs \<and> JoinString qs [c] = s)"
proof
  have e: "JoinString ps [c] = '''' \<longleftrightarrow> ps = []"
  proof (cases "ps = []")
    case False
    have "JoinString ps [c] = '''' \<Longrightarrow> ps = [[]]" using pieces_join [OF False assms(1)] by auto
    with False assms(2) show ?thesis by blast
  qed simp
  then show "SplitString (JoinString ps [c]) [c] st KEEP_WHITESPACE SPLIT_WANT_ALL = Some ps"
    using assms(1) by (cases "ps = []") (simp_all add: SplitString_def SplitStringT_def split_char pieces_join)
  show "\<exists>qs. SplitString s [c] st KEEP_WHITESPACE SPLIT_WANT_ALL = Some qs \<and> JoinString qs [c] = s"
    by (cases "s = ''''") (simp_all add: SplitString_def SplitStringT_def split_char join_pieces)
qed

theorem split_join_witness:
  "SplitString (JoinString [''ab'', '''', ''c''] '','') '','' SEPARATOR_ALL KEEP_WHITESPACE SPLIT_WANT_ALL = Some [''ab'', '''', ''c'']"
  using split_join [of "[''ab'', '''', ''c'']" "CHR '',''" SEPARATOR_ALL "''''"] by simp

end
