(* ===== verification/Watch_Wallet.thy ===== *)
theory Watch_Wallet
  imports String_Tools Send_Form Vote_Form "HOL-Library.Char_ord" "HOL-Library.List_Lexorder"
begin

text \<open>
  The watching wallet of wallet/gui: addresses are imported as text (main_window.cpp,
  address_text_form.cpp), listed, and each has a button that opens a form for it
  (addresses_action_form.cpp). The form of balances (balance_form.cpp) serves both the account that is
  logged in and an imported one.
\<close>

section \<open>Importing addresses\<close>

fun check_addresses :: "(bytes \<Rightarrow> bytes) \<Rightarrow> string list \<Rightarrow> bool result" where
  "check_addresses sha [] = Inr True"
| "check_addresses sha (a # as) =
     rbind (AddressDecodeBase58Check sha a) (\<lambda>(valide, _). if \<not> valide then Inr False else check_addresses sha as)"

text \<open>The callback of the import form, and its OK button, which hides the form whatever the outcome.\<close>

definition ImportAddress :: "(bytes \<Rightarrow> bytes) \<Rightarrow> string \<Rightarrow> string set \<Rightarrow> (ui list \<times> string set) result" where
  "ImportAddress sha adr imported_address =
     (case SplitString adr [CHR 0x0D] SEPARATOR_ALL TRIM_WHITESPACE SPLIT_WANT_ALL of
        None \<Rightarrow> Inl Diverges
      | Some addresses \<Rightarrow>
          rbind (check_addresses sha addresses) (\<lambda>ok.
            if \<not> ok then Inr ([MessageBox ''Address format error.''], imported_address)
            else Inr ([], imported_address \<union> set addresses)))"

definition address_text_ok :: "(bytes \<Rightarrow> bytes) \<Rightarrow> string \<Rightarrow> string set \<Rightarrow> (ui list \<times> string set) result" where
  "address_text_ok sha textbox imported_address =
     rbind (ImportAddress sha textbox imported_address) (\<lambda>(us, s). Inr (us @ [UIShow False], s))"

section \<open>Balances\<close>

record balance_form =
  bf_offline :: bool
  bf_address :: bytes
  bf_label :: string
  bf_title :: string
  bf_tokens :: "(string \<times> string \<times> string) list"
  bf_bandwidth :: string

definition UpdateBandwidth :: "64 word \<Rightarrow> 64 word \<Rightarrow> balance_form \<Rightarrow> balance_form" where
  "UpdateBandwidth netlimit netused f = f\<lparr>bf_bandwidth := IntToString (sint (netlimit - netused))\<rparr>"

text \<open>The rows: name, balance and frozen amount.\<close>

definition balance_rows :: "account \<Rightarrow> (string \<times> string \<times> string) list" where
  "balance_rows a =
     (let freeze = CalcTronPower (map fst (acc_frozen a))
      in (''TRX'', IntToString (sint (acc_balance a) sdiv 1000000), IntToString (sint freeze sdiv 1000000))
         # map (\<lambda>(name, balance). (name, IntToString (sint balance), ''0'')) (acc_asset a))"

definition UpdateBalance :: "(bytes \<Rightarrow> bytes) \<Rightarrow> string \<Rightarrow> account \<Rightarrow> balance_form \<Rightarrow> balance_form result" where
  "UpdateBalance sha account_name a f =
     rbind (AddressEncodeBase58Check sha (bf_address f)) (\<lambda>label.
       Inr (f\<lparr>bf_label := label, bf_title := (if bf_offline f then '''' else account_name), bf_tokens := balance_rows a\<rparr>))"

text \<open>\<open>SetAddress\<close>: the form, the request function it calls and what it shows; then what the callback does
  for the request's address: a second request, the update and the display.\<close>

definition SetAddress :: "bytes \<Rightarrow> balance_form \<Rightarrow> balance_form \<times> (NetworkRequestType \<times> payload) option \<times> ui list" where
  "SetAddress adr f =
     (if adr \<noteq> [] then
        (f\<lparr>bf_address := adr\<rparr>, Some (Request_GetAccount, Account adr), [ShowStatus ''Loading Balance List''])
      else (f, None, []))"

definition SetAddress_answer ::
  "(bytes \<Rightarrow> bytes) \<Rightarrow> string \<Rightarrow> bytes \<Rightarrow> account \<Rightarrow> balance_form \<Rightarrow> (balance_form \<times> (NetworkRequestType \<times> payload) \<times> ui list) result" where
  "SetAddress_answer sha account_name adr a f =
     rbind (UpdateBalance sha account_name a f) (\<lambda>f.
       Inr (f, (Request_AccountNetMessage, Account adr), [ShowContent ''balance_form'', AutoHideShowStatus '''']))"

section \<open>The lists of imported addresses\<close>

definition action_items :: "string set \<Rightarrow> string list" where
  "action_items addresses = sorted_list_of_set addresses"

definition ParseAddress :: "(bytes \<Rightarrow> bytes) \<Rightarrow> string \<Rightarrow> bytes result" where
  "ParseAddress sha adr =
     rbind (AddressDecodeBase58Check sha adr) (\<lambda>(valid, tron_add). Inr (if valid then tron_add else []))"

text \<open>The four forms behind the buttons.\<close>

record watch_forms =
  wf_send :: send_form
  wf_vote :: vote_form
  wf_freeze :: freeze_form
  wf_balance :: balance_form

definition send_action :: "(bytes \<Rightarrow> bytes) \<Rightarrow> string \<Rightarrow> watch_forms \<Rightarrow> (watch_forms \<times> (NetworkRequestType \<times> payload) option) result" where
  "send_action sha adr w =
     rbind (ParseAddress sha adr) (\<lambda>add.
       if add \<noteq> [] then (case UpdteAddress add (wf_send w) of (f, r) \<Rightarrow> Inr (w\<lparr>wf_send := f\<rparr>, Some r))
       else Inr (w, None))"

definition vote_action :: "form_env \<Rightarrow> string \<Rightarrow> watch_forms \<Rightarrow> (watch_forms \<times> action list) result" where
  "vote_action E adr w =
     rbind (ParseAddress (fe_sha E) adr) (\<lambda>add.
       if add \<noteq> [] then Inr (w\<lparr>wf_vote := (wf_vote w)\<lparr>vf_address := add\<rparr>\<rparr>, GetWitnessList E) else Inr (w, []))"

definition freeze_action :: "(bytes \<Rightarrow> bytes) \<Rightarrow> string \<Rightarrow> watch_forms \<Rightarrow> (watch_forms \<times> ui list) result" where
  "freeze_action sha adr w =
     rbind (ParseAddress sha adr) (\<lambda>add.
       if add \<noteq> [] then Inr (w\<lparr>wf_freeze := (wf_freeze w)\<lparr>ff_address := add\<rparr>\<rparr>, [ShowContent ''freeze_form'']) else Inr (w, []))"

definition balance_action ::
  "(bytes \<Rightarrow> bytes) \<Rightarrow> string \<Rightarrow> watch_forms \<Rightarrow> (watch_forms \<times> (NetworkRequestType \<times> payload) option \<times> ui list) result" where
  "balance_action sha adr w =
     rbind (ParseAddress sha adr) (\<lambda>add.
       if add \<noteq> [] then (case SetAddress add (wf_balance w) of (f, r, us) \<Rightarrow> Inr (w\<lparr>wf_balance := f\<rparr>, r, us))
       else Inr (w, None, []))"

section \<open>Importing\<close>

lemma decode_total: "\<exists>valid bs. AddressDecodeBase58Check sha s = Inr (valid, bs) \<and> (\<not> valid \<longrightarrow> bs = [])"
proof -
  obtain r where r: "DecodeBase58 s = Inr r" using DecodeBase58_cstr_returns by (auto simp: DecodeBase58_def)
  then show ?thesis
    by (cases r) (auto simp: AddressDecodeBase58Check_def DecodeBase58Check_def Let_def)
qed

text \<open>A text is an address if it decodes; \<open>lines\<close> are the pieces of the entry.\<close>

definition address_text :: "(bytes \<Rightarrow> bytes) \<Rightarrow> string \<Rightarrow> bool" where
  "address_text sha s \<longleftrightarrow> (\<exists>bs. AddressDecodeBase58Check sha s = Inr (True, bs))"

definition entry_lines :: "string \<Rightarrow> string list" where
  "entry_lines s = (if s = '''' then [] else map (cut_piece TRIM_WHITESPACE) (pieces (CHR 0x0D) s))"

lemma check_addresses_eq: "check_addresses sha as = Inr (\<forall>a \<in> set as. address_text sha a)"
proof (induction as)
  case (Cons a as)
  obtain v bs where "AddressDecodeBase58Check sha a = Inr (v, bs)" using decode_total by blast
  with Cons show ?case by (cases v) (auto simp: address_text_def)
qed simp

lemma ImportAddress_eq:
  "ImportAddress sha s imported =
     Inr (if \<forall>a \<in> set (entry_lines s). address_text sha a then ([], imported \<union> set (entry_lines s))
          else ([MessageBox ''Address format error.''], imported))"
  by (simp add: ImportAddress_def SplitString_def SplitStringT_def entry_lines_def split_char check_addresses_eq)

text \<open>C17: an entry of addresses is imported as a whole or not at all: if every line, trimmed, decodes, the
  lines are added, otherwise a message is shown and nothing is; so every address in the list decodes and
  its button has the address it stands for.\<close>

theorem import_addresses:
  assumes "finite imported" "\<forall>a \<in> imported. address_text sha a"
  shows "\<exists>us imported'. ImportAddress sha s imported = Inr (us, imported')
    \<and> imported' = (if us = [] then imported \<union> set (entry_lines s) else imported)
    \<and> (us = [] \<longleftrightarrow> (\<forall>a \<in> set (entry_lines s). address_text sha a))
    \<and> set (action_items imported') = imported' \<and> distinct (action_items imported')
    \<and> (\<forall>a \<in> imported'. \<exists>adr. AddressDecodeBase58Check sha a = Inr (True, adr) \<and> ParseAddress sha a = Inr adr)"
proof -
  have p: "\<exists>adr. AddressDecodeBase58Check sha a = Inr (True, adr) \<and> ParseAddress sha a = Inr adr" if "address_text sha a" for a
    using that by (auto simp: address_text_def ParseAddress_def)
  have "finite (imported \<union> set (entry_lines s))" using assms(1) by simp
  with assms p show ?thesis by (cases "\<forall>a \<in> set (entry_lines s). address_text sha a") (auto simp: ImportAddress_eq action_items_def)
qed

text \<open>A line break at the end of the entry refuses it: the empty line after it is not an address.\<close>

theorem import_trailing_line:
  "ImportAddress sha (s @ [CHR 0x0D] @ replicate n (CHR 0x0A)) imported = Inr ([MessageBox ''Address format error.''], imported)"
proof -
  have e: "pieces c (s @ c # t) = pieces c s @ pieces c t" for c t
    by (induction s) (auto split: list.splits)
  have "CHR 0x0D \<notin> set (replicate n (CHR 0x0A))" by simp
  then have "pieces (CHR 0x0D) (replicate n (CHR 0x0A)) = [replicate n (CHR 0x0A)]" by (rule pieces_none)
  moreover have "cut_piece TRIM_WHITESPACE (replicate n (CHR 0x0A)) = ''''"
  proof -
    have "set (replicate n (CHR 0x0A)) \<subseteq> set kWhitespaceASCII" by (auto simp: kWhitespaceASCII_def)
    then have "strip kWhitespaceASCII (replicate n (CHR 0x0A)) = []" by (simp only: strip_Nil)
    then show ?thesis unfolding cut_piece_def trim_piece by (simp only: Let_def dropWhile.simps rev.simps if_cancel if_True refl) (simp add: trim_bits)
  qed
  ultimately have "'''' \<in> set (entry_lines (s @ [CHR 0x0D] @ replicate n (CHR 0x0A)))"
    by (simp add: entry_lines_def e)
  moreover have "\<not> address_text sha ''''"
  proof -
    have "DecodeBase58 '''' = Inr (Some [])" by code_simp
    then show ?thesis by (simp add: address_text_def AddressDecodeBase58Check_def DecodeBase58Check_def)
  qed
  ultimately show ?thesis by (auto simp: ImportAddress_eq)
qed

section \<open>One answer for two addresses\<close>

text \<open>A request function run through by the window's thread while the other thread waits.\<close>

definition submit :: "NetworkRequestType \<Rightarrow> net \<Rightarrow> net" where
  "submit t s = (rpc_continue ^^ 5) (rpc_begin t s)"

lemma submit_accepted:
  assumes "calling s = None" "lastCallType s \<noteq> t" "GetRequestContext t s = None"
  shows "\<exists>c. submit t s = s\<lparr>next_id := Suc (next_id s), next_context := Suc (next_context s), lastCallType := t,
      cancelled := (case GetRequestContext (lastCallType s) s of None \<Rightarrow> cancelled s | Some c \<Rightarrow> c # cancelled s),
      requestContextPool := al_put t c (requestContextPool s), accepted := accepted s @ [next_id s],
      tasks := tasks s @ [Rpc \<lparr>req_id = next_id s, req_type = t, req_context = c\<rparr>]\<rparr>"
proof -
  have n: "(5 :: nat) = Suc (Suc (Suc (Suc (Suc 0))))" by simp
  show ?thesis
    using assms
    by (intro exI [of _ "next_context s"], cases "GetRequestContext (lastCallType s) s")
       (simp_all add: submit_def n rpc_begin_def rpc_continue_def Let_def GetRequestContext_def TryCancel_def
         RegisterRequestContext_def PostTask_def)
qed

text \<open>The form of balances shows the balances that are answered under the address that was chosen last:
  while the request for one account is in flight the request for the next is dropped as a duplicate, so
  the first account's balances appear under the second address.\<close>

theorem balance_of_another:
  assumes "a \<noteq> []" "b \<noteq> []" "calling s = None" "lastCallType s \<noteq> Request_GetAccount" "GetRequestContext Request_GetAccount s = None"
    and "AddressEncodeBase58Check sha b = Inr label"
  shows "\<exists>f1 f2 us i s1 r f3 us'. SetAddress a f = (f1, Some (Request_GetAccount, Account a), us)
    \<and> SetAddress b f1 = (f2, Some (Request_GetAccount, Account b), us)
    \<and> s1 = submit Request_GetAccount s \<and> accepted s1 = accepted s @ [i] \<and> accepted (submit Request_GetAccount s1) = accepted s1
    \<and> tasks (submit Request_GetAccount s1) = tasks s1
    \<and> SetAddress_answer sha account_name a acc f2 = Inr (f3, r, us') \<and> bf_label f3 = label \<and> bf_tokens f3 = balance_rows acc"
proof -
  obtain c where s1: "submit Request_GetAccount s = s\<lparr>next_id := Suc (next_id s), next_context := Suc (next_context s), lastCallType := Request_GetAccount,
      cancelled := (case GetRequestContext (lastCallType s) s of None \<Rightarrow> cancelled s | Some c \<Rightarrow> c # cancelled s),
      requestContextPool := al_put Request_GetAccount c (requestContextPool s), accepted := accepted s @ [next_id s],
      tasks := tasks s @ [Rpc \<lparr>req_id = next_id s, req_type = Request_GetAccount, req_context = c\<rparr>]\<rparr>"
    using submit_accepted [OF assms(3-5)] by blast
  have stay: "(rpc_continue ^^ n) s' = s'" if "calling s' = None" for n s'
    by (induction n) (simp_all add: rpc_continue_def that)
  have "submit Request_GetAccount s1 = s1\<lparr>next_id := Suc (next_id s1)\<rparr>" if "s1 = submit Request_GetAccount s" for s1
    using assms(3) stay [of "s1\<lparr>next_id := Suc (next_id s1)\<rparr>" 5]
    by (simp add: submit_def [of _ s1] rpc_begin_def) (simp add: that s1)
  then show ?thesis
    using assms(1,2,6) s1 by (simp add: SetAddress_def SetAddress_answer_def UpdateBalance_def)
qed

text \<open>Any payload passes as an address once it is written with its checksum, of whatever length and with
  whatever prefix, so also an address of another currency.\<close>

theorem any_payload_accepted:
  assumes "\<forall>m. length (sha m) = 32"
  shows "\<exists>s. AddressEncodeBase58Check sha bs = Inr s \<and> CheckAddress sha s = Inr (True, bs) \<and> address_text sha s
    \<and> ParseAddress sha s = Inr bs"
proof -
  obtain s where s: "EncodeBase58Check sha bs = Inr s" "DecodeBase58Check sha s = Inr (True, bs)"
    using Base58Check_roundtrip' [OF assms] by blast
  have "DecodeBase58Check sha '''' = Inr (False, [])"
  proof -
    have "DecodeBase58 '''' = Inr (Some [])" by code_simp
    then show ?thesis by (simp add: DecodeBase58Check_def)
  qed
  with s have "s \<noteq> ''''" by auto
  with s show ?thesis
    by (simp add: AddressEncodeBase58Check_def AddressDecodeBase58Check_def CheckAddress_def address_text_def ParseAddress_def)
qed

section \<open>Witnesses\<close>

theorem any_payload_accepted_witness:
  "\<exists>s. CheckAddress (\<lambda>_. replicate 32 0) s = Inr (True, 0 # replicate 20 3) \<and> ParseAddress (\<lambda>_. replicate 32 0) s = Inr (0 # replicate 20 3)"
  using any_payload_accepted [of "\<lambda>_. replicate 32 0" "0 # replicate 20 3"] by auto

theorem import_addresses_witness:
  "\<exists>imported'. ImportAddress (\<lambda>_. replicate 32 0) ''11111'' {} = Inr ([], imported') \<and> imported' = {''11111''}"
proof -
  have l: "entry_lines ''11111'' = [''11111'']" by code_simp
  have "DecodeBase58Check (\<lambda>_. replicate 32 0) ''11111'' = Inr (True, [0])" by code_simp
  then have "address_text (\<lambda>_. replicate 32 0) ''11111''" by (simp add: address_text_def AddressDecodeBase58Check_def)
  with import_addresses [of "{}" "\<lambda>_. replicate 32 0" "''11111''"] show ?thesis by (auto simp: l)
qed

theorem balance_of_another_witness:
  "\<exists>f f3 r us' label. SetAddress_answer (\<lambda>_. replicate 32 0) ''Me'' [1] \<lparr>acc_address = [1], acc_balance = 5000000, acc_frozen = [], acc_asset = []\<rparr> f = Inr (f3, r, us')
    \<and> AddressEncodeBase58Check (\<lambda>_. replicate 32 0) [2] = Inr label \<and> bf_label f3 = label
    \<and> bf_tokens f3 = balance_rows \<lparr>acc_address = [1], acc_balance = 5000000, acc_frozen = [], acc_asset = []\<rparr>"
proof -
  obtain label where l: "AddressEncodeBase58Check (\<lambda>_. replicate 32 0) [2] = Inr label"
    using EncodeBase58_total by (auto simp: AddressEncodeBase58Check_def EncodeBase58Check_def Let_def)
  show ?thesis
    using balance_of_another [of "[1]" "[2]" net_fields, OF _ _ _ _ _ l] l
    by (simp add: net_fields_def GetRequestContext_def) metis
qed

end
