(* ===== verification/Sign_In.thy ===== *)
theory Sign_In
  imports Account_Facts
begin

text \<open>
  The operations of the account manager one after the other: an account is created, its user signs out
  and signs in again with the password.
\<close>

section \<open>What the store keeps of an import\<close>

text \<open>The keys that a password opens, whatever is cached.\<close>

definition opens :: "host \<Rightarrow> string \<Rightarrow> secret_store \<Rightarrow> bytes \<Rightarrow> bytes \<Rightarrow> bool" where
  "opens H pass s u sec \<longleftrightarrow> (\<exists>k. map_of (m_keys s) u = Some k \<and> decrypt H (encryptedKey k) pass = Inr sec)"

definition refuses :: "host \<Rightarrow> string \<Rightarrow> secret_store \<Rightarrow> bytes \<Rightarrow> bool" where
  "refuses H pass s u \<longleftrightarrow> opens H pass s u []"

lemma opens_keys: "m_keys s = m_keys t \<Longrightarrow> opens H pass s = opens H pass t"
  by (simp add: opens_def fun_eq_iff)

lemma import_opens:
  assumes "importSecret H r salt iv sec pass s = (Inr u, s')" "length iv = 16"
    "js_roundtrip (jlib H)" "kdf_lengths (crypto H)" "ctr_inverse (crypto H)"
  shows "u = r \<and> opens H pass s' u sec \<and> (\<forall>v. v \<noteq> u \<longrightarrow> (\<forall>p x. opens H p s' v x = opens H p s v x))
    \<and> set (ss_keys s') = insert u (set (ss_keys s))"
proof -
  obtain e kp where e: "encrypt H salt iv sec pass PBKDF2_SHA256 = Inr e"
    and "KeyPair_of (crypto H) (hash_of_bytes 32 FailIfDifferent sec) = Inr kp"
    and s': "u = r" "s' = save H (s\<lparr>m_cached := al_put r sec (m_cached s),
        m_keys := al_put r \<lparr>encryptedKey = e, filename = toUUID r, address = m_address kp\<rparr> (m_keys s)\<rparr>)"
    using assms(1) by (auto simp: importSecret_def rbind_eq_Inr split: sum.splits)
  have "decrypt H e pass = Inr sec" by (rule decrypt_encrypt' [OF e assms(2-5)])
  moreover have "set (ss_keys s') = insert u (set (ss_keys s))"
    by (simp add: s' ss_keys_def save_def save_to_simps)
  ultimately show ?thesis by (auto simp: s' opens_def map_of_save)
qed

lemma km_import_store:
  assumes "km_import H r salt iv sec name pass hint km = (Inr u, km')" "KeyPair_of (crypto H) sec = Inr kp"
  shows "\<exists>st. importSecret H r salt iv sec pass (m_store km) = (Inr u, st) \<and> m_keys (m_store km') = m_keys st"
proof -
  obtain h where h: "hashPassword H km pass = Inr h"
    using assms by (cases "hashPassword H km pass") (simp_all add: km_import_def)
  define k1 where "k1 = km\<lparr>m_cachedPasswords := al_put h pass (m_cachedPasswords km),
     m_passwordHint := al_put h hint (m_passwordHint km)\<rparr>"
  obtain i st where i: "importSecret H r salt iv sec pass (m_store km) = (i, st)" by fastforce
  have "i = Inr u" "km' = snd (km_write H (relate (m_address kp) u (k1\<lparr>m_store := st,
        m_keyInfo := al_put (m_address kp) \<lparr>passHash = h, accountName = name, passwordHint = ''''\<rparr> (m_keyInfo km)\<rparr>)))"
    using assms(1,2) h i
    by (auto simp: km_import_def sbind_def cachePassword_total [OF h] k1_def split: prod.splits sum.splits)
  then show ?thesis using i by (simp add: km_write_fields relate_def)
qed

section \<open>What signing out keeps\<close>

lemma km_clear_store:
  "m_keys (m_store (snd (km_clear H a km))) = m_keys (m_store km)" "m_cached (m_store (snd (km_clear H a km))) = []"
  by (simp_all add: km_clear_def snd_sbind_return sbind_def [of "smodify _"] smodify_def km_write_fields forget_def clearCache_def)

section \<open>Searching for the key\<close>

lemma store_secret_refuses:
  "m_cached (m_store km) = [] \<Longrightarrow> refuses H pass (m_store km) v \<Longrightarrow> store_secret H v pass km = (Inr [], km)"
  by (auto simp: store_secret_def secret_uuid_def refuses_def opens_def)

lemma store_secret_opens:
  assumes "m_cached (m_store km) = []" "opens H pass (m_store km) u sec" "sec \<noteq> []" "length sec = 32"
    "KeyPair_of (crypto H) sec = Inr kp"
  shows "\<exists>km'. store_secret H u pass km = (Inr sec, km') \<and> map_of (m_cached (m_store km')) u = Some sec
    \<and> m_keysFileKey km' = m_keysFileKey km"
proof -
  obtain a where "toAddress_secret (crypto H) sec = Inr a"
    using assms(5) by (auto simp: KeyPair_of_def toAddress_secret_def rbind_eq_Inr)
  with assms show ?thesis
    by (auto simp: store_secret_def secret_uuid_def opens_def hash_of_bytes_def Let_def)
qed

lemma importExisting_cached:
  assumes "importExisting H u info pass hint km = (Inr (), km')" "map_of (m_cached (m_store km)) u = Some sec"
    "length sec = 32" "KeyPair_of (crypto H) sec = Inr kp"
  shows "map_of (m_uuidLookup km') u = Some (m_address kp)"
proof -
  have ne: "sec \<noteq> []" using assms(3) by auto
  obtain h where h: "hashPassword H km pass = Inr h"
    using assms ne by (cases "hashPassword H km pass") (auto simp: importExisting_def secret_uuid_def hash_of_bytes_def)
  have "\<exists>km2. importExisting_info H u info (m_address kp) h hint km2 = (Inr (), km')"
    using assms ne h cachePassword_total [OF h]
    by (auto simp: importExisting_def secret_uuid_def hash_of_bytes_def sbind_def split: if_splits prod.splits)
  then obtain km2 where k: "importExisting_info H u info (m_address kp) h hint km2 = (Inr (), km')" by blast
  from importExisting_info_fields [of H u info "m_address kp" h hint km2, unfolded k] show ?thesis by simp
qed

lemma login_loop_finds:
  assumes "keyManager am = Some km" "m_cached (m_store km) = []" "opens (env_host E) pass (m_store km) u sec"
    "length sec = 32" "KeyPair_of (crypto (env_host E)) sec = Inr kp"
  shows "u \<in> set us \<Longrightarrow> \<forall>v \<in> set us. v = u \<or> refuses (env_host E) pass (m_store km) v
    \<Longrightarrow> login_loop E pass us am = (Inr adr, am') \<Longrightarrow> adr = ToTronAddress (m_address kp) \<and> tron_address am' = adr
      \<and> AddressEncodeBase58Check (lib_sha256 (crypto (env_host E))) adr = Inr (encoded_address am')"
proof (induction us)
  case (Cons v us)
  let ?H = "env_host E"
  have ne: "sec \<noteq> []" using assms(4) by auto
  show ?case
  proof (cases "v = u")
    case False
    with Cons.prems have "store_secret ?H v pass km = (Inr [], km)" by (simp add: store_secret_refuses assms(2))
    with Cons assms(1) False show ?thesis by (auto simp: sbind_def on_keys_def)
  next
    case True
    obtain km1 where s: "store_secret ?H u pass km = (Inr sec, km1)" "map_of (m_cached (m_store km1)) u = Some sec"
      using store_secret_opens [OF assms(2,3) ne assms(4,5)] by blast
    obtain r km2 where i: "importExisting ?H u '''' pass '''' km1 = (r, km2)" by fastforce
    have r: "r = Inr ()"
      using Cons.prems(3) True s(1) i ne assms(1) by (cases r) (auto simp: Let_def sbind_def on_keys_def)
    from importExisting_cached [OF i [unfolded r] s(2) assms(4,5)] have u: "map_of (m_uuidLookup km2) u = Some (m_address kp)" .
    obtain enc where e: "AddressEncodeBase58Check (lib_sha256 (crypto ?H)) (ToTronAddress (m_address kp)) = Inr enc"
      using EncodeBase58_total by (auto simp: AddressEncodeBase58Check_def EncodeBase58Check_def Let_def)
    from Cons.prems(3) True s(1) i r ne assms(1) u e show ?thesis
      by (auto simp: Let_def sbind_def on_keys_def ask_keys_def km_address_def set_pair_def)
  qed
qed simp

lemma login_loop_refused:
  "keyManager am = Some km \<Longrightarrow> m_cached (m_store km) = [] \<Longrightarrow> \<forall>v \<in> set us. refuses (env_host E) pass (m_store km) v
    \<Longrightarrow> login_loop E pass us am = (Inr [], am)"
  by (induction us) (simp_all add: Let_def sbind_def on_keys_def store_secret_refuses)

section \<open>Signing in again\<close>

lemma created_then_out:
  assumes "CreateAccount E R name password am = (Inr (), am1)" "Logout E am1 = (Inr (), am2)"
    and "length (rnd_secret R) = 32" "length (rnd_iv R) = 16"
    and "js_roundtrip (jlib (env_host E))" "kdf_lengths (crypto (env_host E))" "ctr_inverse (crypto (env_host E))"
    and "keyManager (OpenWallet E am) = Some km"
  obtains k km3 where "KeyPair_of (crypto (env_host E)) (m_secret k) = Inr k" "length (m_secret k) = 32" "length (m_address k) = 20"
    "tron_address am1 = ToTronAddress (m_address k)" "tron_address am2 = []" "keyManager am2 = Some km3"
    "AddressEncodeBase58Check (lib_sha256 (crypto (env_host E))) (tron_address am1) = Inr (encoded_address am1)"
    "m_cached (m_store km3) = []" "opens (env_host E) password (m_store km3) (rnd_uuid R) (m_secret k)"
    "set (ss_keys (m_store km3)) = insert (rnd_uuid R) (set (ss_keys (m_store km)))"
    "\<And>v p x. v \<noteq> rnd_uuid R \<Longrightarrow> opens (env_host E) p (m_store km3) v x = opens (env_host E) p (m_store km) v x"
proof -
  let ?H = "env_host E"
  obtain k where k: "MakeKey (crypto ?H) (rnd_secret R) = Inr k"
    using assms(1) by (cases "MakeKey (crypto ?H) (rnd_secret R)") (simp_all add: CreateAccount_def Let_def)
  note p = MakeKey_pair [OF k assms(3)]
  obtain r km1 where i: "km_import ?H (rnd_uuid R) (rnd_salt R) (rnd_iv R) (m_secret k) name password '''' km = (r, km1)"
    by fastforce
  obtain u where u: "r = Inr u" using assms(1,8) i k by (cases r) (auto simp: CreateAccount_def Let_def sbind_def on_keys_def)
  obtain enc where enc: "AddressEncodeBase58Check (lib_sha256 (crypto ?H)) (ToTronAddress (m_address k)) = Inr enc"
    using EncodeBase58_total by (auto simp: AddressEncodeBase58Check_def EncodeBase58Check_def Let_def)
  define km2 where "km2 = (if km_exists ?H km1 then km1 else snd (create ?H (rnd_default R) (rnd_keys_salt R) password km1))"
  have am1: "am1 = (set_pair (ToTronAddress (m_address k)) enc (OpenWallet E am))\<lparr>keyManager := Some km2\<rparr>"
    using assms(1,8) i k u enc
    by (auto simp: CreateAccount_def Let_def sbind_def on_keys_def ask_keys_def set_pair_def km2_def split: prod.splits if_splits)
  obtain st where st: "importSecret ?H (rnd_uuid R) (rnd_salt R) (rnd_iv R) (m_secret k) password (m_store km) = (Inr u, st)"
    "m_keys (m_store km2) = m_keys st"
    using km_import_store [OF i [unfolded u], where kp = k] p by (auto simp: km2_def create_keeps)
  define km3 where "km3 = snd (km_clear ?H (m_address k) km2)"
  have am2: "am2 = (set_pair [] '''' am1)\<lparr>keyManager := Some km3\<rparr>"
    using assms(2) p by (auto simp: Logout_def am1 set_pair_def ToAddress_Tron sbind_def on_keys_def km3_def split: prod.splits sum.splits)
  have c: "m_cached (m_store km3) = []" "m_keys (m_store km3) = m_keys st"
    by (simp_all add: km3_def km_clear_store st(2))
  note imp = import_opens [OF st(1) assms(4-7)]
  have o: "opens ?H x (m_store km3) = opens ?H x st" "ss_keys (m_store km3) = ss_keys st" for x
    using opens_keys [OF c(2), of ?H] c(2) by (simp_all add: ss_keys_def)
  have i: "opens ?H password st (rnd_uuid R) (m_secret k)" "set (ss_keys st) = insert (rnd_uuid R) (set (ss_keys (m_store km)))"
    "\<And>v p x. v \<noteq> rnd_uuid R \<Longrightarrow> opens ?H p st v x = opens ?H p (m_store km) v x"
    using imp by blast+
  show thesis
    by (rule that [of k km3]) (use p i o c enc am2 in \<open>simp_all add: am1 set_pair_def\<close>)
qed


section \<open>A concrete session\<close>

lemma importExisting_returns:
  assumes "\<not> hash_bool (m_keysFileKey km)" "map_of (m_cached (m_store km)) u = Some sec" "length sec = 32"
    "KeyPair_of (crypto H) sec = Inr kp" "pbkdf2_total (crypto H)"
  shows "\<exists>km'. importExisting H u info pass hint km = (Inr (), km')"
proof -
  have ne: "sec \<noteq> []" using assms(3) by auto
  obtain h where h: "hashPassword H km pass = Inr h" using hashPassword_total [OF assms(5)] by blast
  show ?thesis
    using assms ne h cachePassword_total [OF h]
    by (simp add: importExisting_def secret_uuid_def hash_of_bytes_def sbind_def importExisting_info_def km_write_def)
qed

lemma toy_login:
  assumes "keyManager am = Some km" "m_keysFileKey km = hash_empty 16" "ss_keys (m_store km) = u # us" "m_cached (m_store km) = []"
    "opens toy_host pass (m_store km) u sec" "length sec = 32" "KeyPair_of (crypto toy_host) sec = Inr kp"
  shows "\<exists>am'. Login toy_env pass am = (Inr '''', am')"
proof -
  have ne: "sec \<noteq> []" using assms(6) by auto
  obtain km1 where s: "store_secret toy_host u pass km = (Inr sec, km1)" "map_of (m_cached (m_store km1)) u = Some sec"
    "m_keysFileKey km1 = hash_empty 16"
    using store_secret_opens [OF assms(4,5) ne assms(6,7)] assms(2) by auto
  have "\<not> hash_bool (m_keysFileKey km1)" by (simp add: s(3) hash_bool_def hash_empty_def list_ex_iff)
  from importExisting_returns [OF this s(2) assms(6,7) toy_pbkdf2_total] obtain km2
    where i: "importExisting toy_host u '''' pass '''' km1 = (Inr (), km2)" by blast
  have u: "map_of (m_uuidLookup km2) u = Some (m_address kp)" by (rule importExisting_cached [OF i s(2) assms(6,7)])
  obtain enc where e: "AddressEncodeBase58Check (lib_sha256 (crypto toy_host)) (ToTronAddress (m_address kp)) = Inr enc"
    using EncodeBase58_total by (auto simp: AddressEncodeBase58Check_def EncodeBase58Check_def Let_def)
  obtain b km3 where ld: "km_load toy_host pass km2 = (b, km3)" by fastforce
  show ?thesis
    using assms(1,3) s(1) i u e ne ld
    by (simp add: Login_def OpenWallet_def sbind_def ask_keys_def on_keys_def toy_env_host Let_def km_address_def
        set_pair_def ToTronAddress_def)
qed

lemma toy_logout:
  assumes "keyManager am = Some km" "m_keysFileKey km = hash_empty 16" "ToAddress (tron_address am) = Inr a"
  shows "\<exists>am' km'. Logout E am = (Inr (), am') \<and> keyManager am' = Some km' \<and> m_keysFileKey km' = hash_empty 16"
  using assms
  by (auto simp: Logout_def sbind_def on_keys_def km_clear_def km_write_def forget_def set_pair_def hash_bool_def hash_empty_def list_ex_iff)


end
