(* ===== verification/Main_Window.thy ===== *)
theory Main_Window
  imports Watch_Wallet Offline_Forms Sign_In Token_Forms
begin

text \<open>
  The windows of wallet/gui: the buttons of the main window and of the cold wallet's (main_window.cpp,
  cold_main_window.cpp), the list of transactions (transactions_form.cpp), creating a wallet, logging in
  and the account bar (register_form.cpp, login_form.cpp, account_manager_bar.cpp), the generated
  addresses with their private keys (address_list_form.cpp). Only what the user sees, what is requested
  of the nodes and what is asked of the account manager is modelled; a form is shown by its name.
\<close>

section \<open>The list of transactions\<close>

record transaction_data =
  td_time :: string
  td_in :: bool
  td_to :: string
  td_from :: string
  td_value :: string

text \<open>\<open>(int)\<close> of a double truncates; out of range it is undefined.\<close>

definition to_int :: "rat \<Rightarrow> int result" where
  "to_int x =
     (let t = (if 0 \<le> x then floor x else ceiling x)
      in if - (2 ^ 31) \<le> t \<and> t < 2 ^ 31 then Inr t else Inl OutOfRange)"

text \<open>One contract: the conversion of a time to text is a parameter.\<close>

definition transaction_row ::
  "offline_env \<Rightarrow> (64 word \<Rightarrow> string) \<Rightarrow> bool \<Rightarrow> 64 word \<Rightarrow> bytes \<Rightarrow> transaction_data list result" where
  "transaction_row E GetTime incoming timestamp c =
     (case (any_type (oe_contract E c), any_unpack (oe_contract E c)) of
        (Type_TransferContract, Some (TransferContract owner to_adr amount)) \<Rightarrow>
          rbind (AddressEncodeBase58Check (fe_sha (oe_form E)) to_adr) (\<lambda>t.
          rbind (AddressEncodeBase58Check (fe_sha (oe_form E)) owner) (\<lambda>f.
          rbind (to_int (ToTrx amount)) (\<lambda>v.
            Inr [\<lparr>td_time = GetTime timestamp, td_in = incoming, td_to = t, td_from = f, td_value = IntToString v\<rparr>])))
      | _ \<Rightarrow> Inr [])"

fun push_contracts ::
  "offline_env \<Rightarrow> (64 word \<Rightarrow> string) \<Rightarrow> bool \<Rightarrow> 64 word \<Rightarrow> bytes list \<Rightarrow> transaction_data list result" where
  "push_contracts E GetTime incoming timestamp [] = Inr []"
| "push_contracts E GetTime incoming timestamp (c # cs) =
     rbind (transaction_row E GetTime incoming timestamp c) (\<lambda>rows.
     rbind (push_contracts E GetTime incoming timestamp cs) (\<lambda>rest. Inr (rows @ rest)))"

fun PushTransactionData ::
  "offline_env \<Rightarrow> (64 word \<Rightarrow> string) \<Rightarrow> tx_message list \<Rightarrow> bool \<Rightarrow> transaction_data list result" where
  "PushTransactionData E GetTime [] incoming = Inr []"
| "PushTransactionData E GetTime (t # ts) incoming =
     rbind (push_contracts E GetTime incoming (raw_timestamp (tx_raw t)) (raw_contracts (tx_raw t))) (\<lambda>rows.
     rbind (PushTransactionData E GetTime ts incoming) (\<lambda>rest. Inr (rows @ rest)))"

text \<open>\<open>datas_\<close> is what was pushed; the rows are what the list shows below its head.\<close>

record transactions_form =
  tf_datas :: "transaction_data list"
  tf_rows :: "transaction_data list"

definition tf_Push :: "transaction_data list \<Rightarrow> transactions_form \<Rightarrow> transactions_form" where
  "tf_Push datas f = f\<lparr>tf_datas := tf_datas f @ datas\<rparr>"

definition UpdateTransaction :: "transactions_form \<Rightarrow> transactions_form" where
  "UpdateTransaction f = f\<lparr>tf_rows := tf_datas f, tf_datas := []\<rparr>"

text \<open>What the two callbacks of \<open>ShowTransactions\<close> do to the form.\<close>

definition from_this_answer ::
  "offline_env \<Rightarrow> (64 word \<Rightarrow> string) \<Rightarrow> tx_message list \<Rightarrow> transactions_form \<Rightarrow> transactions_form result" where
  "from_this_answer E GetTime l f = rbind (PushTransactionData E GetTime l False) (\<lambda>rows. Inr (tf_Push rows f))"

definition to_this_answer ::
  "offline_env \<Rightarrow> (64 word \<Rightarrow> string) \<Rightarrow> tx_message list \<Rightarrow> transactions_form \<Rightarrow> transactions_form result" where
  "to_this_answer E GetTime l f = rbind (PushTransactionData E GetTime l True) (\<lambda>rows. Inr (UpdateTransaction (tf_Push rows f)))"

section \<open>The buttons of the main window\<close>

datatype button =
  BTN_CONNECTION | BTN_SEND | BTN_RECEIVE | BTN_TRANSACTIONS | BTN_BALANCELIST | BTN_VOTE
| BTN_TOKEN_ISSUE | BTN_TOKEN_LIST | BTN_MY_TOKEN
| BTN_OFFLINE_SEND | BTN_OFFLINE_VOTE | BTN_OFFLINE_FREEZE
| BTN_OFFLINE_LOAD_TRANSACTION | BTN_OFFLINE_LOAD_VOTES | BTN_OFFLINE_LOAD_FREEZE
| BTN_WATCHING_WALLET_IMPORT | BTN_WATCHING_WALLET_BALANCE_LIST
| BTN_ACCOUNT | BTN_TOKENS | BTN_OFFLINE_TRANSACTION | BTN_WATCHING_WALLET

fun ShowMenu_of :: "button \<Rightarrow> bool \<Rightarrow> Form_Flow.action list" where
  "ShowMenu_of BTN_OFFLINE_TRANSACTION show = [Ui (ShowMenu ''offline'' show)]"
| "ShowMenu_of BTN_WATCHING_WALLET show = [Ui (ShowMenu ''watching_wallet'' show)]"
| "ShowMenu_of BTN_ACCOUNT show = [Ui (ShowMenu ''account'' show)]"
| "ShowMenu_of BTN_TOKENS show = [Ui (ShowMenu ''tokens'' show)]"
| "ShowMenu_of _ show = []"

text \<open>\<open>CheckLogin\<close> as a list of actions: the message that it posts to the window.\<close>

definition login_message :: "account_manager \<Rightarrow> Form_Flow.action list" where
  "login_message am = (if snd (CheckLogin am) then [Ui (AutoHideShowStatus ''Please Login first'')] else [])"

text \<open>What the callbacks do to their forms is modelled with the forms.\<close>

definition ShowBalanceList :: "account_manager \<Rightarrow> Form_Flow.action list" where
  "ShowBalanceList am =
     (if tron_address am \<noteq> [] then
        [Request Request_GetAccount (Account (tron_address am)) (on_account (\<lambda>_.
           [Request Request_AccountNetMessage (Account (tron_address am)) (\<lambda>_. []),
            Ui (ShowContent ''balance_form''), Ui (AutoHideShowStatus '''')])),
         Ui (ShowStatus ''Loading Balance List'')]
      else [])"

definition issue_list :: "form_env \<Rightarrow> string \<Rightarrow> asset_issue list \<Rightarrow> Form_Flow.action list" where
  "issue_list E form l =
     (case UpdateIssueList E l of
        Inl e \<Rightarrow> [Raise e]
      | Inr rows \<Rightarrow> [Ui (ShowContent form), Ui (AutoHideShowStatus '''')])"

definition ShowTokenList :: "form_env \<Rightarrow> Form_Flow.action list" where
  "ShowTokenList E =
     [Request Request_GetAssetIssueList EmptyMessage (on_issues (issue_list E ''token_list_form'')),
      Ui (ShowStatus ''Loading token list'')]"

definition ShowMyTokenList :: "form_env \<Rightarrow> bytes \<Rightarrow> Form_Flow.action list" where
  "ShowMyTokenList E adr =
     [Request Request_GetAssetIssueByAccount (Account adr) (on_issues (\<lambda>l.
        if l = [] then [Ui (AutoHideShowStatus ''No token list'')] else issue_list E ''mytoken_list_form'' l)),
      Ui (ShowStatus ''Loading My token list'')]"

definition ShowTransactions :: "bytes \<Rightarrow> Form_Flow.action list" where
  "ShowTransactions adr =
     [Request Request_getTransactionsFromThis (AccountPaginated adr 0 1000) (on_transactions (\<lambda>_.
        [Request Request_getTransactionsToThis (AccountPaginated adr 0 1000) (on_transactions (\<lambda>_.
           [Ui (ShowContent ''transactions_form''), Ui (AutoHideShowStatus '''')]))])),
      Ui (ShowStatus ''Loading Transactions'')]"

definition needs_login :: "button \<Rightarrow> bool" where
  "needs_login b \<longleftrightarrow> b = BTN_SEND \<or> b = BTN_RECEIVE \<or> b = BTN_TRANSACTIONS \<or> b = BTN_BALANCELIST
     \<or> b = BTN_TOKEN_ISSUE \<or> b = BTN_MY_TOKEN"

fun button_action :: "form_env \<Rightarrow> account_manager \<Rightarrow> string set \<Rightarrow> button \<Rightarrow> Form_Flow.action list" where
  "button_action E am imported BTN_CONNECTION = [Ui (ShowContent ''connection_form'')]"
| "button_action E am imported BTN_SEND =
     [Request Request_GetAccount (Account (tron_address am)) (on_account (\<lambda>_. [Ui (ShowContent ''send_form'')]))]"
| "button_action E am imported BTN_RECEIVE = [Ui (ShowContent ''receive_form'')]"
| "button_action E am imported BTN_TRANSACTIONS = ShowTransactions (tron_address am)"
| "button_action E am imported BTN_BALANCELIST = ShowBalanceList am"
| "button_action E am imported BTN_VOTE = GetWitnessList E"
| "button_action E am imported BTN_TOKEN_ISSUE = [Ui (ShowContent ''issue_form'')]"
| "button_action E am imported BTN_TOKEN_LIST = ShowTokenList E"
| "button_action E am imported BTN_MY_TOKEN = ShowMyTokenList E (tron_address am)"
| "button_action E am imported BTN_OFFLINE_SEND = [Ui (ShowAddresses ''offline_send_form'' (action_items imported))]"
| "button_action E am imported BTN_OFFLINE_VOTE = [Ui (ShowAddresses ''offline_vote_form'' (action_items imported))]"
| "button_action E am imported BTN_OFFLINE_FREEZE = [Ui (ShowAddresses ''offline_freeze_form'' (action_items imported))]"
| "button_action E am imported BTN_OFFLINE_LOAD_TRANSACTION = [Ui (OpenFileDlg ''transaction'')]"
| "button_action E am imported BTN_OFFLINE_LOAD_VOTES = [Ui (OpenFileDlg ''Vote'')]"
| "button_action E am imported BTN_OFFLINE_LOAD_FREEZE = [Ui (OpenFileDlg ''freeze'')]"
| "button_action E am imported BTN_WATCHING_WALLET_IMPORT = [Ui (ShowContent ''address_import_form'')]"
| "button_action E am imported BTN_WATCHING_WALLET_BALANCE_LIST = [Ui (ShowAddresses ''balance_list_form'' (action_items imported))]"
| "button_action E am imported _ = []"

definition OnUIBTNClick :: "form_env \<Rightarrow> account_manager \<Rightarrow> string set \<Rightarrow> button \<Rightarrow> Form_Flow.action list" where
  "OnUIBTNClick E am imported b =
     ShowMenu_of b True @
     (if needs_login b \<and> \<not> fst (CheckLogin am) then login_message am else button_action E am imported b)"

section \<open>The account bar\<close>

text \<open>The text of the button and which of the two buttons is shown.\<close>

definition ShowSignOut :: "wallet_env \<Rightarrow> bool \<Rightarrow> (account_manager, string \<times> bool \<times> bool) action" where
  "ShowSignOut E show = sbind (HasAccount E) (\<lambda>b. sreturn (if b then ''Login'' else ''New wallet / Login'', \<not> show, show))"

definition bar_register_login :: "wallet_env \<Rightarrow> (account_manager, Form_Flow.action list) action" where
  "bar_register_login E =
     sbind (HasAccount E) (\<lambda>b. sreturn [Ui (PostEvent (if b then ''Event_Show_Login'' else ''Event_Show_Register''))])"

text \<open>The event \<open>Event_AccountBar_Login\<close> has two arguments: logged in, and whether there is an account.\<close>

definition bar_sign_out :: "wallet_env \<Rightarrow> (account_manager, bool \<times> bool) action" where
  "bar_sign_out E = sbind (Logout E) (\<lambda>_. sbind (HasAccount E) (\<lambda>b. sreturn (False, b)))"

definition base_OnAccountBarLogin :: "wallet_env \<Rightarrow> bool \<times> bool \<Rightarrow> (account_manager, Form_Flow.action list) action" where
  "base_OnAccountBarLogin E ev =
     sbind (ShowSignOut E (fst ev)) (\<lambda>_. sreturn
       (if \<not> fst ev then [Ui (ShowContent (if snd ev then ''login_form'' else ''register_form''))] else []))"

definition main_OnAccountBarLogin :: "wallet_env \<Rightarrow> bool \<times> bool \<Rightarrow> (account_manager, Form_Flow.action list) action" where
  "main_OnAccountBarLogin E ev =
     sbind (base_OnAccountBarLogin E ev) (\<lambda>acts am. (Inr (acts @ (if fst ev then ShowBalanceList am else [])), am))"

section \<open>Creating a wallet and logging in\<close>

record register_form =
  rf_password :: string
  rf_confirm :: string
  rf_name :: string

definition GetPassword :: "register_form \<Rightarrow> string + (string \<times> string)" where
  "GetPassword f =
     (if rf_name f = '''' then Inl ''Please input wallet name''
      else if rf_password f = '''' \<or> rf_confirm f = '''' then Inl ''Please input password and confirm password''
      else if rf_password f \<noteq> rf_confirm f then Inl ''Password and Confirm password must same''
      else Inr (rf_name f, rf_password f))"

text \<open>The network thread calls the account manager and the callback; \<open>None\<close> is a form that is refused.\<close>

definition register_OnOk :: "wallet_env \<Rightarrow> account_random \<Rightarrow> register_form \<Rightarrow> (account_manager, (bool \<times> bool) option \<times> ui list) action" where
  "register_OnOk E R f =
     (case GetPassword f of
        Inl msg \<Rightarrow> sreturn (None, [MessageBox msg])
      | Inr (name, pass) \<Rightarrow>
          sbind (CreateAccount E R name pass) (\<lambda>_.
            sreturn (Some (True, False), [ShowStatus ''Registering'', UIShow False, AutoHideShowStatus ''Create success''])))"

definition login_OnOk :: "wallet_env \<Rightarrow> string \<Rightarrow> (account_manager, (bool \<times> bool) option \<times> ui list) action" where
  "login_OnOk E password =
     sbind (Login E password) (\<lambda>err. sreturn
       (if err = '''' then (Some (True, False), [ShowStatus ''Logging in'', AutoHideShowStatus ''Login success'', UIShow False])
        else (None, [ShowStatus ''Logging in'', AutoHideShowStatus err])))"

section \<open>The cold wallet's window\<close>

datatype cold_button =
  BTN_COLD_WALLET_LOAD_TRANSACTION | BTN_COLD_WALLET_LOAD_FREEZE | BTN_COLD_WALLET_ADDRESS_LIST | BTN_COLD_AUTHORIZE_VOTING

definition ShowAddressList :: "wallet_env \<Rightarrow> bytes list \<Rightarrow> (account_manager, Form_Flow.action list) action" where
  "ShowAddressList E uuids =
     sbind (GetAddresses E uuids) (\<lambda>l. sbind GetAccountName (\<lambda>title. sreturn [Ui (SetText title), Ui (ShowAddresses ''address_list_form'' l)]))"

definition cold_click :: "wallet_env \<Rightarrow> bytes list \<Rightarrow> cold_button \<Rightarrow> (account_manager, Form_Flow.action list) action" where
  "cold_click E uuids b am =
     (if \<not> fst (CheckLogin am) then (Inr (login_message am), am)
      else (case b of
        BTN_COLD_WALLET_LOAD_TRANSACTION \<Rightarrow> sbind (LoadAddresses E uuids) (\<lambda>_. sreturn [Ui (OpenFileDlg ''transaction'')]) am
      | BTN_COLD_WALLET_LOAD_FREEZE \<Rightarrow> sbind (LoadAddresses E uuids) (\<lambda>_. sreturn [Ui (OpenFileDlg ''freeze'')]) am
      | BTN_COLD_WALLET_ADDRESS_LIST \<Rightarrow> ShowAddressList E uuids am
      | BTN_COLD_AUTHORIZE_VOTING \<Rightarrow> sbind (LoadAddresses E uuids) (\<lambda>_. sreturn [Ui (OpenFileDlg ''Vote'')]) am))"

definition cold_OnAccountBarLogin :: "wallet_env \<Rightarrow> bytes list \<Rightarrow> bool \<times> bool \<Rightarrow> (account_manager, Form_Flow.action list) action" where
  "cold_OnAccountBarLogin E uuids ev =
     sbind (base_OnAccountBarLogin E ev) (\<lambda>acts. sbind (ShowAddressList E uuids) (\<lambda>more. sreturn (acts @ more)))"

text \<open>The button of an entry of the list shows its private key.\<close>

definition show_private_key :: "string \<Rightarrow> account_manager \<Rightarrow> string option" where
  "show_private_key adr am = (let b = LookupPrivate adr am in if b \<noteq> [] then Some (toHex b) else None)"

text \<open>The button of the balances that shows the private key of the account that is logged in; and the buttons
  that freeze and unfreeze.\<close>

definition show_own_key :: "wallet_env \<Rightarrow> (account_manager, string) action" where
  "show_own_key E am =
     sbind (slift (ToAddress (tron_address am))) (\<lambda>a. sbind (GetPrivate E a) (\<lambda>key. sreturn (toHex key))) am"

definition OnShowFreeze :: "form_env \<Rightarrow> account_manager \<Rightarrow> bool \<Rightarrow> freeze_form \<Rightarrow> freeze_form \<times> Form_Flow.action list" where
  "OnShowFreeze E am freeze f =
     (if freeze then (f\<lparr>ff_address := tron_address am\<rparr>, [Ui (ShowContent ''freeze_form'')])
      else (f, UnFreezeToken E (tron_address am)))"

section \<open>The list of transactions is complete\<close>

text \<open>The transfers of a list of transactions: time, sender, receiver and amount in drops.\<close>

definition transfer_of :: "offline_env \<Rightarrow> 64 word \<Rightarrow> bytes \<Rightarrow> (64 word \<times> bytes \<times> bytes \<times> 64 word) list" where
  "transfer_of E time c =
     (case (any_type (oe_contract E c), any_unpack (oe_contract E c)) of
        (Type_TransferContract, Some (TransferContract owner to_adr amount)) \<Rightarrow> [(time, owner, to_adr, amount)]
      | _ \<Rightarrow> [])"

definition transfers :: "offline_env \<Rightarrow> tx_message list \<Rightarrow> (64 word \<times> bytes \<times> bytes \<times> 64 word) list" where
  "transfers E ts = concat (map (\<lambda>t. concat (map (transfer_of E (raw_timestamp (tx_raw t))) (raw_contracts (tx_raw t)))) ts)"

definition trx :: "64 word \<Rightarrow> int" where
  "trx amount = sgn (sint amount) * (\<bar>sint amount\<bar> div 1000000)"

definition shown_row :: "offline_env \<Rightarrow> (64 word \<Rightarrow> string) \<Rightarrow> bool \<Rightarrow> 64 word \<times> bytes \<times> bytes \<times> 64 word \<Rightarrow> transaction_data \<Rightarrow> bool" where
  "shown_row E GetTime incoming x r \<longleftrightarrow> (case x of (time, owner, to_adr, amount) \<Rightarrow>
     td_time r = GetTime time \<and> td_in r = incoming \<and> td_value r = IntToString (trx amount)
     \<and> AddressEncodeBase58Check (fe_sha (oe_form E)) owner = Inr (td_from r)
     \<and> AddressEncodeBase58Check (fe_sha (oe_form E)) to_adr = Inr (td_to r))"

definition fits_int :: "64 word \<times> bytes \<times> bytes \<times> 64 word \<Rightarrow> bool" where
  "fits_int x \<longleftrightarrow> (case x of (_, _, _, amount) \<Rightarrow> - (2 ^ 31) \<le> trx amount \<and> trx amount < 2 ^ 31)"

lemma to_int_trx: "to_int (ToTrx amount) = (if - (2 ^ 31) \<le> trx amount \<and> trx amount < 2 ^ 31 then Inr (trx amount) else Inl OutOfRange)"
  unfolding to_int_def ToTrx_def TRX_DROP_RATE_def trx_def [symmetric] floor_of_int ceiling_of_int Let_def if_cancel ..

lemma transaction_row_shown:
  assumes "\<forall>x \<in> set (transfer_of E time c). fits_int x"
  shows "\<exists>rows. transaction_row E GetTime incoming time c = Inr rows \<and> list_all2 (shown_row E GetTime incoming) (transfer_of E time c) rows"
proof (cases "\<exists>owner to_adr amount. any_type (oe_contract E c) = Type_TransferContract
    \<and> any_unpack (oe_contract E c) = Some (TransferContract owner to_adr amount)")
  case True
  then obtain owner to_adr amount where c: "any_type (oe_contract E c) = Type_TransferContract"
    "any_unpack (oe_contract E c) = Some (TransferContract owner to_adr amount)" by blast
  obtain f t where "AddressEncodeBase58Check (fe_sha (oe_form E)) owner = Inr f" "AddressEncodeBase58Check (fe_sha (oe_form E)) to_adr = Inr t"
    using Encode_total by blast
  with c assms show ?thesis
    by (simp add: transaction_row_def transfer_of_def to_int_trx fits_int_def shown_row_def)
next
  case False
  then have "transaction_row E GetTime incoming time c = Inr []" "transfer_of E time c = []"
    by (auto simp: transaction_row_def transfer_of_def split: ContractType.split option.split contract.split)
  then show ?thesis by simp
qed

lemma push_contracts_shown:
  "\<forall>x \<in> set (concat (map (transfer_of E time) cs)). fits_int x
   \<Longrightarrow> \<exists>rows. push_contracts E GetTime incoming time cs = Inr rows
     \<and> list_all2 (shown_row E GetTime incoming) (concat (map (transfer_of E time) cs)) rows"
proof (induction cs)
  case (Cons c cs)
  then obtain rest where "push_contracts E GetTime incoming time cs = Inr rest"
    "list_all2 (shown_row E GetTime incoming) (concat (map (transfer_of E time) cs)) rest" by auto
  moreover obtain rows where "transaction_row E GetTime incoming time c = Inr rows"
    "list_all2 (shown_row E GetTime incoming) (transfer_of E time c) rows"
    using Cons.prems transaction_row_shown [of E time c GetTime incoming] by auto
  ultimately show ?case by (simp add: list_all2_appendI)
qed simp

lemma PushTransactionData_shown:
  "\<forall>x \<in> set (transfers E ts). fits_int x
   \<Longrightarrow> \<exists>rows. PushTransactionData E GetTime ts incoming = Inr rows \<and> list_all2 (shown_row E GetTime incoming) (transfers E ts) rows"
proof (induction ts)
  case (Cons t ts)
  then obtain rest where "PushTransactionData E GetTime ts incoming = Inr rest"
    "list_all2 (shown_row E GetTime incoming) (transfers E ts) rest" by (auto simp: transfers_def)
  moreover obtain rows where "push_contracts E GetTime incoming (raw_timestamp (tx_raw t)) (raw_contracts (tx_raw t)) = Inr rows"
    "list_all2 (shown_row E GetTime incoming) (concat (map (transfer_of E (raw_timestamp (tx_raw t))) (raw_contracts (tx_raw t)))) rows"
    using Cons.prems push_contracts_shown [of E "raw_timestamp (tx_raw t)" "raw_contracts (tx_raw t)" GetTime incoming]
    by (auto simp: transfers_def)
  ultimately show ?case by (simp add: transfers_def list_all2_appendI)
qed (simp add: transfers_def)

text \<open>C24: when both answers have come, the list shows every transfer of both, those sent first, marked and with
  their addresses, and nothing is left for the next time; the amount is in whole TRX, towards zero. An
  amount that does not fit 32 bits is undefined behaviour.\<close>

theorem transactions_listed:
  assumes "tf_datas f = []" "\<forall>x \<in> set (transfers E sent) \<union> set (transfers E received). fits_int x"
  shows "\<exists>f1 f2 out_rows in_rows. from_this_answer E GetTime sent f = Inr f1 \<and> tf_rows f1 = tf_rows f
    \<and> to_this_answer E GetTime received f1 = Inr f2 \<and> tf_datas f2 = [] \<and> tf_rows f2 = out_rows @ in_rows
    \<and> list_all2 (shown_row E GetTime False) (transfers E sent) out_rows
    \<and> list_all2 (shown_row E GetTime True) (transfers E received) in_rows"
proof -
  obtain out_rows where o: "PushTransactionData E GetTime sent False = Inr out_rows"
    "list_all2 (shown_row E GetTime False) (transfers E sent) out_rows"
    using PushTransactionData_shown [of E sent] assms(2) by blast
  obtain in_rows where i: "PushTransactionData E GetTime received True = Inr in_rows"
    "list_all2 (shown_row E GetTime True) (transfers E received) in_rows"
    using PushTransactionData_shown [of E received] assms(2) by blast
  from o i assms(1) show ?thesis
    by (simp add: from_this_answer_def to_this_answer_def tf_Push_def UpdateTransaction_def) blast
qed

text \<open>A transfer of 2147483648 TRX or more, or of as much below zero, is not listed: its conversion to
  \<open>int\<close> is out of range.\<close>

theorem transfer_out_of_range:
  assumes "any_type (oe_contract E c) = Type_TransferContract" "any_unpack (oe_contract E c) = Some (TransferContract owner to_adr amount)"
    and "c \<in> set (raw_contracts (tx_raw t))" "t \<in> set ts" "2147483648 * 1000000 \<le> sint amount"
  shows "\<exists>e. PushTransactionData E GetTime ts incoming = Inl e"
proof -
  have "2147483648 \<le> sint amount div 1000000" using assms(5) by (simp add: zdiv_mono1 [of "2147483648 * 1000000" _ 1000000, simplified])
  then have "\<not> trx amount < 2 ^ 31" using assms(5) by (simp add: trx_def)
  moreover obtain f s where "AddressEncodeBase58Check (fe_sha (oe_form E)) owner = Inr f"
    "AddressEncodeBase58Check (fe_sha (oe_form E)) to_adr = Inr s"
    using Encode_total by blast
  ultimately have r: "transaction_row E GetTime incoming time c = Inl OutOfRange" for time
    using assms(1,2) by (simp add: transaction_row_def to_int_trx)
  have "c \<in> set cs \<Longrightarrow> \<exists>e. push_contracts E GetTime incoming time cs = Inl e" for cs time
  proof (induction cs)
    case (Cons d cs)
    then show ?case using r [of time] by (cases "transaction_row E GetTime incoming time d") auto
  qed simp
  with assms(3) have "\<exists>e. push_contracts E GetTime incoming (raw_timestamp (tx_raw t)) (raw_contracts (tx_raw t)) = Inl e" by blast
  with assms(4) show ?thesis
  proof (induction ts)
    case (Cons u ts)
    then show ?case
      by (cases "push_contracts E GetTime incoming (raw_timestamp (tx_raw u)) (raw_contracts (tx_raw u))") auto
  qed simp
qed

section \<open>The buttons\<close>

text \<open>Without a login, the buttons of the account do nothing but show a message; and whatever button is
  pressed, what is requested of the nodes is of no account or of the one that is logged in.\<close>

theorem clicks_guarded:
  assumes "needs_login b \<or> b \<in> {BTN_CONNECTION, BTN_VOTE, BTN_TOKEN_LIST}"
  shows "(tron_address am = [] \<and> needs_login b \<longrightarrow> OnUIBTNClick E am imported b = login_message am)
    \<and> requests (OnUIBTNClick E am imported b) =
      (if tron_address am = [] \<and> needs_login b then []
       else (case b of
          BTN_SEND \<Rightarrow> [(Request_GetAccount, Account (tron_address am))]
        | BTN_TRANSACTIONS \<Rightarrow> [(Request_getTransactionsFromThis, AccountPaginated (tron_address am) 0 1000)]
        | BTN_BALANCELIST \<Rightarrow> [(Request_GetAccount, Account (tron_address am))]
        | BTN_VOTE \<Rightarrow> [(Request_ListWitnesses, EmptyMessage)]
        | BTN_TOKEN_LIST \<Rightarrow> [(Request_GetAssetIssueList, EmptyMessage)]
        | BTN_MY_TOKEN \<Rightarrow> [(Request_GetAssetIssueByAccount, Account (tron_address am))]
        | _ \<Rightarrow> []))"
  using assms
  by (cases b) (simp_all add: OnUIBTNClick_def needs_login_def CheckLogin_def Let_def login_message_def ShowTransactions_def
      ShowBalanceList_def GetWitnessList_def ShowTokenList_def ShowMyTokenList_def)

section \<open>Signing out\<close>

lemma hash_less_antisym: "length a = length b \<Longrightarrow> \<not> hash_less a b \<Longrightarrow> \<not> hash_less b a \<Longrightarrow> a = b"
  by (induction a b rule: list_induct2) (auto split: if_splits)

lemma set_addr_insert: "\<forall>b \<in> set s. length b = length a \<Longrightarrow> set (addr_insert a s) = insert a (set s)"
  by (induction a s rule: addr_insert.induct) (auto dest: hash_less_antisym)

lemma set_addr_inserts:
  "\<forall>b \<in> set s. length b = n \<Longrightarrow> \<forall>p \<in> set ps. length (g p) = n
    \<Longrightarrow> set (foldl (\<lambda>s p. addr_insert (g p) s) s ps) = set s \<union> g ` set ps"
  by (induction ps arbitrary: s) (auto simp: set_addr_insert)

text \<open>Addresses have 20 bytes.\<close>

definition addresses_ok :: "key_manager \<Rightarrow> bool" where
  "addresses_ok km \<longleftrightarrow> (\<forall>p \<in> set (m_keyInfo km). length (fst p) = 20) \<and> (\<forall>p \<in> set (m_keys (m_store km)). length (address (snd p)) = 20)"

lemma km_clear_info: "m_keyInfo (snd (km_clear H a km)) = al_del a (m_keyInfo km)"
  by (simp add: km_clear_def snd_sbind_return sbind_def [of "smodify _"] smodify_def km_write_fields forget_def)

lemma accounts_stored:
  assumes "(u, k) \<in> set (m_keys (m_store km))" "hash_less (hash_empty 20) (address k)" "addresses_ok km"
  shows "accounts km \<noteq> []"
proof -
  have s: "set (foldl (\<lambda>s p. addr_insert (fst p) s) [] (m_keyInfo km)) = fst ` set (m_keyInfo km)"
    using set_addr_inserts [of "[]" 20 "m_keyInfo km" fst] assms(3) by (simp add: addresses_ok_def)
  have "set (foldl (\<lambda>s p. addr_insert (address (snd p)) s) (foldl (\<lambda>s p. addr_insert (fst p) s) [] (m_keyInfo km)) (m_keys (m_store km)))
      = fst ` set (m_keyInfo km) \<union> (\<lambda>p. address (snd p)) ` set (m_keys (m_store km))"
    using set_addr_inserts [of "foldl (\<lambda>s p. addr_insert (fst p) s) [] (m_keyInfo km)" 20 "m_keys (m_store km)" "\<lambda>p. address (snd p)"] s assms(3)
    by (auto simp: addresses_ok_def)
  then have "address k \<in> set (foldl (\<lambda>s p. addr_insert (address (snd p)) s) (foldl (\<lambda>s p. addr_insert (fst p) s) [] (m_keyInfo km)) (m_keys (m_store km)))"
    using assms(1) by force
  with assms(2) show ?thesis
    by (auto simp: accounts_def Let_def case_prod_unfold dropWhile_eq_Nil_conv)
qed

lemma Logout_result:
  assumes "Logout E am = (Inr (), am')"
  shows "\<exists>km a. keyManager am = Some km \<and> am' = (set_pair [] '''' am)\<lparr>keyManager := Some (snd (km_clear (env_host E) a km))\<rparr>"
proof (cases "keyManager am")
  case (Some km)
  obtain a where a: "ToAddress (tron_address am) = Inr a"
    using assms by (cases "ToAddress (tron_address am)") (simp_all add: Logout_def)
  obtain r km' where "km_clear (env_host E) a km = (r, km')" by fastforce
  with a Some assms have "am' = (set_pair [] '''' am)\<lparr>keyManager := Some (snd (km_clear (env_host E) a km))\<rparr>"
    by (cases r; cases am) (auto simp: Logout_def sbind_def on_keys_def set_pair_def)
  with Some show ?thesis by blast
next
  case None
  with assms show ?thesis by (cases "ToAddress (tron_address am)") (simp_all add: Logout_def sbind_def on_keys_def)
qed

text \<open>C26: signing out keeps the keys, so the account bar offers to log in; but in the cold wallet's window the
  list of the generated addresses is shown instead of the form for logging in, without a login, and the
  button of each of its entries still shows the private key.\<close>

theorem cold_sign_out:
  assumes "Logout E am = (Inr (), am')" "keyManager am = Some km"
    and "(u, k) \<in> set (m_keys (m_store km))" "hash_less (hash_empty 20) (address k)" "addresses_ok km"
    and "cached_keys am \<noteq> []" "address_lookup am \<noteq> []"
  shows "bar_sign_out E am = (Inr (False, True), am') \<and> \<not> fst (CheckLogin am')
    \<and> main_OnAccountBarLogin E (False, True) am' = (Inr [Ui (ShowContent ''login_form'')], am')
    \<and> cold_OnAccountBarLogin E uuids (False, True) am'
      = (Inr [Ui (ShowContent ''login_form''), Ui (SetText ''''), Ui (ShowAddresses ''address_list_form'' (map snd (address_lookup am)))], am')
    \<and> show_private_key x am' = show_private_key x am"
proof -
  obtain km' a where am': "am' = (set_pair [] '''' am)\<lparr>keyManager := Some km'\<rparr>" "km' = snd (km_clear (env_host E) a km)"
    using Logout_result [OF assms(1)] assms(2) by auto
  have "addresses_ok km'" using assms(5) by (auto simp: addresses_ok_def am'(2) km_clear_store km_clear_info al_del_def)
  with assms(3,4) have "accounts km' \<noteq> []" by (intro accounts_stored [of u k]) (simp_all add: am'(2) km_clear_store)
  then have h: "HasAccount E am' = (Inr True, am')"
    by (simp add: HasAccount_def OpenWallet_def am'(1) sbind_def ask_keys_def)
  have f: "tron_address am' = []" "cached_keys am' = cached_keys am" "address_lookup am' = address_lookup am"
    by (simp_all add: am'(1) set_pair_def)
  from h f assms(1,6,7) show ?thesis
    by (simp add: bar_sign_out_def main_OnAccountBarLogin_def base_OnAccountBarLogin_def cold_OnAccountBarLogin_def
        ShowSignOut_def ShowAddressList_def GetAddresses_def GetAccountName_def sbind_def CheckLogin_def show_private_key_def
        LookupPrivate_def cong: option.case_cong)
qed

section \<open>Witnesses\<close>

theorem clicks_guarded_witness:
  "requests (OnUIBTNClick Form_Flow.toy_env (toy_manager\<lparr>tron_address := [1]\<rparr>) {} BTN_MY_TOKEN) = [(Request_GetAssetIssueByAccount, Account [1])]"
  using clicks_guarded [of BTN_MY_TOKEN "toy_manager\<lparr>tron_address := [1]\<rparr>" Form_Flow.toy_env "{}"] by (simp add: needs_login_def)

definition toy_transfer :: "int \<Rightarrow> offline_env" where
  "toy_transfer n = toy_offline Type_TransferContract (TransferContract [1] [2] (of_int n))"

lemma toy_transfer_contract:
  "any_type (oe_contract (toy_transfer n) c) = Type_TransferContract"
  "any_unpack (oe_contract (toy_transfer n) c) = Some (TransferContract [1] [2] (of_int n))"
  by (simp_all add: toy_transfer_def toy_offline_def)

theorem transactions_listed_witness:
  "\<exists>f1 f2 r. from_this_answer (toy_transfer 7000001) (\<lambda>_. ''now'') [toy_tx] \<lparr>tf_datas = [], tf_rows = []\<rparr> = Inr f1
    \<and> to_this_answer (toy_transfer 7000001) (\<lambda>_. ''now'') [] f1 = Inr f2 \<and> tf_rows f2 = [r] \<and> td_value r = ''7'' \<and> \<not> td_in r"
proof -
  have t: "transfers (toy_transfer 7000001) [toy_tx] = [(0, [1], [2], 7000001)]" "transfers (toy_transfer 7000001) [] = []"
    by (simp_all add: transfers_def transfer_of_def toy_transfer_contract toy_tx_def)
  have v: "trx 7000001 = 7" by (simp add: trx_def)
  have "IntToString 7 = ''7''" by code_simp
  with transactions_listed [of "\<lparr>tf_datas = [], tf_rows = []\<rparr>" "toy_transfer 7000001" "[toy_tx]" "[]" "\<lambda>_. ''now''"]
  show ?thesis by (auto simp: t fits_int_def v shown_row_def list_all2_Cons1)
qed

theorem transfer_out_of_range_witness:
  "\<exists>e. PushTransactionData (toy_transfer 2147483648000000) (\<lambda>_. ''now'') [toy_tx] True = Inl e"
  by (rule transfer_out_of_range [where c = "[1]" and t = toy_tx, OF toy_transfer_contract]) (simp_all add: toy_tx_def)

theorem cold_sign_out_witness:
  "\<exists>am am'. fst (CheckLogin am) \<and> bar_sign_out Account_Facts.toy_env am = (Inr (False, True), am')
    \<and> \<not> fst (CheckLogin am') \<and> show_private_key ''27A'' am' = Some (toHex (replicate 32 7))"
proof -
  define k :: encrypted_key where "k = \<lparr>encryptedKey = '''', filename = '''', address = replicate 20 9\<rparr>"
  define km where "km = toy_km\<lparr>m_store := (ss_empty Map.empty)\<lparr>m_keys := [(replicate 16 5, k)]\<rparr>\<rparr>"
  define am where "am = toy_manager\<lparr>keyManager := Some km, tron_address := ToTronAddress (replicate 20 9),
      address_lookup := [(replicate 16 1, ''27A'')], cached_keys := [(replicate 16 1, replicate 32 7)]\<rparr>"
  have f: "m_keysFileKey km = hash_empty 16" "m_keyInfo km = m_keyInfo toy_km"
    by (simp_all add: km_def toy_km_def KeyManager_new_def ss_keys_def ss_empty_def)
  obtain am' where l: "Logout Account_Facts.toy_env am = (Inr (), am')"
    using toy_logout [of am km "replicate 20 9" Account_Facts.toy_env] f by (auto simp: am_def ToAddress_Tron)
  have "hash_less (hash_empty 20) (replicate 20 9)" by code_simp
  then have "hash_less (hash_empty 20) (address k)" by (simp add: k_def)
  moreover have "addresses_ok km" by (simp add: addresses_ok_def f toy_km_fields km_def k_def)
  moreover have "show_private_key ''27A'' am = Some (toHex (replicate 32 7))"
    by (simp add: show_private_key_def LookupPrivate_def am_def hash_of_bytes_def)
  ultimately show ?thesis
    using cold_sign_out [OF l, of km "replicate 16 5" k "[]" "''27A''"]
    by (intro exI [of _ am] exI [of _ am']) (simp add: am_def km_def CheckLogin_def ToTronAddress_def)
qed

end
