(* ===== verification/Spec2Isabelle.thy ===== *)
theory Spec2Isabelle
  imports Rlp_Reader Ripemd160 Cold_Wallet Network_Facts Send_Form Vote_Form Token_Forms Offline_Forms Vanity_Search
    Connection_Form String_Tools Watch_Wallet Main_Window
begin

text \<open>
  A verification development for TronWallet, a desktop wallet for the Tron network written in C++.

  \<^bold>\<open>The program.\<close> The wallet keeps secret keys encrypted in files (libdevcrypto/SecretStore.cpp) and, in
  a second encrypted file, what it knows of the accounts (wallet/core/key_manager.cpp); an account is
  created, logged in and logged out by wallet/core/account_manager.cpp, which for the cold wallet also
  generates addresses and keeps their keys. Two windows use it: the online wallet talks to two nodes
  through wallet/core/network_thread.cpp, the cold wallet exchanges files of transactions and votes
  with it (wallet/core/transaction_manager.cpp). The forms of wallet/gui check what the user enters,
  ask a node for a transaction, have it signed and broadcast it. Underneath are the codecs and hashes
  of libdevcore and libdevcrypto and a few functions of the vendored base library.

  \<^bold>\<open>The theories\<close>, in the order in which they build on each other; each opens with what it models.

  \<^item> Vocabulary: \<open>Wallet_Prelude\<close> (bytes, C++ strings, the error type and its results, association
    lists for maps, named collections), \<open>Effects\<close> (state with exceptions: an action returns an outcome
    and a state, also when it throws), \<open>Transition_System\<close> (the locales of machines with invariants).
  \<^item> libdevcore: \<open>Hex_Codec\<close> (CommonData.h, CommonData.cpp), \<open>Base58\<close> (base58.cpp), \<open>Rlp_Stream\<close> and
    \<open>Rlp_Reader\<close> (RLP.h, RLP.cpp), \<open>Fixed_Hash\<close> (FixedHash.h), \<open>Keccak\<close> (SHA3.cpp).
  \<^item> libdevcrypto: \<open>Ripemd160\<close> (Hash.cpp), \<open>Crypto_Common\<close> (Common.cpp, CryptoPP.cpp), \<open>Json_Value\<close>,
    \<open>Secret_Store\<close> and \<open>Secret_Store_Facts\<close> (SecretStore.cpp).
  \<^item> base: \<open>Base_Value\<close> and \<open>Base_Value_Facts\<close> (values.cc), \<open>Json_File\<close> (json_file_value_serializer.cc),
    \<open>Number_Text\<close> (string_number_conversions.cc), \<open>String_Tools\<close> (the string functions of macros.cc).
  \<^item> wallet/core: \<open>Key_Manager\<close>, \<open>Key_Manager_Facts\<close>, \<open>Key_Manager_Invariant\<close> and \<open>Vanity_Search\<close>
    (key_manager.cpp), \<open>Core_Util\<close> (core_util.cpp), \<open>Account_Manager\<close>, \<open>Account_Facts\<close>, \<open>Cold_Wallet\<close> and
    \<open>Sign_In\<close> (account_manager.cpp), \<open>Transaction_Manager\<close> (transaction_manager.cpp), \<open>Network_Thread\<close> and
    \<open>Network_Facts\<close> (network_thread.cpp).
  \<^item> wallet/gui: \<open>Form_Flow\<close> (what the forms share: messages, actions, callbacks), \<open>Send_Form\<close>,
    \<open>Freeze_Form\<close>, \<open>Vote_Form\<close>, \<open>Token_Forms\<close>, \<open>Offline_Forms\<close>, \<open>Connection_Form\<close>, \<open>Watch_Wallet\<close> and
    \<open>Main_Window\<close>, each named after the forms it models.

  \<^bold>\<open>State and operations.\<close> A class is a record of its members (\<open>secret_store\<close>, \<open>key_manager\<close>,
  \<open>account_manager\<close>, \<open>net\<close>, \<open>rlp\<close>, the forms), a member function a function on it with the name it has in
  the source; \<open>al_put\<close> and \<open>al_del\<close> on association lists are the assignments and erasures of the maps, in
  their order of iteration where it is observable. A function that throws returns \<open>Inl\<close> of an error; in a
  member function the state reached before the exception is kept. Undefined behaviour that depends on
  the input (an index out of range, a null pointer, a conversion out of range) is an error as well. Machine
  integers are words of their width, or integers where the source's do not wrap. The disk is a map from
  paths to contents inside the record that owns it. Random values, the readings of the clock and the
  answers of the user are arguments of the operations.

  \<^bold>\<open>Interaction.\<close> \<open>AccountManager\<close> owns the \<open>KeyManager\<close>, which owns the \<open>SecretStore\<close>: the records are
  nested and the calls lifted (\<open>on_keys\<close>, \<open>ask_keys\<close>). The window's thread and the network thread share
  the pool of contexts and \<open>lastCallType_\<close>; \<open>Network_Thread\<close> cuts both at the accesses to these, and
  \<open>net_step\<close> interleaves the pieces. A handler of a form is the list of the actions it does; a request
  carries its callback, and \<open>follow\<close> runs the callbacks on a list of answers. What a callback changes in
  its form is a function of the answer and the form.
\<close>

text \<open>
  \<^bold>\<open>What is shown.\<close>

  \<^item> Codecs: hexadecimal text, compact big-endian integers, Base58 (a text is accepted exactly if it is
    canonical, up to white space), Base58Check addresses, decimal and hexadecimal numbers for every
    width, joined strings, RLP items and lists (the stream, which closes lists in place, writes the
    recursive definition; the reader's cache and iterator read it back) all round-trip, with their
    errors and bounds.
  \<^item> Hashes: the unrolled Keccak permutation and the unrolled RIPEMD-160 compression are the published
    round functions; \<open>sha3\<close> is the sponge construction.
  \<^item> Keys: encrypted secrets decrypt under their password and are refused under another one up to a
    collision; a saved store is read back; the keys file round-trips; every reachable state of the
    store and of the key manager keeps its maps consistent; a password is accepted only if its hash
    matches.
  \<^item> Accounts: what creating an account establishes, that signing out and in again leads to the same
    account, when the search for a key ends, the cold wallet's file, the search with several threads.
  \<^item> Network: in every interleaving each accepted request is answered at most once and in order; the
    worker answers all of them whatever the nodes do; at rest a request is accepted.
  \<^item> Forms: what is requested is what was entered and nothing else is asked for; which guard refuses
    what; offline signing takes a transaction through the three computers' steps and leaves its contracts
    alone; saved nodes are those that are connected to; the list of transactions is complete.
  \<^item> Where the code does not do what it means to, a theorem states what it does: the manifest's
    findings name it.

  \<^bold>\<open>Interfaces.\<close> The locale \<open>state_machine\<close> is interpreted on the key store (\<open>ss\<close>), the key manager
  (\<open>km\<close>) and the threads of the key search (\<open>vanity\<close>), its extension \<open>refined_machine\<close>, whose second
  invariant relies on the first, on the network thread (\<open>network\<close>). The flags of \<open>TrimPositions\<close> are a
  semilattice.

  \<^bold>\<open>Loops.\<close> Recursion over the data or with a measure wherever the loop ends. The search for a key
  (\<open>MakeKey_loop\<close>) and splitting a string (\<open>split_loop\<close>) may run forever: they are partial functions into
  options, and it is proved exactly when they return. Loops over an RLP list take a fuel of the length of
  the data plus two, which is enough because every step consumes a byte unless the iteration diverges;
  divergence is the error \<open>Diverges\<close>, and that reading a written list does not diverge is part of its
  theorem. The password is asked for at most ten times, as in the source. The search with threads is a
  step relation; that it can end from every state is proved.

  \<^bold>\<open>Parameters\<close> stand for code that is not translated, with the laws relied on as hypotheses, each shown
  to hold of a concrete instance by the witnesses: \<open>crypto_lib\<close> (libsecp256k1, Crypto++, libscrypt; counter
  mode decrypts what it encrypts, key derivations have the requested length, SHA-256 has 32 bytes),
  \<open>json_lib\<close> and \<open>json_io\<close> (the JSON readers and writers of json_spirit and base; what is written is read
  back), \<open>tx_codec\<close> and \<open>any_contract\<close> (protobuf), the answers of the nodes, \<open>host\<close> (joining of paths,
  listing of directories, case folding), the texts of dates.

  \<^bold>\<open>Not modelled.\<close> Layout, painting, images, menus and window messages of wallet/gui, the QR codes and the
  GUI libraries (wallet/universal_lib, wallet/common_ui): they call the Windows API only. Vendored and
  generated code (cryptopp, asio, grpc, jsoncpp, libscrypt, googleapis, grpc_proto, utils, the rest of
  base). Logging, locks and terminal output of libdevcore; the glue to libsnark. Conversions between
  UTF-8 and wide strings: texts are UTF-8 throughout. File permissions, failing writes, creation of
  directories, the destructor of the network thread and start-up. Of a double only its value is kept: the
  magnitudes in the wallet neither overflow nor underflow; reading a text also gives infinities and
  not-a-numbers.
\<close>

end
